(* ===== verification/Prelude.thy ===== *)
theory Prelude
  imports
    Main
    "HOL-Library.Word"
    "HOL-Library.AList"
    "HOL-Library.Multiset"
    "HOL-Library.Product_Lexorder"
    "HOL-Library.List_Lexorder"
    "HOL-Library.Char_ord"
begin

text \<open>
  What every component of the procflow development shares: the machine integers of the Rust
  code, the byte-counter pair \<open>(ingress, egress)\<close>, the two map types the code folds counters
  into (\<open>HashMap\<close> and \<open>BTreeMap\<close>, both as association lists with distinct keys) with the
  interface \<open>accumulator\<close> that their clients rely on, and sums over rows selected by a key.
\<close>

section \<open>Machine integers\<close>

type_synonym u8 = "8 word"
type_synonym u16 = "16 word"
type_synonym u32 = "32 word"
type_synonym u64 = "64 word"

text \<open>Signed 64-bit times and row ids are mathematical integers; \<open>i64_range\<close> says where they fit.\<close>

type_synonym i64 = int

definition i64_range :: "int \<Rightarrow> bool" where
  "i64_range x \<longleftrightarrow> - (2 ^ 63) \<le> x \<and> x < 2 ^ 63"

named_theorems conserve \<open>equations saying that a step neither loses nor invents bytes\<close>
named_theorems wf_intro \<open>preservation rules of the well-formedness invariants\<close>


section \<open>The counter pair\<close>

text \<open>
  Direction is a column split (CONTEXT.md): every counter is a pair of unsigned 64-bit byte
  counts, the \<open>(u64, u64)\<close> of the Rust code. Addition is componentwise and wraps as
  \<open>+=\<close> does in a release build, so the pair is a commutative monoid and sums of counters do
  not depend on order.
\<close>

datatype counts = Counts (ingress: u64) (egress: u64)

instantiation counts :: comm_monoid_add
begin

definition zero_counts :: counts where
  "zero_counts = Counts 0 0"

definition plus_counts :: "counts \<Rightarrow> counts \<Rightarrow> counts" where
  "plus_counts a b = Counts (ingress a + ingress b) (egress a + egress b)"

instance
  by standard (simp_all add: zero_counts_def plus_counts_def algebra_simps)

end

lemma ingress_plus [simp]: "ingress (a + b) = ingress a + ingress b"
  by (simp add: plus_counts_def)

lemma egress_plus [simp]: "egress (a + b) = egress a + egress b"
  by (simp add: plus_counts_def)

lemma counts_zero [simp]: "ingress 0 = 0" "egress 0 = 0"
  by (simp_all add: zero_counts_def)

lemma Counts_plus [simp]: "Counts a b + Counts c d = Counts (a + c) (b + d)"
  by (simp add: plus_counts_def)

lemma ingress_sum_list: "ingress (sum_list cs) = sum_list (map ingress cs)"
  by (induction cs) simp_all

lemma egress_sum_list: "egress (sum_list cs) = sum_list (map egress cs)"
  by (induction cs) simp_all


section \<open>Association lists as the code's maps\<close>

text \<open>
  \<open>hash_bump k d t\<close> is \<open>*t.entry(k).or_insert(0) += d\<close> on a \<open>HashMap\<close>. Iteration order of
  a \<open>HashMap\<close> is unspecified; the model iterates in the order of first insertion.
  \<open>btree_bump k d t\<close> is the same on a \<open>BTreeMap\<close>, which iterates in key order.
\<close>

fun hash_bump :: "'k \<Rightarrow> 'v::comm_monoid_add \<Rightarrow> ('k \<times> 'v) list \<Rightarrow> ('k \<times> 'v) list" where
  "hash_bump k d [] = [(k, d)]"
| "hash_bump k d ((k', v) # t) =
     (if k' = k then (k', v + d) # t else (k', v) # hash_bump k d t)"

fun btree_bump :: "'k::linorder \<Rightarrow> 'v::comm_monoid_add \<Rightarrow> ('k \<times> 'v) list \<Rightarrow> ('k \<times> 'v) list" where
  "btree_bump k d [] = [(k, d)]"
| "btree_bump k d ((k', v) # t) =
     (if k < k' then (k, d) # (k', v) # t
      else if k = k' then (k', v + d) # t
      else (k', v) # btree_bump k d t)"

text \<open>The sum of the values under one key of a list of increments.\<close>

definition sum_at :: "'k \<Rightarrow> ('k \<times> 'v::comm_monoid_add) list \<Rightarrow> 'v" where
  "sum_at k ds = sum_list (map snd (filter (\<lambda>p. fst p = k) ds))"

lemma sum_at_Nil [simp]: "sum_at k [] = 0"
  by (simp add: sum_at_def)

lemma sum_at_Cons [simp]: "sum_at k ((k', d) # ds) = (if k' = k then d else 0) + sum_at k ds"
  by (simp add: sum_at_def)

lemma sum_at_append [simp]: "sum_at k (ds @ es) = sum_at k ds + sum_at k es"
  by (simp add: sum_at_def)

lemma sum_at_notin: "k \<notin> fst ` set ds \<Longrightarrow> sum_at k ds = 0"
  by (induction ds) auto

text \<open>A map entry read with a default of zero, as \<open>or_default\<close> does.\<close>

definition get_or_zero :: "('k \<times> 'v::zero) list \<Rightarrow> 'k \<Rightarrow> 'v" where
  "get_or_zero t k = (case map_of t k of None \<Rightarrow> 0 | Some v \<Rightarrow> v)"

locale accumulator =
  fixes bump :: "'k \<Rightarrow> 'v::comm_monoid_add \<Rightarrow> ('k \<times> 'v) list \<Rightarrow> ('k \<times> 'v) list"
    and ok :: "('k \<times> 'v) list \<Rightarrow> bool"
  assumes ok_Nil: "ok []"
    and ok_distinct: "ok t \<Longrightarrow> distinct (map fst t)"
    and ok_bump: "ok t \<Longrightarrow> ok (bump k d t)"
    and map_of_bump: "ok t \<Longrightarrow> map_of (bump k d t) = (map_of t)(k \<mapsto> get_or_zero t k + d)"
    and keys_bump: "fst ` set (bump k d t) = insert k (fst ` set t)"
    and total_bump: "sum_list (map snd (bump k d t)) = sum_list (map snd t) + d"
begin

lemma ok_fold: "ok t \<Longrightarrow> ok (fold (\<lambda>(k, d). bump k d) ds t)"
  by (induction ds arbitrary: t) (auto simp: ok_bump)

lemma keys_fold: "fst ` set (fold (\<lambda>(k, d). bump k d) ds t) = fst ` set t \<union> fst ` set ds"
proof (induction ds arbitrary: t)
  case (Cons p ds)
  then show ?case by (cases p) (simp add: keys_bump)
qed simp

lemma total_fold:
  "sum_list (map snd (fold (\<lambda>(k, d). bump k d) ds t)) = sum_list (map snd t) + sum_list (map snd ds)"
  by (induction ds arbitrary: t) (auto simp: total_bump add.assoc)

lemma get_bump: "ok t \<Longrightarrow> get_or_zero (bump k d t) k' = (if k' = k then get_or_zero t k + d else get_or_zero t k')"
  by (simp add: get_or_zero_def map_of_bump)

lemma get_fold: "ok t \<Longrightarrow> get_or_zero (fold (\<lambda>(k, d). bump k d) ds t) k = get_or_zero t k + sum_at k ds"
proof (induction ds arbitrary: t)
  case Nil
  then show ?case by simp
next
  case (Cons p ds)
  obtain k' d where p: "p = (k', d)" by force
  have "get_or_zero (fold (\<lambda>(k, d). bump k d) ds (bump k' d t)) k
      = get_or_zero (bump k' d t) k + sum_at k ds"
    by (rule Cons.IH) (rule ok_bump [OF Cons.prems])
  then show ?case
    using Cons.prems by (simp add: p get_bump add.assoc)
qed

text \<open>The value under a key is the sum of the increments under that key.\<close>

lemma map_of_fold:
  "map_of (fold (\<lambda>(k, d). bump k d) ds []) k =
     (if k \<in> fst ` set ds then Some (sum_at k ds) else None)"
proof -
  let ?t = "fold (\<lambda>(k, d). bump k d) ds []"
  have keys: "fst ` set ?t = fst ` set ds" by (simp add: keys_fold)
  have get: "get_or_zero ?t k = sum_at k ds"
    by (simp add: get_fold ok_Nil) (simp add: get_or_zero_def)
  show ?thesis
  proof (cases "k \<in> fst ` set ds")
    case True
    then obtain v where "map_of ?t k = Some v"
      using keys by (metis domD dom_map_of_conv_image_fst)
    with get True show ?thesis by (simp add: get_or_zero_def)
  next
    case False
    then show ?thesis using keys by (simp add: map_of_eq_None_iff)
  qed
qed

lemma distinct_fold: "distinct (map fst (fold (\<lambda>(k, d). bump k d) ds []))"
  by (rule ok_distinct) (rule ok_fold [OF ok_Nil])

lemma fold_entry:
  "(k, v) \<in> set (fold (\<lambda>(k, d). bump k d) ds []) \<longleftrightarrow> k \<in> fst ` set ds \<and> v = sum_at k ds"
  using map_of_fold [of ds k] distinct_fold [of ds]
  by (metis (mono_tags, lifting) map_of_eq_Some_iff option.distinct(1) option.inject)

end

lemma hash_bump_keys: "fst ` set (hash_bump k d t) = insert k (fst ` set t)"
  by (induction k d t rule: hash_bump.induct) auto

lemma btree_bump_keys: "fst ` set (btree_bump k d t) = insert k (fst ` set t)"
  by (induction k d t rule: btree_bump.induct) auto

abbreviation sorted_keys :: "('k::linorder \<times> 'v) list \<Rightarrow> bool" where
  "sorted_keys t \<equiv> sorted (map fst t) \<and> distinct (map fst t)"

lemma btree_bump_sorted: "sorted_keys t \<Longrightarrow> sorted_keys (btree_bump k d t)"
proof (induction k d t rule: btree_bump.induct)
  case (2 k d k' v t)
  have img: "fst ` set (btree_bump k d t) = insert k (fst ` set t)" by (rule btree_bump_keys)
  show ?case
    using 2 img by (fastforce simp: not_less_iff_gr_or_eq)
qed simp

lemma hash_bump_map_of: "map_of (hash_bump k d t) = (map_of t)(k \<mapsto> get_or_zero t k + d)"
  by (induction k d t rule: hash_bump.induct) (auto simp: get_or_zero_def fun_eq_iff)

lemma btree_bump_map_of:
  "sorted_keys t \<Longrightarrow> map_of (btree_bump k d t) = (map_of t)(k \<mapsto> get_or_zero t k + d)"
proof (induction k d t rule: btree_bump.induct)
  case (2 k d k' v t)
  have none: "map_of t k = None" if "k < k'"
    using that "2.prems" by (auto simp: map_of_eq_None_iff)
  show ?case
    using 2 none by (auto simp: get_or_zero_def fun_eq_iff)
qed (auto simp: get_or_zero_def)

interpretation hash: accumulator hash_bump "\<lambda>t. distinct (map fst t)"
proof
  show "distinct (map fst (hash_bump k d t))" if "distinct (map fst t)"
    for k :: 'a and d :: 'b and t
    using that by (induction k d t rule: hash_bump.induct) (auto simp: hash_bump_keys)
  show "sum_list (map snd (hash_bump k d t)) = sum_list (map snd t) + d"
    for k :: 'a and d :: 'b and t
    by (induction k d t rule: hash_bump.induct) (auto simp: algebra_simps)
qed (auto simp: hash_bump_keys hash_bump_map_of)

interpretation btree: accumulator btree_bump sorted_keys
proof
  show "sorted_keys (btree_bump k d t)" if "sorted_keys t" for k :: 'a and d :: 'b and t
    by (rule btree_bump_sorted [OF that])
  show "map_of (btree_bump k d t) = (map_of t)(k \<mapsto> get_or_zero t k + d)"
    if "sorted_keys t" for k :: 'a and d :: 'b and t
    by (rule btree_bump_map_of [OF that])
  show "sum_list (map snd (btree_bump k d t)) = sum_list (map snd t) + d"
    for k :: 'a and d :: 'b and t
    by (induction k d t rule: btree_bump.induct) (auto simp: algebra_simps)
qed (auto simp: btree_bump_keys)

text \<open>Two sorted maps with the same content are the same list.\<close>

lemma sorted_keys_unique:
  assumes "sorted_keys t" "sorted_keys u" "map_of t = map_of u"
  shows "t = u"
proof -
  have "set t = set u"
  proof (intro set_eqI)
    fix p
    show "p \<in> set t \<longleftrightarrow> p \<in> set u"
      using assms by (cases p) (metis map_of_eq_Some_iff)
  qed
  moreover from this have "inj_on fst (set t \<union> set u)"
    using assms(1) by (simp add: distinct_map)
  ultimately show ?thesis
    using assms(1,2) by (intro map_sorted_distinct_set_unique [where f = fst]) auto
qed


section \<open>Sums over the rows a key predicate selects\<close>

definition sum_where :: "('k \<Rightarrow> bool) \<Rightarrow> ('v \<Rightarrow> 'a::comm_monoid_add) \<Rightarrow> ('k \<times> 'v) list \<Rightarrow> 'a" where
  "sum_where P f t = sum_list (map (\<lambda>(k, v). if P k then f v else 0) t)"

lemma sum_where_Nil [simp]: "sum_where P f [] = 0"
  by (simp add: sum_where_def)

lemma sum_where_Cons [simp]:
  "sum_where P f ((k, v) # t) = (if P k then f v else 0) + sum_where P f t"
  by (simp add: sum_where_def)

lemma sum_where_append [simp]: "sum_where P f (t @ u) = sum_where P f t + sum_where P f u"
  by (induction t) (auto simp: add.assoc)

lemma sum_where_filter:
  "sum_where P f (filter (\<lambda>(k, v). Q k) t) = sum_where (\<lambda>k. P k \<and> Q k) f t"
  by (induction t) auto

lemma sum_where_cong:
  "(\<And>k v. (k, v) \<in> set t \<Longrightarrow> P k \<longleftrightarrow> Q k) \<Longrightarrow> sum_where P f t = sum_where Q f t"
  unfolding sum_where_def by (intro arg_cong [where f = sum_list] map_cong) auto

lemma sum_where_none: "(\<And>k v. (k, v) \<in> set t \<Longrightarrow> \<not> P k) \<Longrightarrow> sum_where P f t = 0"
  using sum_where_cong [of t P "\<lambda>_. False" f] by (simp add: sum_where_def case_prod_unfold)

lemma sum_where_split:
  "sum_where P f t = sum_where (\<lambda>k. P k \<and> Q k) f t + sum_where (\<lambda>k. P k \<and> \<not> Q k) f t"
  by (induction t) (auto simp: ac_simps)

lemma sum_where_update:
  assumes "distinct (map fst t)" "map_of t k = Some v"
  shows "sum_where P f (AList.update k w t) + (if P k then f v else 0)
       = sum_where P f t + (if P k then f w else 0)"
  using assms by (induction t) (auto simp: map_of_eq_None_iff ac_simps)

end
