(* ===== verification/Abi.thy ===== *)
theory Abi
  imports Prelude
begin

unbundle bit_operations_syntax

text \<open>
  The BPF map ABI shared by the kernel program and the daemon (\<open>procflow-common/src/lib.rs\<close>):
  the direction and scope encodings, the key of the \<open>TRAFFIC\<close> map, the value of \<open>PID_META\<close>,
  and the little-endian bytes in which 32-bit integers cross the ring buffer and the socket.
\<close>

definition DIR_INGRESS :: u8 where "DIR_INGRESS = 0"
definition DIR_EGRESS :: u8 where "DIR_EGRESS = 1"
definition SCOPE_EXTERNAL :: u8 where "SCOPE_EXTERNAL = 0"
definition SCOPE_LOOPBACK :: u8 where "SCOPE_LOOPBACK = 1"

lemmas abi_consts = DIR_INGRESS_def DIR_EGRESS_def SCOPE_EXTERNAL_def SCOPE_LOOPBACK_def

record traffic_key =
  tk_tgid :: u32
  tk_dir :: u8
  tk_scope :: u8
  tk_pad :: "u8 \<times> u8"

definition TrafficKey_new :: "u32 \<Rightarrow> u8 \<Rightarrow> u8 \<Rightarrow> traffic_key" where
  "TrafficKey_new tgid dir scope =
     \<lparr>tk_tgid = tgid, tk_dir = dir, tk_scope = scope, tk_pad = (0, 0)\<rparr>"

record pid_meta =
  pm_cgroup_id :: u64
  pm_uid :: u32
  pm_comm :: "u8 list"
  pm_pad :: "u8 list"

lemma TrafficKey_new_inject:
  "TrafficKey_new t d s = TrafficKey_new t' d' s' \<longleftrightarrow> t = t' \<and> d = d' \<and> s = s'"
  by (simp add: TrafficKey_new_def)

lemma TrafficKey_new_sel [simp]:
  "tk_tgid (TrafficKey_new t d s) = t" "tk_dir (TrafficKey_new t d s) = d"
  "tk_scope (TrafficKey_new t d s) = s"
  by (simp_all add: TrafficKey_new_def)


section \<open>Little-endian bytes\<close>

text \<open>\<open>u32::to_le_bytes\<close>, \<open>u32::from_le_bytes\<close>, and \<open>u32::to_be\<close> on a little-endian target.\<close>

definition to_le_bytes :: "u32 \<Rightarrow> u8 list" where
  "to_le_bytes w = [ucast w, ucast (drop_bit 8 w), ucast (drop_bit 16 w), ucast (drop_bit 24 w)]"

fun from_le_bytes :: "u8 list \<Rightarrow> u32" where
  "from_le_bytes [a, b, c, d] =
     ucast a OR push_bit 8 (ucast b) OR push_bit 16 (ucast c) OR push_bit 24 (ucast d)"
| "from_le_bytes _ = 0"

definition to_be :: "u32 \<Rightarrow> u32" where
  "to_be w = from_le_bytes (rev (to_le_bytes w))"

lemma length_to_le_bytes [simp]: "length (to_le_bytes w) = 4"
  by (simp add: to_le_bytes_def)

lemma le_bytes_roundtrip [simp]: "from_le_bytes (to_le_bytes w) = w"
proof (unfold to_le_bytes_def, rule bit_word_eqI)
  fix n assume "n < LENGTH(32)"
  then consider "n < 8" | "8 \<le> n" "n < 16" | "16 \<le> n" "n < 24" | "24 \<le> n" "n < 32"
    by (simp, linarith)
  then show "bit (from_le_bytes [ucast w, ucast (drop_bit 8 w), ucast (drop_bit 16 w),
      ucast (drop_bit 24 w)]) n = bit w n"
    by cases (auto simp: bit_simps)
qed

lemma bit_u8_ge: "8 \<le> m \<Longrightarrow> \<not> bit (a :: u8) m"
  using bit_imp_le_length [of a m] by auto

lemma le_bytes_octets: "to_le_bytes (from_le_bytes [a, b, c, d]) = [a, b, c, d]"
  unfolding to_le_bytes_def from_le_bytes.simps
  by (auto intro!: bit_word_eqI simp: bit_simps bit_u8_ge)

lemma to_be_1: "to_be 1 = 0x01000000"
  by (simp add: to_be_def to_le_bytes_def)

lemma to_be_ffff: "to_be 0x0000ffff = 0xffff0000"
  by (simp add: to_be_def to_le_bytes_def)

text \<open>The first octet of a network-order address is the low byte of the loaded word.\<close>

lemma first_octet: "from_le_bytes [a, b, c, d] AND 0xff = ucast a"
proof (rule bit_word_eqI)
  fix n assume "n < LENGTH(32)"
  have "bit (0xff :: u32) n \<longleftrightarrow> n < 8"
    using bit_mask_iff [where m = 8 and n = n and 'a = "32 word"] by (auto simp: mask_eq_exp_minus_1)
  then show "bit (from_le_bytes [a, b, c, d] AND 0xff) n = bit (ucast a :: u32) n"
    using \<open>n < LENGTH(32)\<close> by (auto simp: bit_simps bit_u8_ge)
qed

declare from_le_bytes.simps(1) [simp del]

lemma from_le_bytes_inject:
  "from_le_bytes [a, b, c, d] = from_le_bytes [a', b', c', d']
     \<longleftrightarrow> a = a' \<and> b = b' \<and> c = c' \<and> d = d'"
  using le_bytes_octets [of a b c d] le_bytes_octets [of a' b' c' d'] by (metis list.inject)

lemma network_constants:
  "to_be 1 = from_le_bytes [0, 0, 0, 1]" "to_be 0x0000ffff = from_le_bytes [0, 0, 0xff, 0xff]"
  "0 = from_le_bytes [0, 0, 0, 0]"
  unfolding to_be_1 to_be_ffff by (simp_all add: from_le_bytes.simps(1))

lemma octet_127: "(ucast (a :: u8) :: u32) = 127 \<longleftrightarrow> a = 127"
proof
  assume "(ucast a :: u32) = 127"
  then have "(ucast (ucast a :: u32) :: u8) = ucast (127 :: u32)" by (rule arg_cong)
  moreover have "(ucast (ucast a :: u32) :: u8) = a"
    by (rule bit_word_eqI) (simp add: bit_simps)
  ultimately show "a = 127" by simp
qed simp

end
