(* ===== verification/Kernel.thy ===== *)
theory Kernel
  imports Abi "HOL-Library.Sublist"
begin

text \<open>
  The eBPF collector (\<open>procflow-ebpf/src/main.rs\<close>): six hooks that classify a socket, note the
  process on first sight and add payload bytes to the per-CPU \<open>TRAFFIC\<close> map. The maps are the
  state. What the kernel decides is input: the current task, the CPU a hook runs on, whether a
  memory probe succeeds, and whether a map with a size limit accepts a new entry.
\<close>

section \<open>Sockets and their scope\<close>

text \<open>
  The fields of \<open>struct sock\<close> the program reads, each as the result of
  \<open>bpf_probe_read_kernel\<close>: \<open>Inl\<close> an error code, \<open>Inr\<close> the field as loaded on a little-endian
  machine (addresses are in network order).
\<close>

record sock =
  skc_family :: "int + u16"
  skc_daddr :: "int + u32"
  skc_rcv_saddr :: "int + u32"
  skc_v6_daddr :: "int + (u32 \<times> u32 \<times> u32 \<times> u32)"

definition AF_INET :: u16 where "AF_INET = 2"
definition AF_INET6 :: u16 where "AF_INET6 = 10"

definition scope_of :: "sock \<Rightarrow> int + u8" where
  "scope_of sk =
     (case skc_family sk of
        Inl e \<Rightarrow> Inl e
      | Inr family \<Rightarrow>
          if family = AF_INET then
            (case skc_daddr sk of
               Inl e \<Rightarrow> Inl e
             | Inr daddr \<Rightarrow>
                 (case skc_rcv_saddr sk of
                    Inl e \<Rightarrow> Inl e
                  | Inr saddr \<Rightarrow>
                      if daddr AND 0xff = 127 \<or> (daddr \<noteq> 0 \<and> daddr = saddr)
                      then Inr SCOPE_LOOPBACK else Inr SCOPE_EXTERNAL))
          else if family = AF_INET6 then
            (case skc_v6_daddr sk of
               Inl e \<Rightarrow> Inl e
             | Inr (a0, a1, a2, a3) \<Rightarrow>
                 let v6_loopback = (a0 = 0 \<and> a1 = 0 \<and> a2 = 0 \<and> a3 = to_be 1);
                     v4_mapped_loopback =
                       (a0 = 0 \<and> a1 = 0 \<and> a2 = to_be 0x0000ffff \<and> a3 AND 0xff = 127)
                 in if v6_loopback \<or> v4_mapped_loopback
                    then Inr SCOPE_LOOPBACK else Inr SCOPE_EXTERNAL)
          else Inr SCOPE_EXTERNAL)"


section \<open>The maps and the hooks\<close>

text \<open>
  \<open>TRAFFIC\<close> holds one counter per CPU under each key, \<open>PID_META\<close> the first capture of a
  process, \<open>NEW_PIDS\<close> the items of the ring buffer, oldest first.
\<close>

record bpf_maps =
  TRAFFIC :: "(traffic_key \<times> u64 list) list"
  PID_META :: "(u32 \<times> pid_meta) list"
  NEW_PIDS :: "u8 list list"

definition empty_maps :: bpf_maps where
  "empty_maps = \<lparr>TRAFFIC = [], PID_META = [], NEW_PIDS = []\<rparr>"

text \<open>The current task and what the kernel answers while the hook runs.\<close>

record task =
  pid_tgid :: u64
  uid_gid :: u64
  cgroup_id :: u64
  task_comm :: "int + u8 list"
  cpu :: nat
  n_cpus :: nat
  traffic_insert_ok :: bool
  meta_insert_ok :: bool
  ring_ok :: bool

definition note_pid :: "task \<Rightarrow> u32 \<Rightarrow> bpf_maps \<Rightarrow> bpf_maps" where
  "note_pid env tgid m =
     (case map_of (PID_META m) tgid of
        Some _ \<Rightarrow> m
      | None \<Rightarrow>
          let meta = \<lparr>pm_cgroup_id = cgroup_id env,
                      pm_uid = ucast (uid_gid env AND 0xffffffff),
                      pm_comm = (case task_comm env of Inr c \<Rightarrow> c | Inl _ \<Rightarrow> replicate 16 0),
                      pm_pad = replicate 4 0\<rparr>
          in if meta_insert_ok env then
               let m' = m\<lparr>PID_META := PID_META m @ [(tgid, meta)]\<rparr>
               in if ring_ok env
                  then m'\<lparr>NEW_PIDS := NEW_PIDS m' @ [to_le_bytes tgid]\<rparr> else m'
             else m)"

text \<open>
  A new key of a per-CPU map starts at zero on every CPU but the current one; an existing
  counter is added to in place, wrapping.
\<close>

definition record_bytes :: "task \<Rightarrow> sock \<Rightarrow> u8 \<Rightarrow> u64 \<Rightarrow> bpf_maps \<Rightarrow> (int + unit) \<times> bpf_maps" where
  "record_bytes env sk dir bytes m =
     (let tgid = ucast (drop_bit 32 (pid_tgid env));
          m1 = note_pid env tgid m
      in case scope_of sk of
           Inl e \<Rightarrow> (Inl e, m1)
         | Inr scope \<Rightarrow>
             let key = TrafficKey_new tgid dir scope
             in case map_of (TRAFFIC m1) key of
                  Some cs \<Rightarrow>
                    (Inr (), m1\<lparr>TRAFFIC := AList.update key
                       (cs[cpu env := cs ! cpu env + bytes]) (TRAFFIC m1)\<rparr>)
                | None \<Rightarrow>
                    if traffic_insert_ok env then
                      (Inr (), m1\<lparr>TRAFFIC := TRAFFIC m1 @
                         [(key, (replicate (n_cpus env) 0)[cpu env := bytes])]\<rparr>)
                    else (Inr (), m1))"

text \<open>A traced call: its socket, its argument slots as the trampoline stores them, its task.\<close>

record call =
  c_sk :: sock
  c_arg :: "nat \<Rightarrow> u64"
  c_env :: task

definition sendmsg_exit :: "call \<Rightarrow> nat \<Rightarrow> bpf_maps \<Rightarrow> (int + unit) \<times> bpf_maps" where
  "sendmsg_exit ctx ret_index m =
     (let ret = c_arg ctx ret_index
      in if 0 < sint ret then record_bytes (c_env ctx) (c_sk ctx) DIR_EGRESS ret m
         else (Inr (), m))"

definition recvmsg_exit :: "call \<Rightarrow> nat \<Rightarrow> bpf_maps \<Rightarrow> (int + unit) \<times> bpf_maps" where
  "recvmsg_exit ctx ret_index m =
     (let ret = c_arg ctx ret_index
      in if 0 < sint ret then record_bytes (c_env ctx) (c_sk ctx) DIR_INGRESS ret m
         else (Inr (), m))"

definition tcp_sendmsg :: "call \<Rightarrow> bpf_maps \<Rightarrow> bpf_maps" where
  "tcp_sendmsg ctx m = snd (sendmsg_exit ctx 3 m)"

definition tcp_cleanup_rbuf :: "call \<Rightarrow> bpf_maps \<Rightarrow> bpf_maps" where
  "tcp_cleanup_rbuf ctx m =
     (let copied = (ucast (c_arg ctx 1) :: u32)
      in if 0 < sint copied
         then snd (record_bytes (c_env ctx) (c_sk ctx) DIR_INGRESS (scast copied) m) else m)"

definition udp_sendmsg :: "call \<Rightarrow> bpf_maps \<Rightarrow> bpf_maps" where
  "udp_sendmsg ctx m = snd (sendmsg_exit ctx 3 m)"

definition udpv6_sendmsg :: "call \<Rightarrow> bpf_maps \<Rightarrow> bpf_maps" where
  "udpv6_sendmsg ctx m = snd (sendmsg_exit ctx 3 m)"

definition udp_recvmsg :: "call \<Rightarrow> bpf_maps \<Rightarrow> bpf_maps" where
  "udp_recvmsg ctx m = snd (recvmsg_exit ctx 5 m)"

definition udpv6_recvmsg :: "call \<Rightarrow> bpf_maps \<Rightarrow> bpf_maps" where
  "udpv6_recvmsg ctx m = snd (recvmsg_exit ctx 5 m)"

text \<open>A trace of the kernel: which hook fired on which call.\<close>

datatype hook =
  Tcp_sendmsg | Tcp_cleanup_rbuf | Udp_sendmsg | Udpv6_sendmsg | Udp_recvmsg | Udpv6_recvmsg

fun fire :: "hook \<times> call \<Rightarrow> bpf_maps \<Rightarrow> bpf_maps" where
  "fire (Tcp_sendmsg, c) m = tcp_sendmsg c m"
| "fire (Tcp_cleanup_rbuf, c) m = tcp_cleanup_rbuf c m"
| "fire (Udp_sendmsg, c) m = udp_sendmsg c m"
| "fire (Udpv6_sendmsg, c) m = udpv6_sendmsg c m"
| "fire (Udp_recvmsg, c) m = udp_recvmsg c m"
| "fire (Udpv6_recvmsg, c) m = udpv6_recvmsg c m"

definition trace :: "(hook \<times> call) list \<Rightarrow> bpf_maps \<Rightarrow> bpf_maps" where
  "trace es m = fold fire es m"


section \<open>What a call is worth\<close>

text \<open>
  The reference the hooks are compared with (ADR-0006): the payload of a call is the C \<open>int\<close> it returned
  (or was passed as \<open>copied\<close>), when positive, and it belongs to the key made of the current task, the
  hook's direction and the socket's scope. A call whose socket cannot be read belongs to no key.
\<close>

definition tgid_of :: "call \<Rightarrow> u32" where
  "tgid_of c = ucast (drop_bit 32 (pid_tgid (c_env c)))"

fun slot_of :: "hook \<Rightarrow> nat" where
  "slot_of Tcp_cleanup_rbuf = 1"
| "slot_of Udp_recvmsg = 5"
| "slot_of Udpv6_recvmsg = 5"
| "slot_of _ = 3"

fun direction_of :: "hook \<Rightarrow> u8" where
  "direction_of Tcp_cleanup_rbuf = DIR_INGRESS"
| "direction_of Udp_recvmsg = DIR_INGRESS"
| "direction_of Udpv6_recvmsg = DIR_INGRESS"
| "direction_of _ = DIR_EGRESS"

text \<open>The \<open>int\<close> is the lower half of its 64-bit slot; what the upper half holds is up to the trampoline.\<close>

definition c_int :: "hook \<times> call \<Rightarrow> u32" where
  "c_int e = ucast (c_arg (snd e) (slot_of (fst e)))"

definition payload :: "hook \<times> call \<Rightarrow> (u8 \<times> u64) option" where
  "payload e = (if 0 < sint (c_int e) then Some (direction_of (fst e), scast (c_int e)) else None)"

text \<open>
  The fexit hooks read the whole slot as an \<open>i64\<close> instead. That is the returned \<open>int\<close> when the slot holds
  its sign extension, and not when a negative \<open>int\<close> was stored with zeros above it.
\<close>

definition slot_payload :: "hook \<times> call \<Rightarrow> (u8 \<times> u64) option" where
  "slot_payload e =
     (if fst e = Tcp_cleanup_rbuf then payload e
      else let v = c_arg (snd e) (slot_of (fst e)) in if 0 < sint v then Some (direction_of (fst e), v) else None)"

definition sign_extended :: "hook \<times> call \<Rightarrow> bool" where
  "sign_extended e \<longleftrightarrow> fst e = Tcp_cleanup_rbuf \<or> c_arg (snd e) (slot_of (fst e)) = scast (c_int e)"

type_synonym worth = "hook \<times> call \<Rightarrow> (u8 \<times> u64) option"

definition attributed :: "worth \<Rightarrow> hook \<times> call \<Rightarrow> (traffic_key \<times> u64) list" where
  "attributed w e =
     (case w e of
        None \<Rightarrow> []
      | Some (dir, n) \<Rightarrow>
          (case scope_of (c_sk (snd e)) of
             Inl _ \<Rightarrow> []
           | Inr s \<Rightarrow> [(TrafficKey_new (tgid_of (snd e)) dir s, n)]))"

definition attributions :: "worth \<Rightarrow> (hook \<times> call) list \<Rightarrow> (traffic_key \<times> u64) list" where
  "attributions w es = concat (map (attributed w) es)"

text \<open>The attributions a full map accepts: those to a key it has, or can take.\<close>

definition accepted :: "worth \<Rightarrow> bpf_maps \<Rightarrow> hook \<times> call \<Rightarrow> (traffic_key \<times> u64) list" where
  "accepted w m e =
     filter (\<lambda>(k, n). k \<in> fst ` set (TRAFFIC m) \<or> traffic_insert_ok (c_env (snd e))) (attributed w e)"

fun credits :: "worth \<Rightarrow> bpf_maps \<Rightarrow> (hook \<times> call) list \<Rightarrow> (traffic_key \<times> u64) list" where
  "credits w m [] = []"
| "credits w m (e # es) = accepted w m e @ credits w (fire e m) es"

lemma sint_widen [simp]: "sint (scast (x :: u32) :: u64) = sint x"
  by transfer (simp add: signed_take_bit_signed_take_bit)

lemma slot_payload_extended: "sign_extended e \<Longrightarrow> slot_payload e = payload e"
  by (auto simp: sign_extended_def slot_payload_def payload_def Let_def)

lemma accepted_extended: "sign_extended e \<Longrightarrow> accepted slot_payload m e = accepted payload m e"
  by (simp add: accepted_def attributed_def slot_payload_extended)

lemma credits_extended:
  "\<forall>e \<in> set es. sign_extended e \<Longrightarrow> credits slot_payload m es = credits payload m es"
  by (induction es arbitrary: m) (simp_all add: accepted_extended)

text \<open>What the daemon reads under a key: the sum over the CPUs.\<close>

definition traffic_value :: "bpf_maps \<Rightarrow> traffic_key \<Rightarrow> u64" where
  "traffic_value m k = (case map_of (TRAFFIC m) k of None \<Rightarrow> 0 | Some cs \<Rightarrow> sum_list cs)"

definition maps_ok :: "nat \<Rightarrow> bpf_maps \<Rightarrow> bool" where
  "maps_ok n m \<longleftrightarrow>
     distinct (map fst (TRAFFIC m)) \<and> list_all (\<lambda>(k, cs). length cs = n) (TRAFFIC m)"

definition meta_ok :: "bpf_maps \<Rightarrow> bool" where
  "meta_ok m \<longleftrightarrow>
     distinct (map fst (PID_META m)) \<and>
     subseq (NEW_PIDS m) (map (\<lambda>(t, _). to_le_bytes t) (PID_META m))"

definition on_cpus :: "nat \<Rightarrow> hook \<times> call \<Rightarrow> bool" where
  "on_cpus n e \<longleftrightarrow> n_cpus (c_env (snd e)) = n \<and> cpu (c_env (snd e)) < n"

lemma fire_record:
  "fire e m = (case slot_payload e of None \<Rightarrow> m
     | Some (dir, n) \<Rightarrow> snd (record_bytes (c_env (snd e)) (c_sk (snd e)) dir n m))"
  by (cases e; cases "fst e")
    (auto simp: slot_payload_def payload_def c_int_def tcp_sendmsg_def tcp_cleanup_rbuf_def udp_sendmsg_def udpv6_sendmsg_def
      udp_recvmsg_def udpv6_recvmsg_def sendmsg_exit_def recvmsg_exit_def Let_def)

lemma note_pid_traffic [simp]: "TRAFFIC (note_pid env t m) = TRAFFIC m"
  by (simp add: note_pid_def Let_def split: option.split)

lemma record_bytes_meta [simp]:
  "PID_META (snd (record_bytes env sk dir n m)) = PID_META (note_pid env (ucast (drop_bit 32 (pid_tgid env))) m)"
  "NEW_PIDS (snd (record_bytes env sk dir n m)) = NEW_PIDS (note_pid env (ucast (drop_bit 32 (pid_tgid env))) m)"
  by (simp_all add: record_bytes_def Let_def split: sum.split option.split)

text \<open>One call changes the counters by its accepted attributions and nothing else.\<close>

definition bump_cpu :: "nat \<Rightarrow> nat \<Rightarrow> traffic_key \<Rightarrow> u64 \<Rightarrow> (traffic_key \<times> u64 list) list
    \<Rightarrow> (traffic_key \<times> u64 list) list" where
  "bump_cpu i n k b t = (case map_of t k of
      Some cs \<Rightarrow> AList.update k (cs[i := cs ! i + b]) t
    | None \<Rightarrow> t @ [(k, (replicate n 0)[i := b])])"

lemma fire_traffic:
  "TRAFFIC (fire e m) =
     fold (\<lambda>(k, b). bump_cpu (cpu (c_env (snd e))) (n_cpus (c_env (snd e))) k b)
       (accepted slot_payload m e) (TRAFFIC m)"
  by (auto simp: fire_record accepted_def attributed_def record_bytes_def Let_def bump_cpu_def
      tgid_of_def map_of_eq_None_iff rev_image_eqI domI dom_map_of_conv_image_fst [symmetric]
      split: option.splits sum.splits)

lemma attributed_short: "attributed w e = [] \<or> (\<exists>k b. attributed w e = [(k, b)])"
  by (auto simp: attributed_def split: option.split sum.split)

lemma accepted_short: "accepted w m e = [] \<or> (\<exists>k b. accepted w m e = [(k, b)])"
  using attributed_short [of w e] unfolding accepted_def by (elim disjE exE) simp_all

lemma sum_list_bump_at:
  "i < length cs \<Longrightarrow> sum_list (cs[i := cs ! i + b]) = sum_list cs + (b :: u64)"
  by (induction cs arbitrary: i) (auto simp: nth_Cons split: nat.split)

lemma bump_cpu_value:
  assumes "distinct (map fst t)" "list_all (\<lambda>(k, cs). length cs = n) t" "i < n"
  shows "(case map_of (bump_cpu i n k b t) k' of None \<Rightarrow> 0 | Some cs \<Rightarrow> sum_list cs)
    = (case map_of t k' of None \<Rightarrow> 0 | Some cs \<Rightarrow> sum_list cs) + (if k = k' then b else 0)"
proof (cases "map_of t k")
  case None
  have "sum_list (replicate m 0) = (0 :: u64)" for m
    by (induction m) simp_all
  then have "sum_list ((replicate n 0)[i := b]) = b"
    using sum_list_bump_at [of i "replicate n 0" b] \<open>i < n\<close> by simp
  with None show ?thesis
    by (auto simp: bump_cpu_def map_add_def split: option.splits)
next
  case (Some cs)
  then have "length cs = n"
    using assms(2) map_of_SomeD [OF Some] by (auto simp: list_all_iff)
  then show ?thesis
    using Some assms(3) by (auto simp: bump_cpu_def update_conv' sum_list_bump_at split: option.splits)
qed

lemma bump_cpu_ok:
  assumes "distinct (map fst t)" "list_all (\<lambda>(k, cs). length cs = n) t"
  shows "distinct (map fst (bump_cpu i n k b t))"
    "list_all (\<lambda>(k, cs). length cs = n) (bump_cpu i n k b t)"
proof -
  show "distinct (map fst (bump_cpu i n k b t))"
    using assms(1) by (auto simp: bump_cpu_def map_of_eq_None_iff distinct_update split: option.split)
  have upd: "list_all (\<lambda>(k, cs). length cs = n) (AList.update k v t)" if "length v = n" for v
    using assms(2) that by (induction t) auto
  show "list_all (\<lambda>(k, cs). length cs = n) (bump_cpu i n k b t)"
    using assms(2) by (auto simp: bump_cpu_def list_all_iff [of _ t] split: option.split
        intro!: upd dest!: map_of_SomeD)
qed

lemma note_pid_meta:
  "\<exists>new. PID_META (note_pid env t m) = PID_META m @ new \<and>
     (NEW_PIDS (note_pid env t m) = NEW_PIDS m
        \<or> NEW_PIDS (note_pid env t m) = NEW_PIDS m @ map (\<lambda>(t, _). to_le_bytes t) new) \<and>
     (new = [] \<or> (t \<notin> fst ` set (PID_META m) \<and> map fst new = [t]))"
  by (auto simp: note_pid_def Let_def map_of_eq_None_iff split: option.split)

lemma fire_meta:
  "\<exists>new. PID_META (fire e m) = PID_META m @ new \<and>
     (NEW_PIDS (fire e m) = NEW_PIDS m
        \<or> NEW_PIDS (fire e m) = NEW_PIDS m @ map (\<lambda>(t, _). to_le_bytes t) new) \<and>
     (new = [] \<or> (\<exists>t. t \<notin> fst ` set (PID_META m) \<and> map fst new = [t]))"
  unfolding fire_record using note_pid_meta
  by (fastforce split: option.split)

lemma maps_ok_fire [wf_intro]:
  "maps_ok n m \<Longrightarrow> on_cpus n e \<Longrightarrow> maps_ok n (fire e m)"
  using accepted_short [of slot_payload m e]
  by (auto simp: fire_traffic maps_ok_def on_cpus_def bump_cpu_ok)

lemma meta_ok_fire [wf_intro]:
  assumes "meta_ok m" shows "meta_ok (fire e m)"
proof -
  obtain new where pm: "PID_META (fire e m) = PID_META m @ new"
      and np: "NEW_PIDS (fire e m) = NEW_PIDS m
        \<or> NEW_PIDS (fire e m) = NEW_PIDS m @ map (\<lambda>(t, _). to_le_bytes t) new"
      and new: "new = [] \<or> (\<exists>t. t \<notin> fst ` set (PID_META m) \<and> map fst new = [t])"
    using fire_meta [of e m] by (elim exE conjE) (rule that)
  have sub: "subseq (NEW_PIDS m) (map (\<lambda>(t, _). to_le_bytes t) (PID_META m))"
    and dist: "distinct (map fst (PID_META m))"
    using assms by (simp_all add: meta_ok_def)
  have "subseq (NEW_PIDS (fire e m)) (map (\<lambda>(t, _). to_le_bytes t) (PID_META (fire e m)))"
    using np by (elim disjE) (simp_all add: pm sub subseq_rev_drop_many)
  moreover have "distinct (map fst (PID_META (fire e m)))"
    using new dist by (elim disjE exE) (simp_all add: pm)
  ultimately show ?thesis
    by (simp add: meta_ok_def)
qed

lemma meta_ok_trace [wf_intro]: "meta_ok m \<Longrightarrow> meta_ok (trace es m)"
  unfolding trace_def by (induction es arbitrary: m) (auto intro: meta_ok_fire)

lemma meta_prefix_trace: "prefix (PID_META m) (PID_META (trace es m))"
proof (unfold trace_def, induction es arbitrary: m)
  case (Cons e es)
  have "prefix (PID_META m) (PID_META (fire e m))"
    using fire_meta [of e m] by (auto simp: prefix_def)
  also have "prefix (PID_META (fire e m)) (PID_META (fold fire es (fire e m)))"
    by (rule Cons.IH)
  finally show ?case by simp
qed simp

text \<open>A counter's process has been noted, as long as \<open>PID_META\<close> had room for it.\<close>

definition noted :: "bpf_maps \<Rightarrow> bool" where
  "noted m \<longleftrightarrow> tk_tgid ` fst ` set (TRAFFIC m) \<subseteq> fst ` set (PID_META m)"

lemma note_pid_notes: "meta_insert_ok env \<Longrightarrow> t \<in> fst ` set (PID_META (note_pid env t m))"
  by (auto simp: note_pid_def Let_def split: option.split dest!: map_of_SomeD
      intro: rev_image_eqI)

lemma bump_cpu_keys: "fst ` set (bump_cpu i n k b t) = insert k (fst ` set t)"
  by (auto simp: bump_cpu_def dom_update split: option.split dest: map_of_SomeD
      intro: rev_image_eqI)

lemma noted_fire [wf_intro]:
  assumes "noted m" "meta_insert_ok (c_env (snd e))" shows "noted (fire e m)"
proof -
  have keep: "fst ` set (PID_META m) \<subseteq> fst ` set (PID_META (fire e m))"
    using fire_meta [of e m] by auto
  have own: "tgid_of (snd e) \<in> fst ` set (PID_META (fire e m))" if "accepted slot_payload m e \<noteq> []"
    using that assms(2) note_pid_notes
    by (auto simp: accepted_def attributed_def fire_record tgid_of_def split: option.splits)
  have key: "tk_tgid k = tgid_of (snd e)" if "accepted slot_payload m e = [(k, b)]" for k b
  proof -
    have "(k, b) \<in> set (attributed slot_payload e)"
      using that unfolding accepted_def by (metis filter_is_subset list.set_intros(1) subsetD)
    then show ?thesis by (auto simp: attributed_def split: option.splits sum.splits)
  qed
  have "fst ` set (TRAFFIC (fire e m)) = fst ` set (accepted slot_payload m e) \<union> fst ` set (TRAFFIC m)"
    using accepted_short [of slot_payload m e] by (elim disjE exE) (simp_all add: fire_traffic bump_cpu_keys)
  moreover have "tk_tgid ` fst ` set (accepted slot_payload m e) \<subseteq> fst ` set (PID_META (fire e m))"
    using accepted_short [of slot_payload m e] own by (elim disjE exE) (simp_all add: key)
  ultimately show ?thesis
    using order_trans [OF assms(1) [unfolded noted_def] keep] unfolding noted_def
    by (simp only: image_Un Un_least)
qed

lemma noted_trace [wf_intro]:
  "noted m \<Longrightarrow> \<forall>e \<in> set es. meta_insert_ok (c_env (snd e)) \<Longrightarrow> noted (trace es m)"
  unfolding trace_def by (induction es arbitrary: m) (auto intro: noted_fire)

lemma maps_ok_trace [wf_intro]:
  "maps_ok n m \<Longrightarrow> \<forall>e \<in> set es. on_cpus n e \<Longrightarrow> maps_ok n (trace es m)"
  unfolding trace_def by (induction es arbitrary: m) (auto intro: maps_ok_fire)

lemma fire_value:
  assumes "maps_ok n m" "on_cpus n e"
  shows "traffic_value (fire e m) k = traffic_value m k + sum_at k (accepted slot_payload m e)"
proof -
  have "distinct (map fst (TRAFFIC m))" "list_all (\<lambda>(k, cs). length cs = n) (TRAFFIC m)"
    and "cpu (c_env (snd e)) < n" "n_cpus (c_env (snd e)) = n"
    using assms by (auto simp: maps_ok_def on_cpus_def)
  then show ?thesis
    using accepted_short [of slot_payload m e] bump_cpu_value [of "TRAFFIC m" n "cpu (c_env (snd e))"]
    by (auto simp: traffic_value_def fire_traffic)
qed

lemma trace_value [conserve]:
  "maps_ok n m \<Longrightarrow> \<forall>e \<in> set es. on_cpus n e \<Longrightarrow>
     traffic_value (trace es m) k = traffic_value m k + sum_at k (credits slot_payload m es)"
proof (induction es arbitrary: m)
  case (Cons e es)
  then have "traffic_value (trace es (fire e m)) k
      = traffic_value (fire e m) k + sum_at k (credits slot_payload (fire e m) es)"
    by (simp add: maps_ok_fire)
  with Cons.prems show ?case by (simp add: trace_def fire_value add.assoc)
qed (simp add: trace_def)

lemma credits_subseq: "subseq (credits w m es) (attributions w es)"
  by (induction es arbitrary: m)
    (auto simp: attributions_def accepted_def intro!: list_emb_append_mono)

lemma credits_all:
  "\<forall>e \<in> set es. traffic_insert_ok (c_env (snd e)) \<Longrightarrow> credits w m es = attributions w es"
  by (induction es arbitrary: m) (auto simp: attributions_def accepted_def case_prod_unfold)

lemma to_le_bytes_inject: "to_le_bytes a = to_le_bytes b \<longleftrightarrow> a = b"
  by (metis le_bytes_roundtrip)

lemma distinct_subseq: "subseq xs ys \<Longrightarrow> distinct ys \<Longrightarrow> distinct xs"
  by (auto simp: subseq_conv_nths distinct_nthsI)

lemma meta_ok_notified:
  assumes "meta_ok m" shows "distinct (NEW_PIDS m)" "set (NEW_PIDS m) \<subseteq> to_le_bytes ` fst ` set (PID_META m)"
proof -
  have eq: "(\<lambda>(t, _). to_le_bytes t) = to_le_bytes \<circ> (fst :: u32 \<times> pid_meta \<Rightarrow> u32)"
    by (simp add: fun_eq_iff)
  have sub: "subseq (NEW_PIDS m) (map to_le_bytes (map fst (PID_META m)))"
    and "distinct (map fst (PID_META m))"
    using assms by (simp_all add: meta_ok_def eq)
  then have "distinct (map to_le_bytes (map fst (PID_META m)))"
    by (simp add: distinct_map inj_on_def to_le_bytes_inject del: map_map)
  then show "distinct (NEW_PIDS m)" by (rule distinct_subseq [OF sub])
  show "set (NEW_PIDS m) \<subseteq> to_le_bytes ` fst ` set (PID_META m)"
  proof
    fix x assume "x \<in> set (NEW_PIDS m)"
    then have "x \<in> set (map to_le_bytes (map fst (PID_META m)))"
      using sub by (rule_tac list_emb_set [OF sub]) auto
    then show "x \<in> to_le_bytes ` fst ` set (PID_META m)" by (simp only: set_map)
  qed
qed




section \<open>Properties\<close>

text \<open>C7. Kernel accounting is exact: after any trace of hooks the counter of a key, summed over the
  CPUs, has grown by exactly the payload bytes (positive C \<open>int\<close>s, as ADR-0006 has it) of the calls that
  belong to the key and that the bounded map accepted; accepted calls are a subsequence of all calls that
  carry payload, and all of them when every insertion succeeds. The hypothesis on the slots is what the
  code relies on by reading the returned \<open>int\<close> as an \<open>i64\<close>; without it a failed call can be counted
  (\<open>zero_extended_error_counts\<close>).\<close>

theorem kernel_accounting:
  assumes "maps_ok n m" "\<forall>e \<in> set es. on_cpus n e" "\<forall>e \<in> set es. sign_extended e"
  shows "traffic_value (trace es m) k = traffic_value m k + sum_at k (credits payload m es)
    \<and> subseq (credits payload m es) (attributions payload es)
    \<and> ((\<forall>e \<in> set es. traffic_insert_ok (c_env (snd e))) \<longrightarrow> credits payload m es = attributions payload es)"
  using trace_value [OF assms(1,2)] credits_extended [OF assms(3)] credits_subseq credits_all by metis

definition demo_call :: "nat \<Rightarrow> u64 \<Rightarrow> u64 \<Rightarrow> call" where
  "demo_call i tgid n = \<lparr>
     c_sk = \<lparr>skc_family = Inr AF_INET, skc_daddr = Inr 0x0100007f, skc_rcv_saddr = Inr 0,
             skc_v6_daddr = Inl 0\<rparr>,
     c_arg = (\<lambda>_. n),
     c_env = \<lparr>pid_tgid = push_bit 32 tgid, uid_gid = 1000, cgroup_id = 7, task_comm = Inl 0,
              cpu = i, n_cpus = 2, traffic_insert_ok = True, meta_insert_ok = True,
              ring_ok = True\<rparr>\<rparr>"

text \<open>The second call fails with -11, sign-extended, and adds nothing.\<close>

lemma kernel_accounting_witness:
  "traffic_value (trace [(Tcp_sendmsg, demo_call 0 5 100), (Tcp_sendmsg, demo_call 1 5 (- 11)), (Udp_sendmsg, demo_call 1 5 11)]
     empty_maps) (TrafficKey_new 5 DIR_EGRESS SCOPE_LOOPBACK) = 111"
proof -
  let ?es = "[(Tcp_sendmsg, demo_call 0 5 100), (Tcp_sendmsg, demo_call 1 5 (- 11)), (Udp_sendmsg, demo_call 1 5 11)]"
  let ?k = "TrafficKey_new 5 DIR_EGRESS SCOPE_LOOPBACK"
  have "maps_ok 2 empty_maps" "\<forall>e \<in> set ?es. on_cpus 2 e" "\<forall>e \<in> set ?es. sign_extended e"
    by (simp_all add: maps_ok_def empty_maps_def on_cpus_def demo_call_def sign_extended_def c_int_def)
  note acc = kernel_accounting [OF this, of ?k]
  have "\<forall>e \<in> set ?es. traffic_insert_ok (c_env (snd e))"
    by (simp add: demo_call_def)
  then have "credits payload empty_maps ?es = attributions payload ?es" using acc by blast
  also have "\<dots> = [(?k, 100), (?k, 11)]"
    by (simp add: attributions_def attributed_def payload_def c_int_def demo_call_def tgid_of_def scope_of_def AF_INET_def
        abi_consts Let_def)
  finally have "sum_at ?k (credits payload empty_maps ?es) = 111" by simp
  moreover have "traffic_value empty_maps ?k = 0"
    by (simp add: traffic_value_def empty_maps_def)
  ultimately show ?thesis using acc by simp
qed

text \<open>
  A call that failed with -11 and whose slot has zeros above the \<open>int\<close> carries no payload and is counted
  with 4294967285 bytes.
\<close>

lemma zero_extended_error_counts:
  "payload (Tcp_sendmsg, demo_call 0 5 0xfffffff5) = None"
  "traffic_value (trace [(Tcp_sendmsg, demo_call 0 5 0xfffffff5)] empty_maps)
     (TrafficKey_new 5 DIR_EGRESS SCOPE_LOOPBACK) = 4294967285"
proof -
  let ?e = "(Tcp_sendmsg, demo_call 0 5 0xfffffff5)" and ?k = "TrafficKey_new 5 DIR_EGRESS SCOPE_LOOPBACK"
  show "payload ?e = None" by (simp add: payload_def c_int_def demo_call_def)
  have "credits slot_payload empty_maps [?e] = [(?k, 4294967285)]"
    by (simp add: accepted_def attributed_def slot_payload_def demo_call_def tgid_of_def scope_of_def AF_INET_def
        abi_consts Let_def)
  moreover have "maps_ok 2 empty_maps" "\<forall>e \<in> set [?e]. on_cpus 2 e"
    by (simp_all add: maps_ok_def empty_maps_def on_cpus_def demo_call_def)
  ultimately show "traffic_value (trace [?e] empty_maps) ?k = 4294967285"
    using trace_value [of 2 empty_maps "[?e]" ?k] by (simp add: traffic_value_def empty_maps_def)
qed

text \<open>C10. First sight: from empty maps, every later trace only extends \<open>PID_META\<close>, so the first
  capture of a process is never replaced; each process is notified at most once, and only if it has
  metadata; and while \<open>PID_META\<close> has room, every process with a counter has metadata.\<close>

theorem kernel_first_sight:
  "prefix (PID_META (trace es empty_maps)) (PID_META (trace (es @ later) empty_maps))
    \<and> distinct (map fst (PID_META (trace es empty_maps)))
    \<and> distinct (NEW_PIDS (trace es empty_maps))
    \<and> set (NEW_PIDS (trace es empty_maps)) \<subseteq> to_le_bytes ` fst ` set (PID_META (trace es empty_maps))
    \<and> ((\<forall>e \<in> set es. meta_insert_ok (c_env (snd e))) \<longrightarrow> noted (trace es empty_maps))"
proof -
  have ok: "meta_ok (trace es empty_maps)"
    by (rule meta_ok_trace) (simp add: meta_ok_def empty_maps_def)
  have "trace (es @ later) empty_maps = trace later (trace es empty_maps)"
    by (simp add: trace_def)
  moreover have "noted (trace es empty_maps)" if "\<forall>e \<in> set es. meta_insert_ok (c_env (snd e))"
    by (rule noted_trace [OF _ that]) (simp add: noted_def empty_maps_def)
  ultimately show ?thesis
    using ok meta_ok_notified [OF ok] meta_prefix_trace by (auto simp: meta_ok_def)
qed

lemma kernel_first_sight_witness:
  "noted (trace [(Tcp_sendmsg, demo_call 0 5 100)] empty_maps)
    \<and> distinct (NEW_PIDS (trace [(Tcp_sendmsg, demo_call 0 5 100)] empty_maps))"
  using kernel_first_sight [of "[(Tcp_sendmsg, demo_call 0 5 100)]" "[]"]
  by (simp add: demo_call_def)












end
