(* ===== verification/Rust_Str.thy ===== *)
theory Rust_Str
  imports Prelude
begin

text \<open>
  The string functions of Rust's standard library that the program uses, on byte strings: a Rust
  \<open>str\<close> is the list of its UTF-8 bytes, so \<open>len\<close>, \<open>find\<close>, byte slices and comparisons are
  the list's, and Unicode white space is recognised by its byte sequences. The lemmas are about
  splitting, joining, printing and parsing; the components' round trips rest on them.
\<close>

section \<open>Bytes\<close>

abbreviation byte :: "char \<Rightarrow> nat" where
  "byte c \<equiv> of_char c"

definition is_ascii :: "char \<Rightarrow> bool" where
  "is_ascii c \<longleftrightarrow> byte c < 128"

definition is_digit :: "char \<Rightarrow> bool" where
  "is_digit c \<longleftrightarrow> 48 \<le> byte c \<and> byte c \<le> 57"

definition is_ascii_hexdigit :: "char \<Rightarrow> bool" where
  "is_ascii_hexdigit c \<longleftrightarrow>
     is_digit c \<or> (65 \<le> byte c \<and> byte c \<le> 70) \<or> (97 \<le> byte c \<and> byte c \<le> 102)"

definition ascii_lower :: "char \<Rightarrow> char" where
  "ascii_lower c = (if 65 \<le> byte c \<and> byte c \<le> 90 then char_of (byte c + 32) else c)"

definition ascii_upper :: "char \<Rightarrow> char" where
  "ascii_upper c = (if 97 \<le> byte c \<and> byte c \<le> 122 then char_of (byte c - 32) else c)"

text \<open>\<open>chars().count()\<close>: the bytes that start a code point.\<close>

definition is_cont :: "char \<Rightarrow> bool" where
  "is_cont c \<longleftrightarrow> 128 \<le> byte c \<and> byte c < 192"

definition char_count :: "string \<Rightarrow> nat" where
  "char_count s = length (filter (\<lambda>c. \<not> is_cont c) s)"


section \<open>White space\<close>

text \<open>
  \<open>ws_len s\<close> is the number of bytes of the white-space character \<open>s\<close> starts with, zero if it
  starts with none. The characters are those of \<open>char::is_whitespace\<close>: U+0009 to U+000D, U+0020,
  U+0085, U+00A0, U+1680, U+2000 to U+200A, U+2028, U+2029, U+202F, U+205F and U+3000.
\<close>

fun ws_len :: "string \<Rightarrow> nat" where
  "ws_len [] = 0"
| "ws_len (c # cs) =
     (if (9 \<le> byte c \<and> byte c \<le> 13) \<or> byte c = 32 then 1
      else if byte c = 0xC2 then
        (case cs of d # _ \<Rightarrow> if byte d = 0x85 \<or> byte d = 0xA0 then 2 else 0 | _ \<Rightarrow> 0)
      else if byte c = 0xE1 then
        (case cs of d # e # _ \<Rightarrow> if byte d = 0x9A \<and> byte e = 0x80 then 3 else 0 | _ \<Rightarrow> 0)
      else if byte c = 0xE2 then
        (case cs of d # e # _ \<Rightarrow>
           if byte d = 0x80 \<and> ((0x80 \<le> byte e \<and> byte e \<le> 0x8A)
                               \<or> byte e = 0xA8 \<or> byte e = 0xA9 \<or> byte e = 0xAF)
              \<or> byte d = 0x81 \<and> byte e = 0x9F
           then 3 else 0
         | _ \<Rightarrow> 0)
      else if byte c = 0xE3 then
        (case cs of d # e # _ \<Rightarrow> if byte d = 0x80 \<and> byte e = 0x80 then 3 else 0 | _ \<Rightarrow> 0)
      else 0)"

text \<open>No suffix of the string starts with white space.\<close>

fun ws_free :: "string \<Rightarrow> bool" where
  "ws_free [] = True"
| "ws_free (c # cs) = (ws_len (c # cs) = 0 \<and> ws_free cs)"

text \<open>Cutting the string off can lose a match but not make one.\<close>

lemma ws_len_truncate: "ws_len (s @ t) = 0 \<Longrightarrow> ws_len s = 0"
  by (cases s rule: ws_len.cases)
    (auto split: if_splits list.splits simp: append_eq_Cons_conv Cons_eq_append_conv)

lemma ws_len_ascii: "is_ascii c \<Longrightarrow> s \<noteq> [] \<Longrightarrow> ws_len (s @ c # t) = ws_len s"
  by (cases s rule: ws_len.cases)
    (auto split: if_splits list.splits simp: is_ascii_def append_eq_Cons_conv)

declare ws_len.simps(2) [simp del]

lemma ws_len_space [simp]: "ws_len (CHR '' '' # s) = 1"
  by (simp add: ws_len.simps)

lemma ws_free_append_ascii:
  "is_ascii c \<Longrightarrow> ws_free s \<Longrightarrow> ws_free (c # t) \<Longrightarrow> ws_free (s @ c # t)"
proof (induction s)
  case (Cons a s)
  have "ws_len ((a # s) @ c # t) = ws_len (a # s)" by (rule ws_len_ascii) (use Cons in auto)
  then show ?case using Cons by simp
qed simp

lemma ws_free_append1: "ws_free (s @ t) \<Longrightarrow> ws_free s"
proof (induction s)
  case (Cons a s)
  then show ?case using ws_len_truncate [of "a # s" t] by simp
qed simp

lemma ws_free_takeWhile: "ws_free s \<Longrightarrow> ws_free (takeWhile P s)"
  by (metis takeWhile_dropWhile_id ws_free_append1)


section \<open>Splitting on white space and joining\<close>

function split_ws :: "string \<Rightarrow> string \<Rightarrow> string list" where
  "split_ws cur [] = (if cur = [] then [] else [cur])"
| "split_ws cur (c # cs) =
     (let n = ws_len (c # cs)
      in if n = 0 then split_ws (cur @ [c]) cs
         else (if cur = [] then [] else [cur]) @ split_ws [] (drop n (c # cs)))"
  by pat_completeness auto
termination
  by (relation "measure (\<lambda>(cur, s). length s)") auto

declare split_ws.simps [simp del]

lemma split_ws_Nil: "split_ws cur [] = (if cur = [] then [] else [cur])"
  by (simp add: split_ws.simps)

definition split_whitespace :: "string \<Rightarrow> string list" where
  "split_whitespace s = split_ws [] s"

fun join :: "string \<Rightarrow> string list \<Rightarrow> string" where
  "join sep [] = []"
| "join sep [t] = t"
| "join sep (t # u # ts) = t @ sep @ join sep (u # ts)"

definition token :: "string \<Rightarrow> bool" where
  "token t \<longleftrightarrow> t \<noteq> [] \<and> ws_free t"

lemma split_ws_append:
  "(\<And>u v. t = u @ v \<Longrightarrow> v \<noteq> [] \<Longrightarrow> ws_len (v @ rest) = 0) \<Longrightarrow>
   split_ws cur (t @ rest) = split_ws (cur @ t) rest"
proof (induction t arbitrary: cur)
  case (Cons c t)
  have "ws_len ((c # t) @ rest) = 0" using Cons.prems [of "[]"] by simp
  then have "split_ws cur ((c # t) @ rest) = split_ws (cur @ [c]) (t @ rest)"
    by (simp add: split_ws.simps)
  also have "\<dots> = split_ws ((cur @ [c]) @ t) rest"
    by (rule Cons.IH) (rule Cons.prems [of "c # _"], simp_all)
  finally show ?case by simp
qed simp

lemma ws_free_suffix: "ws_free (u @ v) \<Longrightarrow> v \<noteq> [] \<Longrightarrow> ws_len v = 0"
  by (induction u) (cases v; simp)+

lemma split_whitespace_join:
  "list_all token ts \<Longrightarrow> split_whitespace (join '' '' ts) = ts"
proof (induction "'' ''" ts rule: join.induct)
  case (2 t)
  then have "split_ws [] (t @ []) = split_ws ([] @ t) []"
    by (intro split_ws_append) (auto simp: token_def intro: ws_free_suffix)
  with 2 show ?case by (simp add: split_whitespace_def split_ws_Nil token_def)
next
  case (3 t u ts)
  let ?r = "join '' '' (u # ts)"
  have "split_ws [] (t @ CHR '' '' # ?r) = split_ws ([] @ t) (CHR '' '' # ?r)"
    using "3.prems"
    by (intro split_ws_append) (auto simp: token_def is_ascii_def ws_len_ascii intro: ws_free_suffix)
  also have "\<dots> = t # split_ws [] ?r"
    using "3.prems" by (simp add: split_ws.simps token_def)
  finally show ?case
    using 3 by (simp add: split_whitespace_def)
qed (simp add: split_whitespace_def split_ws_Nil)

text \<open>Every token of a split is non-empty and holds no white space.\<close>

lemma ws_free_if_suffixes:
  "(\<And>u v. cur = u @ v \<Longrightarrow> v \<noteq> [] \<Longrightarrow> ws_len (v @ s) = 0) \<Longrightarrow> ws_free cur"
proof (induction cur)
  case (Cons a cur)
  have "ws_len ((a # cur) @ s) = 0" by (rule Cons.prems [of "[]"]) simp_all
  moreover have "ws_free cur"
    by (rule Cons.IH) (rule Cons.prems [of "a # _"], simp_all)
  ultimately show ?case using ws_len_truncate [of "a # cur" s] by simp
qed simp

lemma split_ws_tokens:
  "(\<And>u v. cur = u @ v \<Longrightarrow> v \<noteq> [] \<Longrightarrow> ws_len (v @ s) = 0) \<Longrightarrow> list_all token (split_ws cur s)"
proof (induction cur s rule: split_ws.induct)
  case (1 cur)
  have "ws_free cur" by (rule ws_free_if_suffixes) (rule 1)
  then show ?case by (simp add: split_ws.simps token_def)
next
  case (2 cur c cs)
  show ?case
  proof (cases "ws_len (c # cs) = 0")
    case True
    have "list_all token (split_ws (cur @ [c]) cs)"
    proof (rule "2.IH"(1) [OF refl True])
      fix u v assume uv: "cur @ [c] = u @ v" and "v \<noteq> []"
      then obtain w where v: "v = w @ [c]" and w: "cur = u @ w"
        by (metis append_butlast_last_id butlast_append last_appendR last_snoc butlast_snoc)
      show "ws_len (v @ cs) = 0"
        using "2.prems" [OF w] True by (cases "w = []") (simp_all add: v)
    qed
    then show ?thesis using True by (simp add: split_ws.simps)
  next
    case False
    have "ws_free cur" by (rule ws_free_if_suffixes) (rule "2.prems")
    moreover have "list_all token (split_ws [] (drop (ws_len (c # cs)) (c # cs)))"
      by (rule "2.IH"(2) [OF refl False]) simp
    moreover have "cur = [] \<or> token cur" using \<open>ws_free cur\<close> by (simp add: token_def)
    ultimately show ?thesis using False by (auto simp: split_ws.simps Let_def)
  qed
qed

lemma split_whitespace_tokens: "list_all token (split_whitespace s)"
  unfolding split_whitespace_def by (rule split_ws_tokens) simp


section \<open>Trimming, prefixes, separators and lines\<close>

function trim_start :: "string \<Rightarrow> string" where
  "trim_start s = (if ws_len s = 0 then s else trim_start (drop (ws_len s) s))"
  by pat_completeness auto

lemma ws_len_pos_Cons: "0 < ws_len s \<Longrightarrow> 0 < length s"
  by (cases s) simp_all

termination trim_start
  by (relation "measure length") (use ws_len_pos_Cons in \<open>auto intro!: diff_less\<close>)

declare trim_start.simps [simp del]

text \<open>The length of the white-space character a string ends with, zero if there is none.\<close>

definition ws_end :: "string \<Rightarrow> nat" where
  "ws_end s =
     (let n = length s
      in if n \<ge> 1 \<and> ws_len (drop (n - 1) s) = 1 then 1
         else if n \<ge> 2 \<and> ws_len (drop (n - 2) s) = 2 then 2
         else if n \<ge> 3 \<and> ws_len (drop (n - 3) s) = 3 then 3
         else 0)"

function trim_end :: "string \<Rightarrow> string" where
  "trim_end s = (if ws_end s = 0 then s else trim_end (take (length s - ws_end s) s))"
  by pat_completeness auto
termination
  by (relation "measure length") (auto simp: ws_end_def Let_def split: if_splits)

declare trim_end.simps [simp del]

definition trim :: "string \<Rightarrow> string" where
  "trim s = trim_end (trim_start s)"

definition starts_with :: "string \<Rightarrow> string \<Rightarrow> bool" where
  "starts_with p s \<longleftrightarrow> take (length p) s = p"

definition strip_prefix :: "string \<Rightarrow> string \<Rightarrow> string option" where
  "strip_prefix p s = (if starts_with p s then Some (drop (length p) s) else None)"

definition strip_suffix :: "string \<Rightarrow> string \<Rightarrow> string option" where
  "strip_suffix p s =
     (if length p \<le> length s \<and> drop (length s - length p) s = p
      then Some (take (length s - length p) s) else None)"

lemma strip_suffix_Some: "strip_suffix p s = Some t \<longleftrightarrow> s = t @ p"
  by (auto simp: strip_suffix_def) (metis append_take_drop_id)

lemma strip_prefix_Some: "strip_prefix p s = Some t \<longleftrightarrow> s = p @ t"
  by (auto simp: strip_prefix_def starts_with_def) (metis append_take_drop_id)

text \<open>\<open>trim_end_matches\<close> with a string pattern removes every copy of it at the end.\<close>

function trim_end_matches :: "string \<Rightarrow> string \<Rightarrow> string" where
  "trim_end_matches p s =
     (if p = [] then s
      else case strip_suffix p s of None \<Rightarrow> s | Some t \<Rightarrow> trim_end_matches p t)"
  by pat_completeness auto
termination
  by (relation "measure (\<lambda>(p, s). length s)") (auto simp: strip_suffix_Some)

declare trim_end_matches.simps [simp del]

lemma trim_end_matches_no_suffix:
  "p \<noteq> [] \<Longrightarrow> strip_suffix p (trim_end_matches p s) = None"
  by (induction p s rule: trim_end_matches.induct)
    (auto simp: trim_end_matches.simps split: option.splits)

text \<open>\<open>split\<close> and \<open>splitn\<close> on a one-byte separator.\<close>

fun split_on :: "char \<Rightarrow> string \<Rightarrow> string list" where
  "split_on sep [] = [[]]"
| "split_on sep (c # cs) =
     (if c = sep then [] # split_on sep cs
      else case split_on sep cs of [] \<Rightarrow> [[c]] | p # ps \<Rightarrow> (c # p) # ps)"

fun splitn :: "nat \<Rightarrow> char \<Rightarrow> string \<Rightarrow> string list" where
  "splitn 0 sep s = []"
| "splitn (Suc 0) sep s = [s]"
| "splitn (Suc (Suc n)) sep s =
     (case dropWhile (\<lambda>c. c \<noteq> sep) s of
        [] \<Rightarrow> [s]
      | _ # rest \<Rightarrow> takeWhile (\<lambda>c. c \<noteq> sep) s # splitn (Suc n) sep rest)"

definition nth_opt :: "'a list \<Rightarrow> nat \<Rightarrow> 'a option" where
  "nth_opt xs n = (if n < length xs then Some (xs ! n) else None)"

text \<open>\<open>str::lines\<close>: split after each line feed, dropping it and a carriage return before it.\<close>

definition strip_cr :: "string \<Rightarrow> string" where
  "strip_cr l = (case strip_suffix [CHR 0x0D] l of None \<Rightarrow> l | Some t \<Rightarrow> t)"

fun lines_from :: "string \<Rightarrow> string \<Rightarrow> string list" where
  "lines_from cur [] = (if cur = [] then [] else [cur])"
| "lines_from cur (c # cs) =
     (if c = CHR 0x0A then strip_cr cur # lines_from [] cs else lines_from (cur @ [c]) cs)"

definition lines :: "string \<Rightarrow> string list" where
  "lines s = lines_from [] s"

text \<open>\<open>find_map\<close>: the first \<open>Some\<close> the function returns along the list.\<close>

fun find_map :: "('a \<Rightarrow> 'b option) \<Rightarrow> 'a list \<Rightarrow> 'b option" where
  "find_map f [] = None"
| "find_map f (x # xs) = (case f x of None \<Rightarrow> find_map f xs | Some y \<Rightarrow> Some y)"

lemma find_map_Some:
  "find_map f xs = Some y \<Longrightarrow> \<exists>x \<in> set xs. f x = Some y"
  by (induction xs) (auto split: option.splits)

text \<open>\<open>contains\<close>: the needle occurs somewhere in the hay.\<close>

fun contains :: "string \<Rightarrow> string \<Rightarrow> bool" where
  "contains [] needle = (needle = [])"
| "contains (c # cs) needle = (starts_with needle (c # cs) \<or> contains cs needle)"

lemma contains_iff: "contains hay needle \<longleftrightarrow> (\<exists>u v. hay = u @ needle @ v)"
proof (induction hay)
  case (Cons c cs)
  have "starts_with needle (c # cs) \<longleftrightarrow> (\<exists>v. c # cs = needle @ v)"
    by (auto simp: starts_with_def) (metis append_take_drop_id)
  then show ?case
    using Cons.IH by (auto simp: Cons_eq_append_conv)
qed simp

lemma contains_empty [simp]: "contains hay []"
  by (cases hay) (simp_all add: starts_with_def)


section \<open>Numbers\<close>

definition digit_char :: "nat \<Rightarrow> char" where
  "digit_char d = char_of (48 + d)"

definition digit_value :: "char \<Rightarrow> nat" where
  "digit_value c = byte c - 48"

lemma digit_char_digit: "d < 10 \<Longrightarrow> is_digit (digit_char d) \<and> digit_value (digit_char d) = d"
  by (simp add: digit_char_def is_digit_def digit_value_def)

text \<open>\<open>to_string\<close> of an unsigned integer.\<close>

fun dec :: "nat \<Rightarrow> string" where
  "dec n = (if n < 10 then [digit_char n] else dec (n div 10) @ [digit_char (n mod 10)])"

declare dec.simps [simp del]

text \<open>The digits of \<open>from_str_radix(10)\<close>, without a bound.\<close>

definition digits_value :: "string \<Rightarrow> nat" where
  "digits_value s = foldl (\<lambda>n c. 10 * n + digit_value c) 0 s"

definition parse_digits :: "string \<Rightarrow> nat option" where
  "parse_digits s = (if s \<noteq> [] \<and> list_all is_digit s then Some (digits_value s) else None)"

lemma digits_value_snoc: "digits_value (s @ [c]) = 10 * digits_value s + digit_value c"
  by (simp add: digits_value_def)

lemma dec_digits: "dec n \<noteq> [] \<and> list_all is_digit (dec n) \<and> digits_value (dec n) = n"
proof (induction n rule: dec.induct)
  case (1 n)
  show ?case
  proof (cases "n < 10")
    case True
    then show ?thesis
      by (simp add: dec.simps [of n] digit_char_digit digits_value_def)
  next
    case False
    with 1 show ?thesis
      by (simp add: dec.simps [of n] digit_char_digit digits_value_snoc)
  qed
qed

lemma parse_digits_dec: "parse_digits (dec n) = Some n"
  using dec_digits [of n] by (simp add: parse_digits_def)

lemma dec_inject: "dec m = dec n \<longleftrightarrow> m = n"
  using parse_digits_dec by (metis option.inject)

text \<open>A leading plus sign is accepted, a leading minus only on signed types.\<close>

definition parse_u32 :: "string \<Rightarrow> u32 option" where
  "parse_u32 s =
     (case parse_digits (case s of c # r \<Rightarrow> if c = CHR ''+'' then r else s | [] \<Rightarrow> s) of
        None \<Rightarrow> None
      | Some n \<Rightarrow> if n < 2 ^ 32 then Some (of_nat n) else None)"

definition parse_i64 :: "string \<Rightarrow> i64 option" where
  "parse_i64 s =
     (case s of
        [] \<Rightarrow> None
      | c # r \<Rightarrow>
          (if c = CHR ''-'' then
             (case parse_digits r of None \<Rightarrow> None
              | Some n \<Rightarrow> if n \<le> 2 ^ 63 then Some (- int n) else None)
           else
             (case parse_digits (if c = CHR ''+'' then r else s) of None \<Rightarrow> None
              | Some n \<Rightarrow> if n < 2 ^ 63 then Some (int n) else None)))"

lemma dec_no_plus: "dec n = c # r \<Longrightarrow> c \<noteq> CHR ''+''"
  using dec_digits [of n] by (auto simp: is_digit_def)

lemma parse_u32_dec: "parse_u32 (dec (unat w)) = Some w"
proof -
  have "unat w < 2 ^ LENGTH(32)" by (rule unsigned_less)
  moreover have "(case dec (unat w) of c # r \<Rightarrow> if c = CHR ''+'' then r else dec (unat w)
      | [] \<Rightarrow> dec (unat w)) = dec (unat w)"
    using dec_no_plus [of "unat w"] by (simp split: list.split)
  ultimately show ?thesis by (simp add: parse_u32_def parse_digits_dec)
qed

text \<open>
  Which strings \<open>str::parse::<f64>\<close> accepts: an optional sign, then \<open>inf\<close>, \<open>infinity\<close> or
  \<open>nan\<close> in any case, or digits with an optional point and an optional exponent.
\<close>

definition strip_sign :: "string \<Rightarrow> string" where
  "strip_sign s = (case s of c # r \<Rightarrow> if c = CHR ''-'' \<or> c = CHR ''+'' then r else s | [] \<Rightarrow> s)"

definition exponent_ok :: "string \<Rightarrow> bool" where
  "exponent_ok s \<longleftrightarrow>
     (case s of
        [] \<Rightarrow> True
      | c # r \<Rightarrow> (c = CHR ''e'' \<or> c = CHR ''E'') \<and> parse_digits (strip_sign r) \<noteq> None)"

definition parse_number_ok :: "string \<Rightarrow> bool" where
  "parse_number_ok s =
     (let ip = takeWhile is_digit s; r = dropWhile is_digit s;
          (fp, r2) = (case r of
             c # r' \<Rightarrow> if c = CHR ''.'' then (takeWhile is_digit r', dropWhile is_digit r') else ([], r)
           | [] \<Rightarrow> ([], r))
      in ip @ fp \<noteq> [] \<and> exponent_ok r2)"

definition parse_f64_ok :: "string \<Rightarrow> bool" where
  "parse_f64_ok s =
     (let t = strip_sign s
      in t \<noteq> [] \<and> (parse_number_ok t
           \<or> map ascii_lower t \<in> {''inf'', ''infinity'', ''nan''}))"

lemma parse_f64_dec: "parse_f64_ok (dec n)"
proof -
  have d: "dec n \<noteq> []" "list_all is_digit (dec n)" using dec_digits [of n] by auto
  then have "strip_sign (dec n) = dec n"
    by (auto simp: strip_sign_def is_digit_def split: list.splits)
  moreover have tw: "takeWhile is_digit (dec n) = dec n" and dw: "dropWhile is_digit (dec n) = []"
    using d by (auto simp: list_all_iff dropWhile_eq_Nil_conv)
  have "parse_number_ok (dec n)"
    unfolding parse_number_ok_def Let_def tw dw using d(1) by (simp add: exponent_ok_def)
  ultimately show ?thesis
    using d(1) by (simp add: parse_f64_ok_def)
qed


section \<open>Lossy decoding\<close>

text \<open>
  \<open>String::from_utf8_lossy\<close>: each maximal ill-formed piece becomes U+FFFD. \<open>utf8_step s\<close>
  is \<open>(ok, n)\<close>: the first \<open>n\<close> bytes of the non-empty \<open>s\<close> are one well-formed code point, or
  one ill-formed piece.
\<close>

definition cont_at :: "string \<Rightarrow> nat \<Rightarrow> nat \<Rightarrow> nat \<Rightarrow> bool" where
  "cont_at s i lo hi \<longleftrightarrow> i < length s \<and> lo \<le> byte (s ! i) \<and> byte (s ! i) \<le> hi"

definition utf8_step :: "string \<Rightarrow> bool \<times> nat" where
  "utf8_step s =
     (let b = byte (s ! 0) in
      if b < 0x80 then (True, 1)
      else if 0xC2 \<le> b \<and> b \<le> 0xDF then
        (if cont_at s 1 0x80 0xBF then (True, 2) else (False, 1))
      else if 0xE0 \<le> b \<and> b \<le> 0xEF then
        (let lo = (if b = 0xE0 then 0xA0 else 0x80); hi = (if b = 0xED then 0x9F else 0xBF) in
         if \<not> cont_at s 1 lo hi then (False, 1)
         else if \<not> cont_at s 2 0x80 0xBF then (False, 2) else (True, 3))
      else if 0xF0 \<le> b \<and> b \<le> 0xF4 then
        (let lo = (if b = 0xF0 then 0x90 else 0x80); hi = (if b = 0xF4 then 0x8F else 0xBF) in
         if \<not> cont_at s 1 lo hi then (False, 1)
         else if \<not> cont_at s 2 0x80 0xBF then (False, 2)
         else if \<not> cont_at s 3 0x80 0xBF then (False, 3) else (True, 4))
      else (False, 1))"

lemma utf8_step_pos: "0 < snd (utf8_step s)"
  by (auto simp: utf8_step_def Let_def)

definition replacement :: string where
  "replacement = map char_of [0xEF, 0xBF, 0xBD :: nat]"

function from_utf8_lossy :: "string \<Rightarrow> string" where
  "from_utf8_lossy s =
     (if s = [] then []
      else let (ok, n) = utf8_step s
           in (if ok then take n s else replacement) @ from_utf8_lossy (drop n s))"
  by pat_completeness auto
termination
  by (relation "measure length")
    (simp_all, metis diff_less length_greater_0_conv snd_conv utf8_step_pos)

declare from_utf8_lossy.simps [simp del]

lemma from_utf8_lossy_ascii: "list_all is_ascii s \<Longrightarrow> from_utf8_lossy s = s"
proof (induction s)
  case (Cons a s)
  then show ?case
    by (simp add: from_utf8_lossy.simps [of "a # s"] utf8_step_def is_ascii_def)
qed (simp add: from_utf8_lossy.simps)

end
