(* ===== verification/Protocol.thy ===== *)
theory Protocol
  imports Abi Rust_Str
begin

text \<open>
  The IPC protocol: the messages of \<open>procflow-ipc/proto/procflow/v1/procflow.proto\<close>, the default
  scope rule, and the length-prefixed frames of \<open>procflow-ipc/src/lib.rs\<close>. The protobuf encoding
  itself is generated code, so a codec is an argument of the frame functions.
\<close>

section \<open>Messages\<close>

text \<open>
  Enum fields are read through the generated accessors, which return the default (the first
  constructor) for an unknown number; the model starts after them.
\<close>

datatype direction = Direction_Unspecified | Direction_Ingress | Direction_Egress

datatype scope = Scope_Unspecified | Scope_External | Scope_Loopback | Scope_All

datatype tier = Tier_Unspecified | Tier_Minute | Tier_Hour | Tier_Day | Tier_Month

text \<open>Tiers are ordered as declared, finest first; the auto-picked series tier is a maximum.\<close>

fun tier_rank :: "tier \<Rightarrow> nat" where
  "tier_rank Tier_Unspecified = 0"
| "tier_rank Tier_Minute = 1"
| "tier_rank Tier_Hour = 2"
| "tier_rank Tier_Day = 3"
| "tier_rank Tier_Month = 4"

lemma tier_rank_inject [simp]: "tier_rank a = tier_rank b \<longleftrightarrow> a = b"
  by (cases a; cases b) simp_all

instantiation tier :: linorder
begin

definition less_eq_tier :: "tier \<Rightarrow> tier \<Rightarrow> bool" where
  "less_eq_tier a b \<longleftrightarrow> tier_rank a \<le> tier_rank b"

definition less_tier :: "tier \<Rightarrow> tier \<Rightarrow> bool" where
  "less_tier a b \<longleftrightarrow> tier_rank a < tier_rank b"

instance
  by standard (auto simp: less_eq_tier_def less_tier_def)

end

text \<open>The number a scope has on the wire.\<close>

fun scope_i32 :: "scope \<Rightarrow> int" where
  "scope_i32 Scope_Unspecified = 0"
| "scope_i32 Scope_External = 1"
| "scope_i32 Scope_Loopback = 2"
| "scope_i32 Scope_All = 3"

fun scope_of_i32 :: "int \<Rightarrow> scope" where
  "scope_of_i32 n = (if n = 1 then Scope_External else if n = 2 then Scope_Loopback
     else if n = 3 then Scope_All else Scope_Unspecified)"

lemma scope_of_i32_scope [simp]: "scope_of_i32 (scope_i32 s) = s"
  by (cases s) simp_all

datatype group_by = Group_Unspecified | Group_Identity | Group_Project | Group_Exe | Group_User

datatype error_code =
    Code_Unspecified | Unsupported_Protocol | Bad_Request | Not_Found | Internal
  | Unimplemented | Unavailable

record time_range =
  from_unix_ms :: i64
  to_unix_ms :: i64

record top_identities =
  ti_range :: "time_range option"
  ti_tier :: tier
  ti_scope :: scope
  ti_group_by :: group_by
  ti_limit :: u32
  ti_direction :: direction
  ti_project :: string
  ti_exe :: string
  ti_user :: string

record series_req =
  sr_identity_id :: i64
  sr_tier :: tier
  sr_range :: "time_range option"
  sr_scope :: scope

record list_identities =
  li_filter :: string
  li_project :: string
  li_exe :: string
  li_user :: string

record watch_req =
  w_scope :: scope
  w_group_by :: group_by
  w_limit :: u32

datatype request_body =
    Hello
  | TopIdentities top_identities
  | Series series_req
  | ListIdentities list_identities
  | Resolve i64
  | Watch watch_req
  | Cancel u64

record request =
  rq_proto :: u32
  rq_id :: u64
  rq_body :: "request_body option"

record identity =
  id_id :: i64
  id_uid :: u32
  id_unit :: string
  id_exe :: string
  id_project :: string
  id_cmdline :: string
  id_comm :: string
  id_username :: string
  id_raw_cmdline :: string
  id_first_seen_ms :: i64
  id_last_seen_ms :: i64

record counter_row =
  cr_identity_id :: i64
  cr_bucket_ms :: i64
  cr_scope :: scope
  cr_ingress :: u64
  cr_egress :: u64
  cr_group_key :: string

record rows =
  r_counters :: "counter_row list"
  r_identities :: "identity list"
  r_tier :: tier
  r_demo :: bool

record hello_ok =
  ho_version :: string
  ho_proto_min :: u32
  ho_proto_max :: u32
  ho_collector_active :: bool
  ho_demo :: bool

datatype response_body =
    Resp_Error error_code string
  | Resp_HelloOk hello_ok
  | Resp_Ok rows
  | Resp_Chunk rows u32
  | Resp_End

record response =
  rs_id :: u64
  rs_body :: "response_body option"

definition PROTO_VERSION :: u32 where "PROTO_VERSION = 1"
definition MAX_FRAME_LEN :: u32 where "MAX_FRAME_LEN = 16 * 1024 * 1024"
definition SOCKET_PATH :: string where "SOCKET_PATH = ''/run/procflow/procflow.sock''"

definition socket_path :: "string option \<Rightarrow> string" where
  "socket_path env = (case env of Some p \<Rightarrow> p | None \<Rightarrow> SOCKET_PATH)"

definition scope_matches :: "scope \<Rightarrow> scope \<Rightarrow> bool" where
  "scope_matches want have_scope =
     (case want of
        Scope_All \<Rightarrow> True
      | Scope_Loopback \<Rightarrow> have_scope = Scope_Loopback
      | Scope_External \<Rightarrow> have_scope = Scope_External
      | Scope_Unspecified \<Rightarrow> have_scope = Scope_External)"


section \<open>Frames\<close>

text \<open>
  A writer is the bytes it has taken so far and how many more it takes before it fails; a reader is
  the bytes that arrive before the peer closes.
\<close>

datatype io_error = InvalidData | UnexpectedEof | Broken

record writer =
  wr_sent :: "u8 list"
  wr_room :: "nat option"

definition write_all :: "u8 list \<Rightarrow> writer \<Rightarrow> (io_error + unit) \<times> writer" where
  "write_all bs w =
     (case wr_room w of
        None \<Rightarrow> (Inr (), w\<lparr>wr_sent := wr_sent w @ bs\<rparr>)
      | Some n \<Rightarrow>
          if length bs \<le> n
          then (Inr (), w\<lparr>wr_sent := wr_sent w @ bs, wr_room := Some (n - length bs)\<rparr>)
          else (Inl Broken, w\<lparr>wr_sent := wr_sent w @ take n bs, wr_room := Some 0\<rparr>))"

definition read_exact :: "nat \<Rightarrow> u8 list \<Rightarrow> (io_error + u8 list) \<times> u8 list" where
  "read_exact n bs =
     (if n \<le> length bs then (Inr (take n bs), drop n bs) else (Inl UnexpectedEof, []))"

definition write_msg :: "('m \<Rightarrow> u8 list) \<Rightarrow> 'm \<Rightarrow> writer \<Rightarrow> (io_error + unit) \<times> writer" where
  "write_msg encode msg w =
     (let n = length (encode msg)
      in if unat MAX_FRAME_LEN < n then (Inl InvalidData, w)
         else write_all (to_le_bytes (of_nat n) @ encode msg) w)"

definition read_msg :: "(u8 list \<Rightarrow> 'm option) \<Rightarrow> u8 list \<Rightarrow> (io_error + 'm) \<times> u8 list" where
  "read_msg decode bs =
     (case read_exact 4 bs of
        (Inl e, rest) \<Rightarrow> (Inl e, rest)
      | (Inr len_bytes, rest) \<Rightarrow>
          (let n = from_le_bytes len_bytes
           in if MAX_FRAME_LEN < n then (Inl InvalidData, rest)
              else (case read_exact (unat n) rest of
                      (Inl e, rest') \<Rightarrow> (Inl e, rest')
                    | (Inr buf, rest') \<Rightarrow>
                        (case decode buf of
                           None \<Rightarrow> (Inl InvalidData, rest')
                         | Some m \<Rightarrow> (Inr m, rest')))))"

text \<open>Messages written one after the other, stopping at the first failure.\<close>

fun write_all_msgs :: "('m \<Rightarrow> u8 list) \<Rightarrow> 'm list \<Rightarrow> writer \<Rightarrow> (io_error + unit) \<times> writer" where
  "write_all_msgs encode [] w = (Inr (), w)"
| "write_all_msgs encode (m # ms) w =
     (case write_msg encode m w of
        (Inl e, w') \<Rightarrow> (Inl e, w')
      | (Inr _, w') \<Rightarrow> write_all_msgs encode ms w')"

fun read_msgs :: "(u8 list \<Rightarrow> 'm option) \<Rightarrow> nat \<Rightarrow> u8 list \<Rightarrow> (io_error + 'm list) \<times> u8 list" where
  "read_msgs decode 0 bs = (Inr [], bs)"
| "read_msgs decode (Suc n) bs =
     (case read_msg decode bs of
        (Inl e, rest) \<Rightarrow> (Inl e, rest)
      | (Inr m, rest) \<Rightarrow>
          (case read_msgs decode n rest of
             (Inl e, rest') \<Rightarrow> (Inl e, rest')
           | (Inr ms, rest') \<Rightarrow> (Inr (m # ms), rest')))"

definition frame :: "('m \<Rightarrow> u8 list) \<Rightarrow> 'm \<Rightarrow> u8 list" where
  "frame encode m = to_le_bytes (of_nat (length (encode m))) @ encode m"

lemma max_frame: "unat MAX_FRAME_LEN = 16777216"
  by (simp add: MAX_FRAME_LEN_def)

lemma write_msg_open:
  "wr_room w = None \<Longrightarrow> length (encode m) \<le> unat MAX_FRAME_LEN \<Longrightarrow>
     write_msg encode m w = (Inr (), w\<lparr>wr_sent := wr_sent w @ frame encode m\<rparr>)"
  by (simp add: write_msg_def Let_def write_all_def frame_def)

lemma write_all_msgs_open:
  "wr_room w = None \<Longrightarrow> list_all (\<lambda>m. length (encode m) \<le> unat MAX_FRAME_LEN) ms \<Longrightarrow>
     write_all_msgs encode ms w = (Inr (), w\<lparr>wr_sent := wr_sent w @ concat (map (frame encode) ms)\<rparr>)"
  by (induction ms arbitrary: w) (simp_all add: write_msg_open)

lemma read_msg_frame:
  assumes "length (encode m) \<le> unat MAX_FRAME_LEN" "decode (encode m) = Some m"
  shows "read_msg decode (frame encode m @ rest) = (Inr m, rest)"
proof -
  let ?n = "length (encode m)"
  have n: "?n \<le> 16777216" using assms(1) by (simp add: max_frame)
  have "unat (of_nat ?n :: u32) = ?n"
    using n by (simp add: unat_of_nat)
  moreover have "\<not> MAX_FRAME_LEN < (of_nat ?n :: u32)"
    using n calculation by (simp add: word_less_nat_alt max_frame)
  ultimately show ?thesis
    using assms(2) by (simp add: read_msg_def read_exact_def frame_def Let_def)
qed

lemma read_msgs_frames:
  "list_all (\<lambda>m. length (encode m) \<le> unat MAX_FRAME_LEN \<and> decode (encode m) = Some m) ms \<Longrightarrow>
     read_msgs decode (length ms) (concat (map (frame encode) ms) @ rest) = (Inr ms, rest)"
  by (induction ms) (simp_all add: read_msg_frame)


section \<open>Properties\<close>

text \<open>C23. Frames round-trip: any sequence of messages within the size bound, written to an open
  socket in order, is read back as the same sequence, and whatever follows is left unread. The codec
  is the protobuf one, of which only \<open>decode (encode m) = Some m\<close> is used.\<close>

theorem frames_roundtrip:
  assumes "\<And>m. decode (encode m) = Some m" "wr_room w = None"
    "list_all (\<lambda>m. length (encode m) \<le> unat MAX_FRAME_LEN) ms"
  shows "\<exists>bs. write_all_msgs encode ms w = (Inr (), w\<lparr>wr_sent := wr_sent w @ bs\<rparr>)
     \<and> read_msgs decode (length ms) (bs @ rest) = (Inr ms, rest)"
  using assms write_all_msgs_open [of w encode ms] read_msgs_frames [of encode decode ms rest]
  by (auto simp: list_all_iff)

lemma frames_roundtrip_witness:
  "\<exists>bs. write_all_msgs id [[1, 2], []] \<lparr>wr_sent = [], wr_room = None\<rparr>
         = (Inr (), \<lparr>wr_sent = bs, wr_room = None\<rparr>)
     \<and> read_msgs Some 2 (bs @ [7]) = (Inr [[1, 2], []], [7 :: u8])"
  using frames_roundtrip [of Some id "\<lparr>wr_sent = [], wr_room = None\<rparr>" "[[1, 2], []]" "[7]"]
  by (simp add: max_frame numeral_2_eq_2)

text \<open>C24. Frames are bounded on both sides: a message over the limit is refused before a byte is
  written; a length prefix over the limit is refused after four bytes, whatever the codec; and a
  frame that is cut short anywhere is an end-of-file error, never a message.\<close>

theorem frames_bounded:
  "(16777216 < length (encode m) \<longrightarrow> write_msg encode m w = (Inl InvalidData, w))
    \<and> (16777216 < unat (from_le_bytes [a, b, c, d]) \<longrightarrow>
         read_msg decode (a # b # c # d # rest) = (Inl InvalidData, rest))
    \<and> (length (encode m) \<le> 16777216 \<and> n < length (frame encode m) \<longrightarrow>
         read_msg decode (take n (frame encode m)) = (Inl UnexpectedEof, []))"
proof (intro conjI impI)
  assume "16777216 < length (encode m)"
  then show "write_msg encode m w = (Inl InvalidData, w)"
    by (simp add: write_msg_def max_frame)
next
  assume "16777216 < unat (from_le_bytes [a, b, c, d])"
  then have "MAX_FRAME_LEN < from_le_bytes [a, b, c, d]"
    by (simp add: word_less_nat_alt max_frame)
  then show "read_msg decode (a # b # c # d # rest) = (Inl InvalidData, rest)"
    by (simp add: read_msg_def read_exact_def Let_def numeral_eq_Suc)
next
  let ?n = "length (encode m)"
  assume cut: "?n \<le> 16777216 \<and> n < length (frame encode m)"
  then have size: "unat (of_nat ?n :: u32) = ?n" by (simp add: unat_of_nat)
  then have "\<not> MAX_FRAME_LEN < (of_nat ?n :: u32)"
    using cut by (simp add: word_less_nat_alt max_frame)
  then show "read_msg decode (take n (frame encode m)) = (Inl UnexpectedEof, [])"
    using cut size by (auto simp: read_msg_def read_exact_def frame_def Let_def)
qed

lemma frames_bounded_witness:
  "read_msg Some [0xff, 0xff, 0xff, 0xff, 1] = (Inl InvalidData, [1 :: u8])
    \<and> read_msg Some (take 5 (frame id [1, 2])) = (Inl UnexpectedEof, [] :: u8 list)"
  using frames_bounded [where encode = id and m = "[1, 2]" and a = "0xff" and b = "0xff" and c = "0xff"
      and d = "0xff" and decode = Some and rest = "[1]" and n = 5]
  by (simp add: from_le_bytes.simps(1) frame_def)

end
