(* ===== verification/Calendar.thy ===== *)
theory Calendar
  imports Protocol
begin

text \<open>
  The calendar of the rollup (\<open>procflowd/src/rollup.rs\<close>): the bucket a tier puts an instant in, and
  how long each tier keeps its rows. Dates and time zones come from the \<open>chrono\<close> crate, an argument
  of the definitions; the interface \<open>bucketing\<close> says what the rollup needs of a tier's buckets.
\<close>

section \<open>Zones and chrono\<close>

datatype zone = Local | Fixed int

datatype local_result = Single i64 | Ambiguous i64 i64 | No_time

text \<open>
  What the code calls of chrono, over a type \<open>'d\<close> of naive dates; \<open>None\<close> is a date out of range,
  on which the code panics. \<open>from_local z d h\<close> is the instant of the local time \<open>h\<close> hours after the
  midnight of \<open>d\<close>.
\<close>

record 'd chrono =
  date_naive :: "zone \<Rightarrow> i64 \<Rightarrow> 'd option"
  with_day_1 :: "'d \<Rightarrow> 'd"
  plus_month :: "'d \<Rightarrow> 'd option"
  succ_opt :: "'d \<Rightarrow> 'd option"
  from_local :: "zone \<Rightarrow> 'd \<Rightarrow> nat \<Rightarrow> local_result"
  utc_midnight :: "'d \<Rightarrow> i64"

definition earliest :: "local_result \<Rightarrow> i64 option" where
  "earliest r = (case r of Single t \<Rightarrow> Some t | Ambiguous t _ \<Rightarrow> Some t | No_time \<Rightarrow> None)"

definition local_midnight :: "'d chrono \<Rightarrow> zone \<Rightarrow> 'd \<Rightarrow> i64" where
  "local_midnight ch tz d =
     (case from_local ch tz d 0 of
        Single t \<Rightarrow> t
      | Ambiguous t _ \<Rightarrow> t
      | No_time \<Rightarrow>
          (case earliest (from_local ch tz d 1) of
             None \<Rightarrow> utc_midnight ch d
           | Some t \<Rightarrow> t))"

definition calendar_bounds :: "'d chrono \<Rightarrow> zone \<Rightarrow> tier \<Rightarrow> i64 \<Rightarrow> (i64 \<times> i64) option" where
  "calendar_bounds ch tz tier epoch_s =
     (case date_naive ch tz epoch_s of
        None \<Rightarrow> None
      | Some date \<Rightarrow>
          let (first, next_day) =
                (if tier = Tier_Month
                 then (with_day_1 ch date, plus_month ch (with_day_1 ch date))
                 else (date, succ_opt ch date))
          in case next_day of
               None \<Rightarrow> None
             | Some n \<Rightarrow> Some (local_midnight ch tz first, local_midnight ch tz n))"

definition fixed_bounds :: "i64 \<Rightarrow> i64 \<Rightarrow> i64 \<times> i64" where
  "fixed_bounds len epoch_s =
     (let start = epoch_s - epoch_s mod len in (start, start + len))"

fun zone_bounds :: "'d chrono \<Rightarrow> zone \<Rightarrow> tier \<Rightarrow> i64 \<Rightarrow> (i64 \<times> i64) option" where
  "zone_bounds ch z Tier_Minute epoch_s = Some (fixed_bounds 60 epoch_s)"
| "zone_bounds ch z Tier_Unspecified epoch_s = Some (fixed_bounds 60 epoch_s)"
| "zone_bounds ch z Tier_Hour epoch_s = Some (fixed_bounds 3600 epoch_s)"
| "zone_bounds ch z tier epoch_s = calendar_bounds ch z tier epoch_s"


section \<open>The bucketing interface\<close>

text \<open>
  The buckets of a tier cut the time line into half-open intervals: an instant lies in its bucket,
  and every instant of a bucket has that bucket.
\<close>

locale bucketing =
  fixes bounds :: "i64 \<Rightarrow> (i64 \<times> i64) option"
  assumes within: "bounds t = Some (s, e) \<Longrightarrow> s \<le> t \<and> t < e"
    and same: "bounds t = Some (s, e) \<Longrightarrow> s \<le> u \<Longrightarrow> u < e \<Longrightarrow> bounds u = Some (s, e)"
begin

lemma start_own: "bounds t = Some (s, e) \<Longrightarrow> bounds s = Some (s, e)"
  using within [of t s e] same [of t s e s] by simp

text \<open>Two buckets are equal or disjoint, and ordered by their instants.\<close>

lemma equal_or_apart:
  assumes "bounds t = Some (s, e)" "bounds u = Some (s', e')"
  shows "(s = s' \<and> e = e') \<or> e \<le> s' \<or> e' \<le> s"
proof (rule ccontr)
  assume "\<not> ?thesis"
  then have apart: "\<not> (s = s' \<and> e = e')" "s' < e" "s < e'" by auto
  have "max s s' < e" "max s s' < e'"
    using apart within [OF assms(1)] within [OF assms(2)] by auto
  then have "bounds (max s s') = Some (s, e)" "bounds (max s s') = Some (s', e')"
    using same [OF assms(1), of "max s s'"] same [OF assms(2), of "max s s'"] by auto
  with apart show False by simp
qed

lemma bounds_mono:
  assumes "bounds t = Some (s, e)" "bounds u = Some (s', e')" "t \<le> u"
  shows "s \<le> s' \<and> e \<le> e'"
  using equal_or_apart [OF assms(1,2)] within [OF assms(1)] within [OF assms(2)] assms(3) by auto

lemma next_bucket:
  assumes "bounds t = Some (s, e)" "bounds u = Some (s', e')" "e \<le> u"
  shows "e \<le> s'"
  using equal_or_apart [OF assms(1,2)] within [OF assms(1)] within [OF assms(2)] assms(3) by auto

end

lemma fixed_bounds_within:
  "0 < len \<Longrightarrow> fixed_bounds len t = (s, e) \<Longrightarrow> s \<le> t \<and> t < e"
  using pos_mod_bound [of len t] pos_mod_sign [of len t]
  by (auto simp: fixed_bounds_def Let_def)

lemma fixed_bounds_same:
  assumes "0 < len" "fixed_bounds len t = (s, e)" "s \<le> u" "u < e"
  shows "fixed_bounds len u = (s, e)"
proof -
  have s: "s = len * (t div len)" "e = len * (t div len) + len"
    using assms(2) by (auto simp: fixed_bounds_def Let_def minus_mod_eq_mult_div)
  then have "u div len = t div len"
    using assms by (intro int_div_pos_eq [where r = "u - s"]) (auto simp: s)
  then show ?thesis
    by (simp add: fixed_bounds_def Let_def minus_mod_eq_mult_div s)
qed

lemma bucketing_fixed:
  assumes "0 < len" shows "bucketing (\<lambda>t. Some (fixed_bounds len t))"
proof
  show "s \<le> t \<and> t < e" if "Some (fixed_bounds len t) = Some (s, e)" for t s e
    using that by (intro fixed_bounds_within [OF assms]) simp
  show "Some (fixed_bounds len u) = Some (s, e)"
    if "Some (fixed_bounds len t) = Some (s, e)" "s \<le> u" "u < e" for t s e u
    using that fixed_bounds_same [OF assms, of t s e u] by simp
qed

interpretation minute: bucketing "zone_bounds ch z Tier_Minute"
proof -
  have "zone_bounds ch z Tier_Minute = (\<lambda>t. Some (fixed_bounds 60 t))"
    by (simp add: fun_eq_iff)
  then show "bucketing (zone_bounds ch z Tier_Minute)"
    by (simp add: bucketing_fixed)
qed

interpretation hour: bucketing "zone_bounds ch z Tier_Hour"
proof -
  have "zone_bounds ch z Tier_Hour = (\<lambda>t. Some (fixed_bounds 3600 t))"
    by (simp add: fun_eq_iff)
  then show "bucketing (zone_bounds ch z Tier_Hour)"
    by (simp add: bucketing_fixed)
qed


text \<open>A fine bucketing refines a coarse one when the coarse cut points are fine ones.\<close>

locale refining = fine: bucketing fine + coarse: bucketing coarse
  for fine :: "i64 \<Rightarrow> (i64 \<times> i64) option" and coarse :: "i64 \<Rightarrow> (i64 \<times> i64) option" +
  assumes aligned: "coarse t = Some (s, e) \<Longrightarrow>
    (\<exists>x. fine s = Some (s, x)) \<and> (\<exists>y. fine e = Some (e, y))"
begin

lemma nested:
  assumes "fine t = Some (s, e)" "coarse t = Some (s', e')"
  shows "s' \<le> s \<and> e \<le> e'"
proof -
  obtain x y where cut: "fine s' = Some (s', x)" "fine e' = Some (e', y)"
    using aligned [OF assms(2)] by blast
  have t: "s' \<le> t" "t < e'" using coarse.within [OF assms(2)] by auto
  have "s' \<le> s" using fine.bounds_mono [OF cut(1) assms(1)] t by simp
  moreover have "e \<le> e'"
    using fine.equal_or_apart [OF assms(1) cut(2)] fine.within [OF assms(1)]
      fine.within [OF cut(2)] t by auto
  ultimately show ?thesis by simp
qed

end

interpretation minute_hour: refining "zone_bounds ch z Tier_Minute" "zone_bounds ch z Tier_Hour"
proof
  show "(\<exists>x. zone_bounds ch z Tier_Minute s = Some (s, x)) \<and> (\<exists>y. zone_bounds ch z Tier_Minute e = Some (e, y))"
    if "zone_bounds ch z Tier_Hour t = Some (s, e)" for t s e
  proof -
    have se: "s = 60 * (60 * (t div 3600))" "e = 60 * (60 * (t div 3600) + 60)"
      using that by (auto simp: fixed_bounds_def Let_def minus_mod_eq_mult_div)
    have "(60 * k) mod 60 = 0" for k :: int by simp
    then have "s mod 60 = 0" "e mod 60 = 0" unfolding se by blast+
    then show ?thesis by (simp add: fixed_bounds_def)
  qed
qed


section \<open>Retention and names\<close>

record retention =
  minute_s :: i64
  hour_s :: i64
  day_s :: i64

definition default_retention :: retention where
  "default_retention =
     (let DAY = 86400
      in \<lparr>minute_s = 2 * DAY, hour_s = 90 * DAY, day_s = 730 * DAY\<rparr>)"

definition finest_covering :: "retention \<Rightarrow> i64 \<Rightarrow> i64 \<Rightarrow> tier" where
  "finest_covering r from_s now_s =
     (let age = now_s - from_s
      in if age \<le> minute_s r then Tier_Minute
         else if age \<le> hour_s r then Tier_Hour
         else if age \<le> day_s r then Tier_Day
         else Tier_Month)"

definition GRACE_S :: i64 where "GRACE_S = 120"

definition ROLLUPS :: "(tier \<times> tier) list" where
  "ROLLUPS = [(Tier_Hour, Tier_Minute), (Tier_Day, Tier_Minute), (Tier_Month, Tier_Day)]"

fun table_name :: "tier \<Rightarrow> string" where
  "table_name Tier_Minute = ''traffic_minute''"
| "table_name Tier_Unspecified = ''traffic_minute''"
| "table_name Tier_Hour = ''traffic_hour''"
| "table_name Tier_Day = ''traffic_day''"
| "table_name Tier_Month = ''traffic_month''"

definition watermark_name :: "tier \<Rightarrow> string" where
  "watermark_name t = drop (length ''traffic_'') (table_name t)"

end
