(* ===== verification/Gregorian.thy ===== *)
theory Gregorian
  imports Calendar
begin

text \<open>
  The proleptic Gregorian calendar at a fixed offset from UTC: a concrete \<open>chrono\<close> whose dates are
  days since 1970-01-01. It shows that the laws of \<open>bucketing\<close> hold for day and month buckets in
  every zone without DST jumps, the zones the code's own tests use.
\<close>

section \<open>Cut points\<close>

text \<open>Any strictly increasing sequence of cut points with an index function is a bucketing.\<close>

lemma strict_cuts:
  fixes f :: "int \<Rightarrow> int"
  assumes "\<And>k. f k < f (k + 1)"
  shows "i < j \<Longrightarrow> f i < f j"
proof -
  have "f i < f (i + 1 + int n)" for n
  proof (induction n)
    case (Suc n)
    then show ?case using assms [of "i + 1 + int n"] by (simp add: algebra_simps)
  qed (use assms [of i] in simp)
  from this [of "nat (j - i - 1)"] show "i < j \<Longrightarrow> f i < f j" by simp
qed

lemma bucketing_cuts:
  fixes f :: "int \<Rightarrow> int"
  assumes inc: "\<And>k. f k < f (k + 1)" and idx: "\<And>t. f (idx t) \<le> t \<and> t < f (idx t + 1)"
  shows "bucketing (\<lambda>t. Some (f (idx t), f (idx t + 1)))"
proof
  show "s \<le> t \<and> t < e" if "Some (f (idx t), f (idx t + 1)) = Some (s, e)" for t s e
    using that idx [of t] by simp
  show "Some (f (idx u), f (idx u + 1)) = Some (s, e)"
    if eq: "Some (f (idx t), f (idx t + 1)) = Some (s, e)" and u: "s \<le> u" "u < e" for t s e u
  proof -
    have le: "f i \<le> f j" if "i \<le> j" for i j
      using strict_cuts [of f, OF inc, of i j] that by (cases "i = j") auto
    have "\<not> idx u < idx t"
      using le [of "idx u + 1" "idx t"] idx [of u] eq u by auto
    moreover have "\<not> idx t < idx u"
      using le [of "idx t + 1" "idx u"] idx [of u] eq u by auto
    ultimately have "idx u = idx t" by simp
    with eq show ?thesis by simp
  qed
qed


section \<open>Months\<close>

definition leap :: "int \<Rightarrow> bool" where
  "leap y \<longleftrightarrow> y mod 4 = 0 \<and> (y mod 100 \<noteq> 0 \<or> y mod 400 = 0)"

text \<open>Days from 0000-01-01 to the first day of a year, and to the first day of a month.\<close>

definition days_before_year :: "int \<Rightarrow> int" where
  "days_before_year y = 365 * y + (y + 3) div 4 - (y + 99) div 100 + (y + 399) div 400"

definition days_before_month :: "bool \<Rightarrow> int \<Rightarrow> int" where
  "days_before_month lp m =
     [0, 31, 59, 90, 120, 151, 181, 212, 243, 273, 304, 334] ! nat m + (if lp \<and> 2 \<le> m then 1 else 0)"

definition month_start :: "int \<Rightarrow> int" where
  "month_start k =
     days_before_year (k div 12) + days_before_month (leap (k div 12)) (k mod 12) - 719528"

lemma div_succ:
  fixes x n :: int
  assumes "0 < n"
  shows "(x + 1) div n = x div n + (if (x + 1) mod n = 0 then 1 else 0)"
proof (cases "x mod n = n - 1")
  case True
  have "n * (x div n + 1) = n * (x div n) + n" by (simp add: distrib_left)
  with True have "x + 1 = n * (x div n + 1)"
    using mult_div_mod_eq [of n x] by linarith
  then show ?thesis using assms by simp
next
  case False
  with pos_mod_bound [OF assms, of x] have "x mod n + 1 < n" by linarith
  with pos_mod_sign [OF assms, of x] have r: "0 \<le> x mod n" "x mod n + 1 < n" by simp_all
  have x: "x + 1 = n * (x div n) + (x mod n + 1)" by simp
  have "(x + 1) div n = x div n" by (rule int_div_pos_eq [OF x]) (use r in auto)
  moreover have "(x + 1) mod n = x mod n + 1" by (rule int_mod_pos_eq [OF x]) (use r in auto)
  ultimately show ?thesis using r by simp
qed

lemma days_before_year_next:
  "days_before_year (y + 1) = days_before_year y + (if leap y then 366 else 365)"
proof -
  have cut: "(y + n) div n = (y + c) div n + (if y mod n = 0 then 1 else 0)"
    if "0 < n" "c + 1 = n" for c n :: int
  proof -
    have eq: "y + c + 1 = y + n" using that(2) by simp
    show ?thesis using div_succ [OF that(1), of "y + c"] unfolding eq mod_add_self2 .
  qed
  have arith: "a - b + c = a' - b' + c' + (if P \<and> (\<not> Q \<or> R) then 1 else 0)"
    if "a = a' + (if P then 1 else 0)" "b = b' + (if Q then 1 else 0)" "c = c' + (if R then 1 else 0)"
      "R \<Longrightarrow> Q" "Q \<Longrightarrow> P" for a b c a' b' c' :: int and P Q R
    using that by (cases P; cases Q; cases R) auto
  have "y mod 100 = 0" if "y mod 400 = 0"
    using that unfolding mod_eq_0_iff_dvd by (rule dvd_trans [rotated]) simp
  moreover have "y mod 4 = 0" if "y mod 100 = 0"
    using that unfolding mod_eq_0_iff_dvd by (rule dvd_trans [rotated]) simp
  ultimately have steps: "(y + 4) div 4 - (y + 100) div 100 + (y + 400) div 400
      = (y + 3) div 4 - (y + 99) div 100 + (y + 399) div 400 + (if leap y then 1 else 0)"
    unfolding leap_def by (intro arith cut) simp_all
  have "y + 1 + 3 = y + 4" "y + 1 + 99 = y + 100" "y + 1 + 399 = y + 400" by simp_all
  then have "days_before_year (y + 1) = 365 * y + 365 + ((y + 4) div 4 - (y + 100) div 100 + (y + 400) div 400)"
    unfolding days_before_year_def by (simp only: distrib_left)
  then show ?thesis
    unfolding steps by (simp add: days_before_year_def)
qed

lemma month_start_next: "28 \<le> month_start (k + 1) - month_start k"
proof -
  define y m where "y = k div 12" and "m = k mod 12"
  have k: "k = 12 * y + m" and m: "0 \<le> m" "m < 12" by (simp_all add: y_def m_def)
  show ?thesis
  proof (cases "m = 11")
    case False
    have k1: "k + 1 = 12 * y + (m + 1)" using k by simp
    have "(k + 1) div 12 = y" by (rule int_div_pos_eq [OF k1]) (use m False in auto)
    moreover have "(k + 1) mod 12 = m + 1" by (rule int_mod_pos_eq [OF k1]) (use m False in auto)
    moreover have "m \<in> {0, 1, 2, 3, 4, 5, 6, 7, 8, 9, 10}" using m False by simp arith
    ultimately show ?thesis
      unfolding month_start_def y_def [symmetric] m_def [symmetric]
      by (elim insertE emptyE) (simp_all add: days_before_month_def)
  next
    case True
    then have "k + 1 = 12 * (y + 1)" using k by simp
    then have "(k + 1) div 12 = y + 1" "(k + 1) mod 12 = 0" by simp_all
    then show ?thesis
      unfolding month_start_def y_def [symmetric] m_def [symmetric]
      by (simp add: True days_before_month_def days_before_year_next)
  qed
qed

text \<open>The month of a day, searched from an estimate: 4800 months have 146097 days.\<close>

function month_from :: "int \<Rightarrow> int \<Rightarrow> int" where
  "month_from d k =
     (if d < month_start k then month_from d (k - 1)
      else if month_start (k + 1) \<le> d then month_from d (k + 1)
      else k)"
  by pat_completeness auto

definition month_dist :: "int \<times> int \<Rightarrow> nat" where
  "month_dist p =
     (case p of (d, k) \<Rightarrow>
        if d < month_start k then nat (month_start k - d)
        else if month_start (k + 1) \<le> d then nat (d - month_start (k + 1) + 1) else 0)"

termination month_from
proof (relation "measure month_dist")
  show "wf (measure month_dist)" by simp
next
  fix d k assume "d < month_start k"
  then show "((d, k - 1), d, k) \<in> measure month_dist"
    using month_start_next [of "k - 1"] by (auto simp: month_dist_def)
next
  fix d k assume "\<not> d < month_start k" "month_start (k + 1) \<le> d"
  then show "((d, k + 1), d, k) \<in> measure month_dist"
    using month_start_next [of "k + 1"] by (auto simp: month_dist_def)
qed

declare month_from.simps [simp del]

definition month_of :: "int \<Rightarrow> int" where
  "month_of d = month_from d (23640 + d * 4800 div 146097)"

lemma month_from_correct: "month_start (month_from d k) \<le> d \<and> d < month_start (month_from d k + 1)"
proof (induction d k rule: month_from.induct)
  case (1 d k)
  then show ?case by (subst (1 2) month_from.simps) auto
qed

lemma month_of_correct: "month_start (month_of d) \<le> d \<and> d < month_start (month_of d + 1)"
  by (simp add: month_of_def month_from_correct)

lemma month_start_less: "month_start k < month_start (k + 1)"
  using month_start_next [of k] by simp

lemma month_of_start: "month_of (month_start k) = k"
proof -
  note less = strict_cuts [of month_start, OF month_start_less]
  have le: "i \<le> j \<Longrightarrow> month_start i \<le> month_start j" for i j
    using less [of i j] by (cases "i = j") auto
  have "\<not> month_of (month_start k) < k"
    using le [of "month_of (month_start k) + 1" k] month_of_correct [of "month_start k"] by auto
  moreover have "\<not> k < month_of (month_start k)"
    using less [of k "month_of (month_start k)"] month_of_correct [of "month_start k"] by auto
  ultimately show ?thesis by simp
qed


section \<open>The calendar\<close>

definition zone_offset :: "zone \<Rightarrow> int" where
  "zone_offset z = (case z of Local \<Rightarrow> 0 | Fixed off \<Rightarrow> off)"

text \<open>\<open>date + Months\<close> keeps the day of the month, or takes the last one of a shorter month.\<close>

definition gregorian :: "int chrono" where
  "gregorian = \<lparr>
     date_naive = (\<lambda>z t. Some ((t + zone_offset z) div 86400)),
     with_day_1 = (\<lambda>d. month_start (month_of d)),
     plus_month = (\<lambda>d. let k = month_of d
        in Some (min (month_start (k + 1) + (d - month_start k)) (month_start (k + 2) - 1))),
     succ_opt = (\<lambda>d. Some (d + 1)),
     from_local = (\<lambda>z d h. Single (d * 86400 + int h * 3600 - zone_offset z)),
     utc_midnight = (\<lambda>d. d * 86400)\<rparr>"

lemma gregorian_sel [simp]:
  "date_naive gregorian z t = Some ((t + zone_offset z) div 86400)"
  "with_day_1 gregorian d = month_start (month_of d)"
  "plus_month gregorian d =
     Some (min (month_start (month_of d + 1) + (d - month_start (month_of d)))
               (month_start (month_of d + 2) - 1))"
  "succ_opt gregorian d = Some (d + 1)"
  "from_local gregorian z d h = Single (d * 86400 + int h * 3600 - zone_offset z)"
  by (simp_all add: gregorian_def Let_def)

lemma gregorian_midnight: "local_midnight gregorian z d = d * 86400 - zone_offset z"
  by (simp add: local_midnight_def)

lemma gregorian_day:
  "zone_bounds gregorian z Tier_Day t =
     (let d = (t + zone_offset z) div 86400
      in Some (d * 86400 - zone_offset z, (d + 1) * 86400 - zone_offset z))"
  by (simp add: calendar_bounds_def gregorian_midnight Let_def)

lemma gregorian_month:
  "zone_bounds gregorian z Tier_Month t =
     (let k = month_of ((t + zone_offset z) div 86400)
      in Some (month_start k * 86400 - zone_offset z, month_start (k + 1) * 86400 - zone_offset z))"
proof -
  have "month_start (k + 1) \<le> month_start (k + 2) - 1" for k
    using month_start_less [of "k + 1"] by (simp add: add.assoc)
  then show ?thesis
    by (simp add: calendar_bounds_def Let_def gregorian_midnight month_of_start)
qed

lemma day_index: "(t + off) div 86400 * 86400 - off \<le> t \<and> t < ((t + off) div 86400 + 1) * 86400 - (off :: int)"
proof -
  have "(t + off) div 86400 * 86400 + (t + off) mod 86400 = t + off" by (rule div_mult_mod_eq)
  moreover have "0 \<le> (t + off) mod 86400" "(t + off) mod 86400 < 86400" by simp_all
  moreover have "((t + off) div 86400 + 1) * 86400 = (t + off) div 86400 * 86400 + 86400"
    by (simp add: distrib_right)
  ultimately show ?thesis by (intro conjI) linarith+
qed

interpretation day: bucketing "zone_bounds gregorian z Tier_Day"
proof -
  have "zone_bounds gregorian z Tier_Day = (\<lambda>t. let k = (t + zone_offset z) div 86400
      in Some (k * 86400 - zone_offset z, (k + 1) * 86400 - zone_offset z))"
    by (simp only: fun_eq_iff gregorian_day) simp
  then show "bucketing (zone_bounds gregorian z Tier_Day)"
    using bucketing_cuts [of "\<lambda>k. k * 86400 - zone_offset z" "\<lambda>t. (t + zone_offset z) div 86400"]
      day_index by (simp add: Let_def)
qed

interpretation month: bucketing "zone_bounds gregorian z Tier_Month"
proof -
  have "zone_bounds gregorian z Tier_Month = (\<lambda>t. let k = month_of ((t + zone_offset z) div 86400)
      in Some (month_start k * 86400 - zone_offset z, month_start (k + 1) * 86400 - zone_offset z))"
    by (simp only: fun_eq_iff gregorian_month) simp
  moreover have "month_start (month_of ((t + off) div 86400)) * 86400 - off \<le> t \<and>
      t < month_start (month_of ((t + off) div 86400) + 1) * 86400 - off" for t off
  proof -
    have "month_start (month_of ((t + off) div 86400)) \<le> (t + off) div 86400"
      "(t + off) div 86400 + 1 \<le> month_start (month_of ((t + off) div 86400) + 1)"
      using month_of_correct [of "(t + off) div 86400"] by auto
    with day_index [of t off] show ?thesis by linarith
  qed
  ultimately show "bucketing (zone_bounds gregorian z Tier_Month)"
    using bucketing_cuts [of "\<lambda>k. month_start k * 86400 - zone_offset z"
        "\<lambda>t. month_of ((t + zone_offset z) div 86400)"] month_start_less
    by (simp add: Let_def)
qed

interpretation day_month: refining "zone_bounds gregorian z Tier_Day" "zone_bounds gregorian z Tier_Month"
proof
  show "(\<exists>x. zone_bounds gregorian z Tier_Day s = Some (s, x))
      \<and> (\<exists>y. zone_bounds gregorian z Tier_Day e = Some (e, y))"
    if "zone_bounds gregorian z Tier_Month t = Some (s, e)" for t s e
  proof -
    have "\<exists>k. s = k * 86400 - zone_offset z" "\<exists>k. e = k * 86400 - zone_offset z"
      using that unfolding gregorian_month by (auto simp: Let_def)
    then show ?thesis unfolding gregorian_day by (auto simp: Let_def)
  qed
qed

lemma minute_day:
  assumes "60 dvd zone_offset z"
  shows "refining (zone_bounds gregorian z Tier_Minute) (zone_bounds gregorian z Tier_Day)"
proof
  show "(\<exists>x. zone_bounds gregorian z Tier_Minute s = Some (s, x))
      \<and> (\<exists>y. zone_bounds gregorian z Tier_Minute e = Some (e, y))"
    if "zone_bounds gregorian z Tier_Day t = Some (s, e)" for t s e
  proof -
    have cut: "(k * 86400 - zone_offset z) mod 60 = 0" for k
    proof -
      have "60 dvd k * 86400" by simp
      with assms show ?thesis unfolding mod_eq_0_iff_dvd by (rule dvd_diff [rotated])
    qed
    have "s = (t + zone_offset z) div 86400 * 86400 - zone_offset z"
      "e = ((t + zone_offset z) div 86400 + 1) * 86400 - zone_offset z"
      using that unfolding gregorian_day by (auto simp: Let_def)
    then have "s mod 60 = 0" "e mod 60 = 0" by (simp_all only: cut)
    then show ?thesis by (simp add: fixed_bounds_def)
  qed
qed


section \<open>Properties\<close>

text \<open>C27. At a fixed offset every tier cuts time into buckets that contain their instants and are
  shared by them, and the buckets nest the way the rollup reads them: a minute lies in one hour, a
  day in one month, and a minute in one local day when the offset is in whole minutes.\<close>

theorem calendar_nests:
  assumes "(inner, outer) \<in> {(Tier_Minute, Tier_Hour), (Tier_Day, Tier_Month)}
    \<or> (inner, outer) = (Tier_Minute, Tier_Day) \<and> 60 dvd zone_offset z"
  shows "\<exists>s e s' e'. zone_bounds gregorian z inner t = Some (s, e)
    \<and> zone_bounds gregorian z outer t = Some (s', e')
    \<and> s' \<le> s \<and> s \<le> t \<and> t < e \<and> e \<le> e'
    \<and> (\<forall>u. s' \<le> u \<and> u < e' \<longrightarrow> zone_bounds gregorian z outer u = Some (s', e'))"
proof -
  have total: "\<exists>s e. zone_bounds gregorian z tier t = Some (s, e)" for tier
    by (cases tier) (auto simp: gregorian_day gregorian_month Let_def simp del: zone_bounds.simps(4,5))
  obtain s e s' e' where b: "zone_bounds gregorian z inner t = Some (s, e)"
      "zone_bounds gregorian z outer t = Some (s', e')"
    using total by metis
  from assms have r: "refining (zone_bounds gregorian z inner) (zone_bounds gregorian z outer)"
    using minute_hour.refining_axioms day_month.refining_axioms minute_day by blast
  show ?thesis
    using b refining.nested [OF r b] bucketing.within [OF refining.axioms(1) [OF r] b(1)]
      bucketing.same [OF refining.axioms(2) [OF r] b(2)] by blast
qed

lemma calendar_nests_witness:
  "\<exists>s e s' e'. zone_bounds gregorian (Fixed 19800) Tier_Minute 1783368000 = Some (s, e)
    \<and> zone_bounds gregorian (Fixed 19800) Tier_Day 1783368000 = Some (s', e') \<and> s' \<le> s \<and> e \<le> e'"
proof -
  have "(Tier_Minute, Tier_Day) \<in> {(Tier_Minute, Tier_Hour), (Tier_Day, Tier_Month)}
      \<or> (Tier_Minute, Tier_Day) = (Tier_Minute, Tier_Day) \<and> 60 dvd zone_offset (Fixed 19800)"
    by (simp add: zone_offset_def)
  from calendar_nests [OF this, of 1783368000] show ?thesis by blast
qed

end
