(* ===== verification/Enrich.thy ===== *)
theory Enrich
  imports Abi Rust_Str
begin

text \<open>
  Enrichment (\<open>procflowd/src/enrich.rs\<close>): from a process directory, or from the kernel's first
  capture, to the natural key of an Identity. What the file system answers is input: each file of
  \<open>/proc/<tgid>\<close> is \<open>None\<close> when it cannot be read, \<open>exists\<close> says which paths exist, and
  \<open>/etc/passwd\<close> is a text or \<open>None\<close>.
\<close>

section \<open>Identity records\<close>

record identity_record =
  ir_uid :: u32
  ir_unit :: string
  ir_exe :: string
  ir_project :: string
  ir_cmdline :: string
  ir_comm :: string
  ir_raw_cmdline :: string
  ir_username :: "string option"

definition UNRESOLVED :: string where "UNRESOLVED = ''<unresolved>''"
definition NO_PROJECT :: string where "NO_PROJECT = ''<none>''"


section \<open>Command lines\<close>

definition is_uuid :: "string \<Rightarrow> bool" where
  "is_uuid t \<longleftrightarrow>
     length t = 36 \<and>
     list_all (\<lambda>(i, b). if i = 8 \<or> i = 13 \<or> i = 18 \<or> i = 23 then b = CHR ''-''
                        else is_ascii_hexdigit b)
       (enumerate (0 :: nat) t)"

definition mask_token :: "string \<Rightarrow> string" where
  "mask_token t =
     (if CHR ''='' \<in> set t then takeWhile (\<lambda>c. c \<noteq> CHR ''='') t @ ''=<v>''
      else if is_uuid t then ''<uuid>''
      else if starts_with ''/tmp/'' t \<or> starts_with ''/proc/'' t then ''<path>''
      else if parse_f64_ok t then ''<n>''
      else t)"

definition normalize_cmdline :: "string \<Rightarrow> string" where
  "normalize_cmdline raw = join '' '' (map mask_token (split_whitespace raw))"


section \<open>Project roots\<close>

text \<open>
  A path is whether it starts at the root, and its components; \<open>Path::ancestors\<close> drops one
  component at a time.
\<close>

type_synonym path = "bool \<times> string list"

definition path_of :: "string \<Rightarrow> path" where
  "path_of s = (starts_with ''/'' s, filter (\<lambda>c. c \<noteq> [] \<and> c \<noteq> ''.'') (split_on CHR ''/'' s))"

definition path_str :: "path \<Rightarrow> string" where
  "path_str p = (if fst p then ''/'' else []) @ join ''/'' (snd p)"

definition path_join :: "path \<Rightarrow> string \<Rightarrow> path" where
  "path_join p m = (fst p, snd p @ [m])"

fun ancestors_rev :: "bool \<Rightarrow> string list \<Rightarrow> path list" where
  "ancestors_rev a [] = [(a, [])]"
| "ancestors_rev a (c # cs) = (a, rev (c # cs)) # ancestors_rev a cs"

definition ancestors :: "path \<Rightarrow> path list" where
  "ancestors p = ancestors_rev (fst p) (rev (snd p))"

definition MARKERS :: "string list" where
  "MARKERS = [''.git'', ''package.json'', ''pyproject.toml'', ''Cargo.toml'']"

definition find_project_root :: "(string \<Rightarrow> bool) \<Rightarrow> path \<Rightarrow> path option" where
  "find_project_root exists cwd =
     find (\<lambda>dir. list_ex (\<lambda>m. exists (path_str (path_join dir m))) MARKERS) (ancestors cwd)"


section \<open>Reading a process\<close>

record proc_dir =
  pd_exe :: "string option"
  pd_cwd :: "string option"
  pd_comm :: "string option"
  pd_cmdline :: "string option"
  pd_status :: "string option"
  pd_cgroup :: "string option"

record file_system =
  fs_exists :: "string \<Rightarrow> bool"
  fs_passwd :: "string option"

definition passwd_entry :: "u32 \<Rightarrow> string \<Rightarrow> string option" where
  "passwd_entry uid line =
     (case split_on CHR '':'' line of
        name # password # field # _ \<Rightarrow>
          (case parse_u32 field of
             None \<Rightarrow> None
           | Some entry_uid \<Rightarrow> if entry_uid = uid then Some name else None)
      | _ \<Rightarrow> None)"

definition username_for :: "file_system \<Rightarrow> u32 \<Rightarrow> string option" where
  "username_for fs uid =
     (case fs_passwd fs of
        None \<Rightarrow> None
      | Some passwd \<Rightarrow> find_map (passwd_entry uid) (lines passwd))"

definition raw_cmdline_of :: "string \<Rightarrow> string" where
  "raw_cmdline_of bytes =
     join '' '' (map from_utf8_lossy (filter (\<lambda>p. p \<noteq> []) (split_on (char_of (0 :: nat)) bytes)))"

definition uid_of_status :: "string \<Rightarrow> u32 option" where
  "uid_of_status status =
     (case find_map (strip_prefix ''Uid:'') (lines status) of
        None \<Rightarrow> None
      | Some rest \<Rightarrow>
          (case nth_opt (split_whitespace rest) 0 of
             None \<Rightarrow> None
           | Some real \<Rightarrow> parse_u32 real))"

definition unit_of_cgroup :: "string \<Rightarrow> string" where
  "unit_of_cgroup cgroup =
     (case find_map (\<lambda>line. nth_opt (splitn 3 CHR '':'' line) 2) (lines cgroup) of
        None \<Rightarrow> []
      | Some p \<Rightarrow> p)"

text \<open>Which file the enrichment failed on, in the order the code reads them.\<close>

datatype enrich_error = Readlink_exe | Readlink_cwd | Read_comm | Read_cmdline | Read_status
  | Parse_uid | Read_cgroup

definition from_proc :: "file_system \<Rightarrow> proc_dir \<Rightarrow> enrich_error + identity_record" where
  "from_proc fs pd =
     (case pd_exe pd of None \<Rightarrow> Inl Readlink_exe | Some exe_link \<Rightarrow>
      let exe = trim_end_matches '' (deleted)'' (from_utf8_lossy exe_link) in
      case pd_cwd pd of None \<Rightarrow> Inl Readlink_cwd | Some cwd \<Rightarrow>
      case pd_comm pd of None \<Rightarrow> Inl Read_comm | Some comm_text \<Rightarrow>
      let comm = trim comm_text in
      case pd_cmdline pd of None \<Rightarrow> Inl Read_cmdline | Some cmdline_bytes \<Rightarrow>
      let raw_cmdline = raw_cmdline_of cmdline_bytes in
      case pd_status pd of None \<Rightarrow> Inl Read_status | Some status \<Rightarrow>
      case uid_of_status status of None \<Rightarrow> Inl Parse_uid | Some uid \<Rightarrow>
      case pd_cgroup pd of None \<Rightarrow> Inl Read_cgroup | Some cgroup \<Rightarrow>
      let unit_or_cgroup = unit_of_cgroup cgroup;
          project_root = (case find_project_root (fs_exists fs) (path_of cwd) of
                            None \<Rightarrow> NO_PROJECT
                          | Some p \<Rightarrow> from_utf8_lossy (path_str p))
      in Inr \<lparr>ir_uid = uid, ir_unit = unit_or_cgroup, ir_exe = exe, ir_project = project_root,
              ir_cmdline = normalize_cmdline raw_cmdline, ir_comm = comm,
              ir_raw_cmdline = raw_cmdline, ir_username = username_for fs uid\<rparr>)"

definition chars_of :: "u8 list \<Rightarrow> string" where
  "chars_of bs = map (\<lambda>b. char_of (unat b)) bs"

definition from_pid_meta :: "file_system \<Rightarrow> pid_meta \<Rightarrow> identity_record" where
  "from_pid_meta fs meta =
     (let comm = from_utf8_lossy (chars_of (takeWhile (\<lambda>b. b \<noteq> 0) (pm_comm meta)))
      in \<lparr>ir_uid = pm_uid meta, ir_unit = ''cgroup-id:'' @ dec (unat (pm_cgroup_id meta)),
          ir_exe = UNRESOLVED, ir_project = UNRESOLVED,
          ir_cmdline = ''<unresolved:'' @ comm @ ''>'', ir_comm = comm, ir_raw_cmdline = [],
          ir_username = username_for fs (pm_uid meta)\<rparr>)"

definition fully_unresolved :: identity_record where
  "fully_unresolved =
     \<lparr>ir_uid = 0xffffffff, ir_unit = UNRESOLVED, ir_exe = UNRESOLVED, ir_project = UNRESOLVED,
      ir_cmdline = UNRESOLVED, ir_comm = [], ir_raw_cmdline = [], ir_username = None\<rparr>"


section \<open>Masking\<close>

lemma token_append_ascii: "token s \<Longrightarrow> is_ascii c \<Longrightarrow> ws_free (c # t) \<Longrightarrow> token (s @ c # t)"
  by (simp add: token_def ws_free_append_ascii)

lemma token_constants [simp]:
  "token ''<uuid>''" "token ''<path>''" "token ''<n>''" "ws_free ''=<v>''"
  by (simp_all add: token_def ws_len.simps)

lemma token_masked: "token t \<Longrightarrow> token (takeWhile P t @ ''=<v>'')"
  by (simp add: token_def is_ascii_def ws_free_append_ascii ws_free_takeWhile ws_len.simps)

lemma mask_token_token: "token t \<Longrightarrow> token (mask_token t)"
  by (simp add: mask_token_def token_masked)

lemma mask_token_idem: "mask_token (mask_token t) = mask_token t"
proof (cases "CHR ''='' \<in> set t")
  case True
  let ?p = "takeWhile (\<lambda>c. c \<noteq> CHR ''='') t"
  have "takeWhile (\<lambda>c. c \<noteq> CHR ''='') (?p @ ''=<v>'') = ?p"
    by (subst takeWhile_append2) (auto dest: set_takeWhileD)
  then show ?thesis using True by (simp add: mask_token_def)
next
  case False
  show ?thesis
    by (simp add: mask_token_def False is_uuid_def starts_with_def parse_f64_ok_def strip_sign_def
        parse_number_ok_def Let_def is_digit_def ascii_lower_def)
qed

lemma split_normalize: "split_whitespace (normalize_cmdline raw) = map mask_token (split_whitespace raw)"
  unfolding normalize_cmdline_def
  using split_whitespace_tokens [of raw]
  by (intro split_whitespace_join) (auto simp: list_all_iff intro: mask_token_token)

lemma mask_token_number: "mask_token (dec n) = ''<n>'' \<or> is_uuid (dec n)"
proof -
  have digits: "list_all is_digit (dec n)" "dec n \<noteq> []" using dec_digits [of n] by auto
  then have "CHR ''='' \<notin> set (dec n)" by (auto simp: list_all_iff is_digit_def)
  moreover have "\<not> starts_with ''/tmp/'' (dec n)" "\<not> starts_with ''/proc/'' (dec n)"
    using digits by (cases "dec n"; auto simp: starts_with_def is_digit_def)+
  ultimately show ?thesis by (auto simp: mask_token_def parse_f64_dec)
qed

lemma dec_not_uuid: "\<not> is_uuid (dec n)"
proof
  assume "is_uuid (dec n)"
  then have len: "length (dec n) = 36" and dash: "dec n ! 8 = CHR ''-''"
    by (auto simp: is_uuid_def list_all_length nth_enumerate_eq)
  have "list_all is_digit (dec n)" using dec_digits by blast
  then have "is_digit (dec n ! 8)" unfolding list_all_length len by simp
  then show False unfolding dash by (simp add: is_digit_def)
qed

text \<open>
  The kinds of words, said of the words themselves. A plain word is one that looks like nothing volatile: it
  has some character no number has, is not a spelling of infinity or NaN, is not under \<open>/tmp\<close> or \<open>/proc\<close>, and
  does not have the length of a UUID.
\<close>

definition number_char :: "char \<Rightarrow> bool" where
  "number_char c \<longleftrightarrow> is_digit c \<or> c \<in> set ''.eE+-''"

definition plain_word :: "string \<Rightarrow> bool" where
  "plain_word t \<longleftrightarrow> CHR ''='' \<notin> set t \<and> length t \<noteq> 36 \<and> take 5 t \<noteq> ''/tmp/'' \<and> take 6 t \<noteq> ''/proc/''
     \<and> list_ex (\<lambda>c. \<not> number_char c) t
     \<and> map ascii_lower t \<notin> {''inf'', ''infinity'', ''nan'', ''+inf'', ''+infinity'', ''+nan'', ''-inf'', ''-infinity'', ''-nan''}"

definition hex_group :: "nat \<Rightarrow> string \<Rightarrow> bool" where
  "hex_group n s \<longleftrightarrow> length s = n \<and> list_all is_ascii_hexdigit s"

lemma parse_digits_digits: "parse_digits s \<noteq> None \<Longrightarrow> list_all is_digit s"
  by (auto simp: parse_digits_def list_all_iff split: if_splits option.splits)

lemma strip_sign_chars: "list_all number_char (strip_sign s) \<Longrightarrow> list_all number_char s"
  by (auto simp: strip_sign_def number_char_def split: list.splits if_splits)

lemma digits_number: "list_all is_digit s \<Longrightarrow> list_all number_char s"
  by (simp add: list_all_iff number_char_def)

lemma split_digits: "s = takeWhile is_digit s @ dropWhile is_digit s" "list_all is_digit (takeWhile is_digit s)"
  by (simp_all add: list_all_iff) (metis set_takeWhileD)

lemma exponent_chars: "exponent_ok s \<Longrightarrow> list_all number_char s"
  using parse_digits_digits digits_number strip_sign_chars
  by (auto simp: exponent_ok_def number_char_def split: list.splits)

lemma number_chars:
  assumes "parse_number_ok s" shows "list_all number_char s"
proof -
  let ?ip = "takeWhile is_digit s" and ?r = "dropWhile is_digit s"
  have ip: "list_all number_char ?ip" using split_digits(2) digits_number by blast
  have "list_all number_char ?r"
  proof (cases ?r)
    case (Cons c r)
    show ?thesis
    proof (cases "c = CHR ''.''")
      case True
      then have "exponent_ok (dropWhile is_digit r)"
        using assms Cons by (auto simp: parse_number_ok_def Let_def)
      then have "list_all number_char (takeWhile is_digit r @ dropWhile is_digit r)"
        using exponent_chars split_digits(2) [of r] digits_number by (auto simp del: takeWhile_dropWhile_id)
      then show ?thesis by (simp add: Cons True number_char_def)
    next
      case False
      then have "exponent_ok ?r" using assms Cons by (auto simp: parse_number_ok_def Let_def)
      then show ?thesis by (rule exponent_chars)
    qed
  next
    case Nil
    show ?thesis unfolding Nil by simp
  qed
  with ip have "list_all number_char (?ip @ ?r)" by (simp del: takeWhile_dropWhile_id)
  then show ?thesis by simp
qed

lemma lower_signed:
  assumes "map ascii_lower (strip_sign t) \<in> {''inf'', ''infinity'', ''nan''}"
  shows "map ascii_lower t \<in> {''inf'', ''infinity'', ''nan'', ''+inf'', ''+infinity'', ''+nan'', ''-inf'', ''-infinity'', ''-nan''}"
proof -
  define w where "w = map ascii_lower (strip_sign t)"
  have "map ascii_lower t \<in> {w, CHR ''+'' # w, CHR ''-'' # w}"
    unfolding w_def by (cases t) (simp_all add: strip_sign_def ascii_lower_def)
  moreover have "w \<in> {''inf'', ''infinity'', ''nan''}" using assms by (simp add: w_def)
  ultimately show ?thesis by (elim insertE emptyE) simp_all
qed

lemma mask_plain:
  assumes "plain_word t" shows "mask_token t = t"
proof -
  have "\<not> list_all number_char t" using assms by (simp add: plain_word_def list_ex_iff list_all_iff)
  then have "\<not> parse_number_ok (strip_sign t)" using number_chars strip_sign_chars by blast
  moreover have "map ascii_lower (strip_sign t) \<notin> {''inf'', ''infinity'', ''nan''}"
    using assms lower_signed [of t] unfolding plain_word_def by argo
  ultimately have "\<not> parse_f64_ok t" unfolding parse_f64_ok_def Let_def by argo
  moreover have "length ''/tmp/'' = 5" "length ''/proc/'' = 6" by simp_all
  ultimately show ?thesis
    using assms by (simp only: plain_word_def mask_token_def is_uuid_def starts_with_def) simp
qed

lemma undashed_not_uuid:
  assumes "CHR ''-'' \<notin> set (drop 1 t)" shows "\<not> is_uuid t"
proof
  assume "is_uuid t"
  then have len: "length t = 36" and dash: "t ! 8 = CHR ''-''"
    by (auto simp: is_uuid_def list_all_length nth_enumerate_eq)
  then have "drop 1 t ! 7 \<in> set (drop 1 t)" by (intro nth_mem) simp
  then show False using assms len dash by simp
qed

lemma mask_decimal:
  assumes "sign \<in> {[], ''-'', ''+''}" "list_all is_digit fs" "frac = [] \<or> frac = CHR ''.'' # fs"
  shows "mask_token (sign @ dec n @ frac) = ''<n>''"
proof -
  let ?t = "sign @ dec n @ frac"
  obtain c cs where d: "dec n = c # cs" "is_digit c" "list_all is_digit cs"
    using dec_digits [of n] by (cases "dec n") auto
  have digits: "takeWhile is_digit (dec n @ frac) = dec n" "dropWhile is_digit (dec n @ frac) = frac"
    "takeWhile is_digit fs = fs" "dropWhile is_digit fs = []"
    using d assms(2,3) by (auto simp: list_all_iff takeWhile_append2 dropWhile_append2 is_digit_def)
  have no_sign: "\<not> is_digit (CHR ''-'')" by (simp add: is_digit_def)
  have "strip_sign ?t = dec n @ frac" using assms(1) d by (auto simp: strip_sign_def is_digit_def)
  moreover have "parse_number_ok (dec n @ frac)"
    unfolding parse_number_ok_def Let_def digits(1,2) using assms(3) d(1)
    by (elim disjE) (simp_all add: digits(3,4) exponent_ok_def)
  ultimately have "parse_f64_ok ?t" using d(1) by (simp add: parse_f64_ok_def)
  moreover have "set ?t \<subseteq> {x. is_digit x} \<union> {CHR ''-'', CHR ''+'', CHR ''.''}" "CHR ''-'' \<notin> set (drop 1 ?t)"
    using assms d no_sign by (auto simp: list_all_iff)
  then have "CHR ''='' \<notin> set ?t" "CHR ''/'' \<notin> set ?t" "\<not> is_uuid ?t"
    using undashed_not_uuid by (auto simp: is_digit_def)
  moreover have "\<not> starts_with (CHR ''/'' # p) ?t" for p
    using \<open>CHR ''/'' \<notin> set ?t\<close> by (cases ?t) (auto simp: starts_with_def)
  ultimately show ?thesis by (simp add: mask_token_def)
qed

lemma mask_assigned:
  assumes "CHR ''='' \<notin> set k" shows "mask_token (k @ ''='' @ v) = k @ ''=<v>''"
proof -
  have "takeWhile (\<lambda>c. c \<noteq> CHR ''='') (k @ ''='' @ v) = k"
    using assms by (subst takeWhile_append2) auto
  then show ?thesis by (simp add: mask_token_def)
qed

lemma uuid_hex_first: "is_uuid (c # t) \<Longrightarrow> is_ascii_hexdigit c"
  by (simp add: is_uuid_def)

lemma mask_scratch:
  assumes "CHR ''='' \<notin> set x"
  shows "mask_token (''/tmp/'' @ x) = ''<path>''" "mask_token (''/proc/'' @ x) = ''<path>''"
  using assms uuid_hex_first [of "CHR ''/''"]
  by (auto simp: mask_token_def starts_with_def is_ascii_hexdigit_def is_digit_def)

lemma uuid_group:
  assumes "list_all is_ascii_hexdigit g" "\<forall>i. n \<le> i \<and> i < n + length g \<longrightarrow> i \<notin> {8, 13, 18, 23}"
  shows "list_all (\<lambda>(i, b). if i = 8 \<or> i = 13 \<or> i = 18 \<or> i = 23 then b = CHR ''-'' else is_ascii_hexdigit b) (enumerate n g)"
  using assms
proof (induction g arbitrary: n)
  case (Cons c g)
  have "n \<notin> {8, 13, 18, 23}" using Cons.prems(2) by auto
  moreover have "\<forall>i. Suc n \<le> i \<and> i < Suc n + length g \<longrightarrow> i \<notin> {8, 13, 18, 23}"
    using Cons.prems(2) by auto
  ultimately show ?case using Cons by simp
qed simp

lemma mask_uuid:
  assumes "hex_group 8 a" "hex_group 4 b" "hex_group 4 c" "hex_group 4 d" "hex_group 12 e"
  shows "mask_token (join ''-'' [a, b, c, d, e]) = ''<uuid>''"
proof -
  let ?t = "a @ ''-'' @ b @ ''-'' @ c @ ''-'' @ d @ ''-'' @ e"
  have "\<not> is_ascii_hexdigit (CHR ''='')" by (simp add: is_ascii_hexdigit_def is_digit_def)
  then have "CHR ''='' \<notin> set ?t"
    using assms by (auto simp: hex_group_def list_all_iff)
  moreover have "is_uuid ?t"
    using assms uuid_group [of a 0] uuid_group [of b 9] uuid_group [of c 14] uuid_group [of d 19] uuid_group [of e 24]
    by (simp add: is_uuid_def hex_group_def enumerate_append_eq)
  ultimately show ?thesis by (simp add: mask_token_def)
qed

lemma token_dec: "token (dec n)"
proof -
  have "ws_free s" if "list_all is_digit s" for s
    using that by (induction s) (auto simp: ws_len.simps is_digit_def)
  then show ?thesis using dec_digits [of n] by (simp add: token_def)
qed


section \<open>Ancestors\<close>

lemma ancestors_rev_take:
  "ancestors_rev a (rev cs) = map (\<lambda>k. (a, take k cs)) (rev [0..<Suc (length cs)])"
proof (induction cs rule: rev_induct)
  case (snoc c cs)
  have "map (\<lambda>k. (a, take k (cs @ [c]))) (rev [0..<Suc (length cs)])
      = map (\<lambda>k. (a, take k cs)) (rev [0..<Suc (length cs)])"
    by simp
  with snoc show ?case by simp
qed simp

lemma ancestors_take:
  "ancestors (a, cs) = map (\<lambda>k. (a, take k cs)) (rev [0..<Suc (length cs)])"
  by (simp only: ancestors_def fst_conv snd_conv ancestors_rev_take)

definition has_marker :: "(string \<Rightarrow> bool) \<Rightarrow> path \<Rightarrow> bool" where
  "has_marker exists dir \<longleftrightarrow> (\<exists>m \<in> set MARKERS. exists (path_str (path_join dir m)))"

lemma find_project_root_alt: "find_project_root exists cwd = find (has_marker exists) (ancestors cwd)"
  by (simp add: find_project_root_def has_marker_def [abs_def] list_ex_iff)

lemma find_rev_upt:
  "find P (map f (rev [0..<Suc n])) = Some y \<longleftrightarrow>
     (\<exists>k \<le> n. y = f k \<and> P (f k) \<and> (\<forall>j. k < j \<and> j \<le> n \<longrightarrow> \<not> P (f j)))"
proof (induction n)
  case (Suc n)
  show ?case
  proof (cases "P (f (Suc n))")
    case True
    then show ?thesis by (auto simp: le_Suc_eq)
  next
    case False
    then have "find P (map f (rev [0..<Suc (Suc n)])) = find P (map f (rev [0..<Suc n]))" by simp
    with Suc False show ?thesis by (auto simp: le_Suc_eq)
  qed
qed auto


section \<open>Properties\<close>

text \<open>C25. Command-line normalisation is a canonical form: it is idempotent and works word by word. Volatile
  words merge: what follows an \<open>=\<close> is masked and the name before it kept, every UUID, every path under
  \<open>/tmp\<close> or \<open>/proc\<close> and every number, signed and with a fraction or not, becomes its placeholder, so that two command lines that differ in such
  words only (a port) are the same. Plain words are kept as they are, so command lines of plain words merge
  only if they have the same words.\<close>

theorem normalize_cmdline_canonical:
  "normalize_cmdline (normalize_cmdline raw) = normalize_cmdline raw
    \<and> split_whitespace (normalize_cmdline raw) = map mask_token (split_whitespace raw)
    \<and> (CHR ''='' \<notin> set name \<longrightarrow> mask_token (name @ ''='' @ v) = name @ ''=<v>'')
    \<and> (CHR ''='' \<notin> set x \<longrightarrow> mask_token (''/tmp/'' @ x) = ''<path>'' \<and> mask_token (''/proc/'' @ x) = ''<path>'')
    \<and> (hex_group 8 g1 \<and> hex_group 4 g2 \<and> hex_group 4 g3 \<and> hex_group 4 g4 \<and> hex_group 12 g5 \<longrightarrow>
         mask_token (join ''-'' [g1, g2, g3, g4, g5]) = ''<uuid>'')
    \<and> mask_token (dec n) = ''<n>''
    \<and> (list_all token (a @ b) \<longrightarrow>
         normalize_cmdline (join '' '' (a @ [dec m] @ b)) = normalize_cmdline (join '' '' (a @ [dec n] @ b)))
    \<and> (plain_word t \<longrightarrow> mask_token t = t)
    \<and> (list_all plain_word (split_whitespace raw @ split_whitespace raw') \<and>
         normalize_cmdline raw = normalize_cmdline raw' \<longrightarrow> split_whitespace raw = split_whitespace raw')
    \<and> (sign \<in> {[], ''-'', ''+''} \<and> list_all is_digit fs \<longrightarrow>
         mask_token (sign @ dec n) = ''<n>'' \<and> mask_token (sign @ dec n @ ''.'' @ fs) = ''<n>'')"
proof (intro conjI impI)
  show "normalize_cmdline (normalize_cmdline raw) = normalize_cmdline raw"
    unfolding normalize_cmdline_def [of "normalize_cmdline raw"] split_normalize
    by (simp add: normalize_cmdline_def mask_token_idem comp_def)
next
  show "split_whitespace (normalize_cmdline raw) = map mask_token (split_whitespace raw)"
    by (rule split_normalize)
next
  show "mask_token (dec n) = ''<n>''" using mask_token_number [of n] dec_not_uuid by simp
next
  assume "list_all token (a @ b)"
  then have "split_whitespace (join '' '' (a @ [dec i] @ b)) = a @ [dec i] @ b" for i
    by (intro split_whitespace_join) (simp add: token_dec)
  moreover have "mask_token (dec i) = ''<n>''" for i
    using mask_token_number [of i] dec_not_uuid by simp
  ultimately show
    "normalize_cmdline (join '' '' (a @ [dec m] @ b)) = normalize_cmdline (join '' '' (a @ [dec n] @ b))"
    unfolding normalize_cmdline_def by simp
next
  assume *: "list_all plain_word (split_whitespace raw @ split_whitespace raw')
    \<and> normalize_cmdline raw = normalize_cmdline raw'"
  then have "map mask_token (split_whitespace raw) = map mask_token (split_whitespace raw')"
    using split_normalize [of raw] split_normalize [of raw'] by simp
  moreover have "map mask_token ws = ws" if "list_all plain_word ws" for ws
    using that mask_plain by (simp add: list_all_iff map_idI)
  ultimately show "split_whitespace raw = split_whitespace raw'" using * by simp
next
  assume "hex_group 8 g1 \<and> hex_group 4 g2 \<and> hex_group 4 g3 \<and> hex_group 4 g4 \<and> hex_group 12 g5"
  then show "mask_token (join ''-'' [g1, g2, g3, g4, g5]) = ''<uuid>''" by (intro mask_uuid) simp_all
next
  assume "sign \<in> {[], ''-'', ''+''} \<and> list_all is_digit fs"
  then show "mask_token (sign @ dec n) = ''<n>''" "mask_token (sign @ dec n @ ''.'' @ fs) = ''<n>''"
    using mask_decimal [of sign fs "[]" n] mask_decimal [of sign fs "CHR ''.'' # fs" n] by simp_all
qed (rule mask_assigned mask_scratch mask_plain; assumption)+

lemma normalize_cmdline_witness:
  "normalize_cmdline (join '' '' ([''npm''] @ [dec 3000] @ []))
     = normalize_cmdline (join '' '' ([''npm''] @ [dec 3001] @ []))
   \<and> mask_token ''python3'' = ''python3'' \<and> mask_token (''-'' @ dec 3001 @ ''.'' @ ''25'') = ''<n>''
   \<and> mask_token (join ''-'' [''550e8400'', ''e29b'', ''41d4'', ''a716'', ''446655440000'']) = ''<uuid>''"
  using normalize_cmdline_canonical [of _ _ _ _ "''550e8400''" "''e29b''" "''41d4''" "''a716''" "''446655440000''" 3001
      "[''npm'']" "[]" 3000 "''python3''" _ "''-''" "''25''"]
  by (simp add: token_def ws_len.simps plain_word_def number_char_def is_digit_def ascii_lower_def hex_group_def
      is_ascii_hexdigit_def)

text \<open>C26. The project root is the deepest ancestor of the working directory, itself included, that
  holds a marker file, and there is none exactly when no ancestor holds one.\<close>

theorem find_project_root_deepest:
  "(find_project_root exists (a, cs) = Some d \<longleftrightarrow>
      (\<exists>k \<le> length cs. d = (a, take k cs) \<and> has_marker exists d \<and>
         (\<forall>j. k < j \<and> j \<le> length cs \<longrightarrow> \<not> has_marker exists (a, take j cs))))
    \<and> (find_project_root exists (a, cs) = None \<longleftrightarrow>
        (\<forall>k \<le> length cs. \<not> has_marker exists (a, take k cs)))"
proof -
  have "find_project_root exists (a, cs)
      = find (has_marker exists) (map (\<lambda>k. (a, take k cs)) (rev [0..<Suc (length cs)]))"
    by (simp only: find_project_root_alt ancestors_take)
  moreover have "find P (map f (rev [0..<Suc n])) = None \<longleftrightarrow> (\<forall>k \<le> n. \<not> P (f k))"
    for P :: "path \<Rightarrow> bool" and f n
    by (auto simp: find_None_iff simp del: upt_Suc)
  ultimately show ?thesis
    by (auto simp only: find_rev_upt)
qed

lemma find_project_root_witness:
  "find_project_root (\<lambda>p. p = ''/home/x/Cargo.toml'' \<or> p = ''/.git'') (True, [''home'', ''x'', ''src''])
     = Some (True, [''home'', ''x''])"
proof -
  let ?e = "\<lambda>p. p = ''/home/x/Cargo.toml'' \<or> p = ''/.git''"
  have "\<exists>k \<le> length [''home'', ''x'', ''src'']. (True, [''home'', ''x'']) = (True, take k [''home'', ''x'', ''src''])
      \<and> has_marker ?e (True, [''home'', ''x'']) \<and>
      (\<forall>j. k < j \<and> j \<le> length [''home'', ''x'', ''src''] \<longrightarrow>
        \<not> has_marker ?e (True, take j [''home'', ''x'', ''src'']))"
    by (intro exI [of _ 2])
      (auto simp: has_marker_def MARKERS_def path_str_def path_join_def le_Suc_eq numeral_eq_Suc)
  then show ?thesis by (rule iffD2 [OF conjunct1 [OF find_project_root_deepest]])
qed

end
