(* ===== verification/Store.thy ===== *)
theory Store
  imports Calendar Enrich
begin

text \<open>
  The store (\<open>procflowd/src/store.rs\<close> and \<open>procflowd/migrations/0001_init.sql\<close>): the tables of the
  schema as association lists, and the statements the daemon runs on them. The database engine is
  outside; each statement takes a flag saying whether the engine fails it, and a failed statement
  changes nothing. Every \<open>TIMESTAMP\<close> the code writes is a whole number of seconds times a million,
  so a bucket is its seconds.
\<close>

section \<open>Tables\<close>

datatype db_error = Check_Violation | Fk_Violation | Out_Of_Range | Table_Exists | Db_Fault | Panicked

type_synonym fact_key = "i64 \<times> i64 \<times> string"
type_synonym fact_table = "(fact_key \<times> counts) list"

abbreviation fk_bucket :: "fact_key \<Rightarrow> i64" where "fk_bucket k \<equiv> fst k"
abbreviation fk_identity :: "fact_key \<Rightarrow> i64" where "fk_identity k \<equiv> fst (snd k)"
abbreviation fk_scope :: "fact_key \<Rightarrow> string" where "fk_scope k \<equiv> snd (snd k)"

record id_row =
  row_id :: i64
  row_rec :: identity_record
  row_first_seen :: i64
  row_last_seen :: i64

record db =
  db_versions :: "i64 list"
  db_schema :: bool
  db_identity :: "id_row list"
  db_seq :: i64
  db_minute :: fact_table
  db_hour :: fact_table
  db_day :: fact_table
  db_month :: fact_table
  db_watermark :: "(string \<times> i64) list"

record store =
  st_db :: db
  st_zone :: zone
  st_retention :: retention

fun tier_table :: "tier \<Rightarrow> db \<Rightarrow> fact_table" where
  "tier_table Tier_Hour d = db_hour d"
| "tier_table Tier_Day d = db_day d"
| "tier_table Tier_Month d = db_month d"
| "tier_table _ d = db_minute d"

fun set_tier_table :: "tier \<Rightarrow> fact_table \<Rightarrow> db \<Rightarrow> db" where
  "set_tier_table Tier_Hour t d = d\<lparr>db_hour := t\<rparr>"
| "set_tier_table Tier_Day t d = d\<lparr>db_day := t\<rparr>"
| "set_tier_table Tier_Month t d = d\<lparr>db_month := t\<rparr>"
| "set_tier_table _ t d = d\<lparr>db_minute := t\<rparr>"

definition update_db :: "(db \<Rightarrow> db) \<Rightarrow> store \<Rightarrow> store" where
  "update_db f st = st\<lparr>st_db := f (st_db st)\<rparr>"

definition identity_ids :: "db \<Rightarrow> i64 set" where
  "identity_ids d = row_id ` set (db_identity d)"


section \<open>Migrations\<close>

definition empty_db :: db where
  "empty_db = \<lparr>db_versions = [], db_schema = False, db_identity = [], db_seq = 1, db_minute = [],
     db_hour = [], db_day = [], db_month = [], db_watermark = []\<rparr>"

text \<open>\<open>0001_init.sql\<close>: creating tables that exist is an error, which rolls the batch back.\<close>

definition init_sql :: "db \<Rightarrow> db_error + db" where
  "init_sql d =
     (if db_schema d then Inl Table_Exists
      else Inr (d\<lparr>db_schema := True, db_identity := [], db_seq := 1, db_minute := [], db_hour := [],
                 db_day := [], db_month := [], db_watermark := []\<rparr>))"

definition MIGRATIONS :: "(i64 \<times> (db \<Rightarrow> db_error + db)) list" where
  "MIGRATIONS = [(1, init_sql)]"

definition schema_version :: "bool \<Rightarrow> store \<Rightarrow> db_error + i64" where
  "schema_version fault st =
     (if fault then Inl Db_Fault else Inr (fold max (db_versions (st_db st)) 0))"

fun run_migrations :: "bool \<Rightarrow> (i64 \<times> (db \<Rightarrow> db_error + db)) list \<Rightarrow> store \<Rightarrow> (db_error + unit) \<times> store" where
  "run_migrations fault [] st = (Inr (), st)"
| "run_migrations fault ((version, sql) # ms) st =
     (if fault then (Inl Db_Fault, st)
      else (case sql (st_db st) of
              Inl e \<Rightarrow> (Inl e, st)
            | Inr d \<Rightarrow>
                run_migrations fault ms (st\<lparr>st_db := d\<lparr>db_versions := db_versions d @ [version]\<rparr>\<rparr>)))"

definition migrate :: "bool \<Rightarrow> bool \<Rightarrow> store \<Rightarrow> (db_error + unit) \<times> store" where
  "migrate version_fault batch_fault st =
     (case schema_version version_fault st of
        Inl e \<Rightarrow> (Inl e, st)
      | Inr current \<Rightarrow> run_migrations batch_fault (filter (\<lambda>(v, _). current < v) MIGRATIONS) st)"

definition store_init :: "bool \<Rightarrow> bool \<Rightarrow> bool \<Rightarrow> db \<Rightarrow> db_error + store" where
  "store_init create_fault version_fault batch_fault conn =
     (if create_fault then Inl Db_Fault
      else let st = \<lparr>st_db = conn, st_zone = Local, st_retention = default_retention\<rparr>
           in (case migrate version_fault batch_fault st of
                 (Inl e, _) \<Rightarrow> Inl e
               | (Inr _, st') \<Rightarrow> Inr st'))"

text \<open>\<open>Connection::open\<close> gives the database the file holds, or fails.\<close>

definition store_open :: "db option \<Rightarrow> bool \<Rightarrow> bool \<Rightarrow> bool \<Rightarrow> db_error + store" where
  "store_open file f1 f2 f3 =
     (case file of None \<Rightarrow> Inl Db_Fault | Some conn \<Rightarrow> store_init f1 f2 f3 conn)"

definition open_in_memory :: "bool \<Rightarrow> bool \<Rightarrow> bool \<Rightarrow> db_error + store" where
  "open_in_memory f1 f2 f3 = store_init f1 f2 f3 empty_db"


section \<open>Timestamps\<close>

text \<open>\<open>seconds * 1_000_000\<close> on \<open>i64\<close>, wrapping.\<close>

definition micros :: "i64 \<Rightarrow> i64" where
  "micros s = (s * 1000000 + 2 ^ 63) mod 2 ^ 64 - 2 ^ 63"

text \<open>
  The seconds of \<open>make_timestamp\<close> of that product, which is what a row keeps. A product that wrapped is not a
  whole second; it is kept rounded down, which every comparison with a whole second agrees with.
\<close>

definition stamp :: "i64 \<Rightarrow> i64" where
  "stamp s = micros s div 1000000"

definition stampable :: "i64 \<Rightarrow> bool" where
  "stampable s \<longleftrightarrow> - 9223372036854 \<le> s \<and> s \<le> 9223372036854"

lemma micros_exact: "- 9223372036854 \<le> s \<Longrightarrow> s \<le> 9223372036854 \<Longrightarrow> micros s = s * 1000000"
  by (simp add: micros_def)

lemma stamp_exact: "stampable s \<Longrightarrow> stamp s = s"
  by (simp add: stampable_def stamp_def micros_exact)


section \<open>Identities\<close>

definition same_key :: "identity_record \<Rightarrow> identity_record \<Rightarrow> bool" where
  "same_key r r' \<longleftrightarrow>
     ir_uid r = ir_uid r' \<and> ir_unit r = ir_unit r' \<and> ir_exe r = ir_exe r' \<and>
     ir_project r = ir_project r' \<and> ir_cmdline r = ir_cmdline r'"

text \<open>
  \<open>ON CONFLICT ... DO UPDATE ... RETURNING id\<close>. The column default draws from the sequence on every
  call, whether or not the row is then inserted.
\<close>

definition upsert_identity :: "bool \<Rightarrow> i64 \<Rightarrow> identity_record \<Rightarrow> store \<Rightarrow> (db_error + i64) \<times> store" where
  "upsert_identity fault now_s r st =
     (let d = st_db st; drawn = db_seq d; seen = stamp now_s in
      if fault then (Inl Db_Fault, st)
      else case find (\<lambda>row. same_key (row_rec row) r) (db_identity d) of
             Some row \<Rightarrow>
               (Inr (row_id row),
                update_db (\<lambda>d. d\<lparr>
                  db_identity := map (\<lambda>w. if row_id w = row_id row
                    then w\<lparr>row_last_seen := seen,
                           row_rec := (row_rec w)\<lparr>ir_comm := ir_comm r,
                             ir_raw_cmdline := ir_raw_cmdline r, ir_username := ir_username r\<rparr>\<rparr>
                    else w) (db_identity d),
                  db_seq := drawn + 1\<rparr>) st)
           | None \<Rightarrow>
               (Inr drawn,
                update_db (\<lambda>d. d\<lparr>
                  db_identity := db_identity d @
                    [\<lparr>row_id = drawn, row_rec = r, row_first_seen = seen, row_last_seen = seen\<rparr>],
                  db_seq := drawn + 1\<rparr>) st))"


section \<open>Counters\<close>

text \<open>A column of the counter pair; unspecified is the ranking sum of both.\<close>

definition column :: "direction \<Rightarrow> counts \<Rightarrow> int" where
  "column d c =
     (case d of
        Direction_Ingress \<Rightarrow> uint (ingress c)
      | Direction_Egress \<Rightarrow> uint (egress c)
      | Direction_Unspecified \<Rightarrow> uint (ingress c) + uint (egress c))"

definition checked_add :: "counts \<Rightarrow> counts \<Rightarrow> counts option" where
  "checked_add c d =
     (if uint (ingress c) + uint (ingress d) < 2 ^ 64 \<and> uint (egress c) + uint (egress d) < 2 ^ 64
      then Some (c + d) else None)"

text \<open>
  \<open>INSERT ... ON CONFLICT (bucket, identity_id, scope) DO UPDATE\<close> adding both columns, with the
  table's constraints; \<open>UBIGINT\<close> addition that overflows is an error.
\<close>

definition upsert_fact :: "i64 set \<Rightarrow> fact_key \<Rightarrow> counts \<Rightarrow> fact_table \<Rightarrow> db_error + fact_table" where
  "upsert_fact ids k delta t =
     (if fk_scope k \<notin> {''external'', ''loopback''} then Inl Check_Violation
      else if fk_identity k \<notin> ids then Inl Fk_Violation
      else case map_of t k of
             None \<Rightarrow> Inr (t @ [(k, delta)])
           | Some c \<Rightarrow> (case checked_add c delta of
                          None \<Rightarrow> Inl Out_Of_Range
                        | Some c' \<Rightarrow> Inr (AList.update k c' t)))"

definition record_minute :: "bool \<Rightarrow> i64 \<Rightarrow> i64 \<Rightarrow> string \<Rightarrow> u64 \<Rightarrow> u64 \<Rightarrow> store \<Rightarrow> (db_error + unit) \<times> store" where
  "record_minute fault bucket_epoch_s identity_id scope_name ingress_bytes egress_bytes st =
     (if fault then (Inl Db_Fault, st)
      else case upsert_fact (identity_ids (st_db st)) (stamp bucket_epoch_s, identity_id, scope_name)
                  (Counts ingress_bytes egress_bytes) (db_minute (st_db st)) of
             Inl e \<Rightarrow> (Inl e, st)
           | Inr t \<Rightarrow> (Inr (), update_db (\<lambda>d. d\<lparr>db_minute := t\<rparr>) st))"


section \<open>The schema's constraints as an invariant\<close>

definition fact_ok :: "i64 set \<Rightarrow> fact_table \<Rightarrow> bool" where
  "fact_ok ids t \<longleftrightarrow>
     distinct (map fst t) \<and>
     (\<forall>k \<in> fst ` set t. fk_scope k \<in> {''external'', ''loopback''} \<and> fk_identity k \<in> ids)"

definition identities_ok :: "db \<Rightarrow> bool" where
  "identities_ok d \<longleftrightarrow>
     distinct (map row_id (db_identity d)) \<and>
     (\<forall>w \<in> set (db_identity d). row_id w < db_seq d) \<and>
     (\<forall>w \<in> set (db_identity d). \<forall>w' \<in> set (db_identity d).
        same_key (row_rec w) (row_rec w') \<longrightarrow> w = w')"

definition watermarks_ok :: "db \<Rightarrow> bool" where
  "watermarks_ok d \<longleftrightarrow>
     distinct (map fst (db_watermark d)) \<and> fst ` set (db_watermark d) \<subseteq> {''hour'', ''day'', ''month''}"

definition db_ok :: "db \<Rightarrow> bool" where
  "db_ok d \<longleftrightarrow>
     identities_ok d \<and> watermarks_ok d \<and> (\<forall>tier. fact_ok (identity_ids d) (tier_table tier d))"

definition store_ok :: "store \<Rightarrow> bool" where
  "store_ok st \<longleftrightarrow> db_ok (st_db st)"

lemma tier_table_set:
  "tier_table tier (set_tier_table tier' t d) =
     (if table_name tier = table_name tier' then t else tier_table tier d)"
  by (cases tier; cases tier') simp_all

lemma set_tier_table_sel [simp]:
  "db_identity (set_tier_table tier t d) = db_identity d"
  "db_seq (set_tier_table tier t d) = db_seq d"
  "db_watermark (set_tier_table tier t d) = db_watermark d"
  "identity_ids (set_tier_table tier t d) = identity_ids d"
  by (cases tier; simp add: identity_ids_def)+

lemma update_db_sel [simp]:
  "st_db (update_db f st) = f (st_db st)" "st_zone (update_db f st) = st_zone st"
  "st_retention (update_db f st) = st_retention st"
  by (simp_all add: update_db_def)

lemma uint_add_exact: "uint x + uint y < 2 ^ 64 \<Longrightarrow> uint (x + y) = uint x + uint (y :: u64)"
  by (simp add: uint_word_ariths(1))

lemma checked_add_column: "checked_add c d = Some e \<Longrightarrow> column dir e = column dir c + column dir d"
  by (cases dir) (auto simp: checked_add_def column_def uint_add_exact split: if_splits)

lemma checked_add_zero: "checked_add 0 d = Some d"
proof -
  have "uint x < 2 ^ 64" for x :: u64 using unsigned_less [of x] by simp
  then show ?thesis by (simp add: checked_add_def)
qed

lemma upsert_fact_Inr:
  "upsert_fact ids k d t = Inr t' \<longleftrightarrow>
     fk_scope k \<in> {''external'', ''loopback''} \<and> fk_identity k \<in> ids \<and>
     ((map_of t k = None \<and> t' = t @ [(k, d)]) \<or>
      (\<exists>c c'. map_of t k = Some c \<and> checked_add c d = Some c' \<and> t' = AList.update k c' t))"
  by (auto simp: upsert_fact_def split: option.splits)

lemma upsert_fact_keys:
  assumes "upsert_fact ids k d t = Inr t'" shows "fst ` set t' = insert k (fst ` set t)"
  using assms unfolding upsert_fact_Inr by (elim conjE disjE exE) (simp_all add: dom_update)

lemma upsert_fact_ok [wf_intro]:
  assumes "fact_ok ids t" "upsert_fact ids k d t = Inr t'" shows "fact_ok ids t'"
proof -
  have "distinct (map fst t')"
    using assms unfolding upsert_fact_Inr fact_ok_def
    by (elim conjE disjE exE) (simp_all add: distinct_update map_of_eq_None_iff)
  then show ?thesis
    using assms upsert_fact_keys [OF assms(2)] unfolding fact_ok_def upsert_fact_Inr by simp
qed

text \<open>An upsert adds to one cell, in both columns, without wrapping.\<close>

lemma upsert_fact_sum [conserve]:
  assumes "fact_ok ids t" "upsert_fact ids k d t = Inr t'"
  shows "sum_where P (column dir) t' = sum_where P (column dir) t + (if P k then column dir d else 0)"
  using assms(2) unfolding upsert_fact_Inr
proof (elim conjE disjE exE)
  fix c c' assume c: "map_of t k = Some c" "checked_add c d = Some c'" "t' = AList.update k c' t"
  have "distinct (map fst t)" using assms(1) by (simp add: fact_ok_def)
  from sum_where_update [OF this c(1), of P "column dir" c'] show ?thesis
    by (simp add: c(3) checked_add_column [OF c(2)] split: if_splits)
qed (simp_all del: One_nat_def)

lemma upsert_fact_get:
  assumes "upsert_fact ids k d t = Inr t'"
  shows "get_or_zero t' k' = (if k' = k then get_or_zero t k + d else get_or_zero t k')"
  using assms unfolding upsert_fact_Inr
  by (elim conjE disjE exE)
    (auto simp: get_or_zero_def checked_add_def update_conv' map_add_def
      split: if_splits option.splits)


section \<open>Natural keys and surrogate ids\<close>

lemma same_key_refl [simp]: "same_key r r"
  by (simp add: same_key_def)

lemma same_key_sym: "same_key r r' \<Longrightarrow> same_key r' r"
  by (simp add: same_key_def)

lemma same_key_trans: "same_key r r' \<Longrightarrow> same_key r' r'' \<Longrightarrow> same_key r r''"
  by (simp add: same_key_def)

definition key_id :: "db \<Rightarrow> identity_record \<Rightarrow> i64 \<Rightarrow> bool" where
  "key_id d r i \<longleftrightarrow> (\<exists>w \<in> set (db_identity d). row_id w = i \<and> same_key (row_rec w) r)"

lemma key_id_iff:
  assumes "identities_ok d" "key_id d r i" "key_id d r' i'"
  shows "i = i' \<longleftrightarrow> same_key r r'"
proof -
  obtain w w' where w: "w \<in> set (db_identity d)" "row_id w = i" "same_key (row_rec w) r"
      and w': "w' \<in> set (db_identity d)" "row_id w' = i'" "same_key (row_rec w') r'"
    using assms(2,3) by (auto simp: key_id_def)
  have "w = w'" if "i = i'"
    using assms(1) w w' that by (auto simp: identities_ok_def distinct_map inj_on_def)
  moreover have "w = w'" if "same_key r r'"
    using assms(1) w w' that unfolding identities_ok_def
    by (meson same_key_sym same_key_trans)
  ultimately show ?thesis
    using w w' same_key_sym same_key_trans by metis
qed

text \<open>The row after an upsert: the surviving row, with the record's display fields.\<close>

definition touch :: "i64 \<Rightarrow> i64 \<Rightarrow> identity_record \<Rightarrow> id_row \<Rightarrow> id_row" where
  "touch i now r w = (if row_id w = i
     then w\<lparr>row_last_seen := now,
            row_rec := (row_rec w)\<lparr>ir_comm := ir_comm r, ir_raw_cmdline := ir_raw_cmdline r,
                         ir_username := ir_username r\<rparr>\<rparr>
     else w)"

lemma touch_sel [simp]:
  "row_id (touch i now r w) = row_id w" "row_first_seen (touch i now r w) = row_first_seen w"
  "same_key (row_rec (touch i now r w)) r' \<longleftrightarrow> same_key (row_rec w) r'"
  "same_key r' (row_rec (touch i now r w)) \<longleftrightarrow> same_key r' (row_rec w)"
  by (simp_all add: touch_def same_key_def)

lemma touch_rec: "same_key (row_rec w) r \<Longrightarrow> row_id w = i \<Longrightarrow> row_rec (touch i now r w) = r"
  by (simp add: touch_def same_key_def)

lemma upsert_identity_cases:
  assumes "upsert_identity fault now r st = (res, st')"
  obtains (fault) "fault" "res = Inl Db_Fault" "st' = st"
  | (old) w where "\<not> fault" "w \<in> set (db_identity (st_db st))" "same_key (row_rec w) r"
      "res = Inr (row_id w)"
      "st_db st' = (st_db st)\<lparr>db_identity := map (touch (row_id w) (stamp now) r) (db_identity (st_db st)),
         db_seq := db_seq (st_db st) + 1\<rparr>"
      "st_zone st' = st_zone st" "st_retention st' = st_retention st"
  | (new) "\<not> fault" "\<forall>w \<in> set (db_identity (st_db st)). \<not> same_key (row_rec w) r"
      "res = Inr (db_seq (st_db st))"
      "st_db st' = (st_db st)\<lparr>db_identity := db_identity (st_db st) @
          [\<lparr>row_id = db_seq (st_db st), row_rec = r, row_first_seen = stamp now, row_last_seen = stamp now\<rparr>],
         db_seq := db_seq (st_db st) + 1\<rparr>"
      "st_zone st' = st_zone st" "st_retention st' = st_retention st"
proof (cases "find (\<lambda>row. same_key (row_rec row) r) (db_identity (st_db st))")
  case None
  then have "\<forall>w \<in> set (db_identity (st_db st)). \<not> same_key (row_rec w) r"
    by (simp add: find_None_iff)
  then show thesis
    using assms fault new None by (auto simp: upsert_identity_def Let_def split: if_splits)
next
  case (Some w)
  then have w: "w \<in> set (db_identity (st_db st))" "same_key (row_rec w) r"
    by (auto simp: find_Some_iff)
  then show thesis
    using assms fault old [OF _ w] Some
    by (auto simp: upsert_identity_def Let_def touch_def [abs_def] split: if_splits)
qed

lemma upsert_identity_id:
  "upsert_identity fault now r st = (Inr i, st') \<Longrightarrow> key_id (st_db st') r i"
  by (erule upsert_identity_cases) (auto simp: key_id_def)

lemma upsert_identity_keeps:
  assumes "upsert_identity fault now r st = (res, st')" "key_id (st_db st) r' i"
  shows "key_id (st_db st') r' i"
  using assms by (cases rule: upsert_identity_cases) (auto simp: key_id_def)

lemma upsert_identity_ids:
  assumes "upsert_identity fault now r st = (res, st')"
  shows "identity_ids (st_db st) \<subseteq> identity_ids (st_db st')"
  using assms by (cases rule: upsert_identity_cases) (auto simp: identity_ids_def image_iff)

lemma fact_ok_mono: "fact_ok ids t \<Longrightarrow> ids \<subseteq> ids' \<Longrightarrow> fact_ok ids' t"
  by (auto simp: fact_ok_def)

lemma upsert_identity_ok [wf_intro]:
  assumes "store_ok st" "upsert_identity fault now r st = (res, st')"
  shows "store_ok st'"
proof -
  let ?d = "st_db st" and ?d' = "st_db st'"
  have d: "identities_ok ?d" "watermarks_ok ?d" "\<And>tier. fact_ok (identity_ids ?d) (tier_table tier ?d)"
    using assms(1) by (simp_all add: store_ok_def db_ok_def)
  have same: "db_watermark ?d' = db_watermark ?d" "tier_table tier ?d' = tier_table tier ?d" for tier
    using assms(2) by (cases rule: upsert_identity_cases; cases tier; simp)+
  have "identities_ok ?d'"
    using assms(2)
  proof (cases rule: upsert_identity_cases)
    case fault
    then show ?thesis using d(1) by simp
  next
    case (old w)
    then show ?thesis
      using d(1) by (auto simp: identities_ok_def comp_def intro!: arg_cong [where f = "touch _ _ _"])
  next
    case new
    then show ?thesis
      using d(1) by (auto simp: identities_ok_def image_iff dest: same_key_sym)
  qed
  then show ?thesis
    using d upsert_identity_ids [OF assms(2)] same
    by (auto simp: store_ok_def db_ok_def watermarks_ok_def intro: fact_ok_mono)
qed

fun upserts :: "(i64 \<times> identity_record) list \<Rightarrow> store \<Rightarrow> (db_error + i64) list \<times> store" where
  "upserts [] st = ([], st)"
| "upserts ((now, r) # rs) st =
     (let (i, st') = upsert_identity False now r st; (is, st'') = upserts rs st' in (i # is, st''))"

lemma upserts_ok: "store_ok st \<Longrightarrow> store_ok (snd (upserts rs st))"
proof (induction rs arbitrary: st)
  case (Cons p rs)
  obtain now r where p: "p = (now, r)" by force
  obtain res st' where u: "upsert_identity False now r st = (res, st')" by force
  show ?case
    using Cons.IH [OF upsert_identity_ok [OF Cons.prems u]] by (simp add: p u split_beta)
qed simp

lemma upserts_keep: "key_id (st_db st) r i \<Longrightarrow> key_id (st_db (snd (upserts rs st))) r i"
proof (induction rs arbitrary: st)
  case (Cons p rs)
  obtain now r' where p: "p = (now, r')" by force
  obtain res st' where u: "upsert_identity False now r' st = (res, st')" by force
  show ?case
    using Cons.IH [OF upsert_identity_keeps [OF u Cons.prems]] by (simp add: p u split_beta)
qed simp

lemma upserts_ids:
  "length (fst (upserts rs st)) = length rs \<and>
   (\<forall>p < length rs. \<exists>i. fst (upserts rs st) ! p = Inr i
      \<and> key_id (st_db (snd (upserts rs st))) (snd (rs ! p)) i)"
proof (induction rs arbitrary: st)
  case (Cons p rs)
  obtain now r where p: "p = (now, r)" by force
  obtain i st' where u: "upsert_identity False now r st = (Inr i, st')"
    by (cases "find (\<lambda>row. same_key (row_rec row) r) (db_identity (st_db st))")
      (auto simp: upsert_identity_def Let_def)
  have "key_id (st_db (snd (upserts rs st'))) r i"
    by (rule upserts_keep) (rule upsert_identity_id [OF u])
  then show ?case
    using Cons.IH [of st'] by (auto simp: p u split_beta nth_Cons split: nat.split)
qed simp

lemma record_minute_cases:
  assumes "record_minute fault b i sc ing eg st = (res, st')"
  obtains (failed) e where "res = Inl e" "st' = st"
  | (stored) t where "res = Inr ()" "\<not> fault"
      "upsert_fact (identity_ids (st_db st)) (stamp b, i, sc) (Counts ing eg) (db_minute (st_db st)) = Inr t"
      "st_db st' = (st_db st)\<lparr>db_minute := t\<rparr>" "st_zone st' = st_zone st"
      "st_retention st' = st_retention st"
  using assms by (auto simp: record_minute_def split: if_splits sum.splits)

lemma tier_table_minute [simp]:
  "tier_table tier (d\<lparr>db_minute := t\<rparr>)
     = (if table_name tier = ''traffic_minute'' then t else tier_table tier d)"
  "identity_ids (d\<lparr>db_minute := t\<rparr>) = identity_ids d"
  by (cases tier; simp) (simp add: identity_ids_def)

lemma record_minute_ok [wf_intro]:
  assumes "store_ok st" "record_minute fault b i sc ing eg st = (res, st')"
  shows "store_ok st'"
  using assms(2)
proof (cases rule: record_minute_cases)
  case (stored t)
  have "fact_ok (identity_ids (st_db st)) (tier_table Tier_Minute (st_db st))"
    using assms(1) by (simp only: store_ok_def db_ok_def)
  then have "fact_ok (identity_ids (st_db st)) t"
    using stored(3) by (auto intro: upsert_fact_ok)
  with assms(1) show ?thesis
    by (simp add: store_ok_def db_ok_def stored(4) identities_ok_def watermarks_ok_def)
qed (use assms in simp)


section \<open>Properties\<close>

text \<open>C28. Surrogate ids are one-to-one with natural keys: in any sequence of upserts on a well-formed
  store, two calls return the same id exactly when their records agree on the five key fields, however
  the display fields and the calls in between differ; the well-formedness is kept.\<close>

theorem identity_ids_are_keys:
  assumes "store_ok st" "p < length rs" "q < length rs"
  shows "(fst (upserts rs st) ! p = fst (upserts rs st) ! q
      \<longleftrightarrow> same_key (snd (rs ! p)) (snd (rs ! q)))
    \<and> store_ok (snd (upserts rs st))"
proof -
  let ?d = "st_db (snd (upserts rs st))"
  have ok: "store_ok (snd (upserts rs st))" by (rule upserts_ok [OF assms(1)])
  obtain i j where i: "fst (upserts rs st) ! p = Inr i" "key_id ?d (snd (rs ! p)) i"
      and j: "fst (upserts rs st) ! q = Inr j" "key_id ?d (snd (rs ! q)) j"
    using upserts_ids [of rs st] assms(2,3) by metis
  have "identities_ok ?d" using ok by (simp add: store_ok_def db_ok_def)
  from key_id_iff [OF this i(2) j(2)] ok show ?thesis by (simp add: i(1) j(1))
qed

definition demo_record :: identity_record where
  "demo_record = \<lparr>ir_uid = 1000, ir_unit = ''user.slice'', ir_exe = ''/usr/bin/node'',
     ir_project = ''/home/x/proj'', ir_cmdline = ''npm run dev --port <n>'', ir_comm = ''node'',
     ir_raw_cmdline = ''npm run dev --port 3000'', ir_username = Some ''x''\<rparr>"

definition demo_store :: store where
  "demo_store = \<lparr>
     st_db = empty_db\<lparr>db_versions := [1], db_schema := True,
       db_identity := [\<lparr>row_id = 1, row_rec = demo_record, row_first_seen = 0, row_last_seen = 0\<rparr>],
       db_seq := 2\<rparr>,
     st_zone = Fixed 0, st_retention = default_retention\<rparr>"

lemma demo_store_ok: "store_ok demo_store"
proof -
  have "fact_ok (identity_ids (st_db demo_store)) (tier_table tier (st_db demo_store))" for tier
    by (cases tier) (simp_all add: fact_ok_def demo_store_def empty_db_def)
  then show ?thesis
    by (simp add: store_ok_def db_ok_def) (simp add: demo_store_def empty_db_def identities_ok_def watermarks_ok_def)
qed

lemma identity_ids_are_keys_witness:
  "fst (upserts [(5, demo_record), (6, demo_record\<lparr>ir_cmdline := ''npm run build''\<rparr>),
       (7, demo_record\<lparr>ir_raw_cmdline := ''npm run dev --port 3001''\<rparr>)] demo_store) ! 0
   = fst (upserts [(5, demo_record), (6, demo_record\<lparr>ir_cmdline := ''npm run build''\<rparr>),
       (7, demo_record\<lparr>ir_raw_cmdline := ''npm run dev --port 3001''\<rparr>)] demo_store) ! 2"
  by (subst conjunct1 [OF identity_ids_are_keys [OF demo_store_ok]]) (simp_all add: same_key_def)

text \<open>C29. An upsert leaves exactly one row for the natural key: the row the returned id names holds
  the record just given, display fields included, was last seen now, and keeps its first sighting;
  every other row is untouched. A failed statement changes nothing. (\<open>stamp now\<close> is now, for any time a
  \<open>TIMESTAMP\<close> can hold.)\<close>

theorem upsert_identity_row:
  assumes "store_ok st" "upsert_identity fault now r st = (res, st')"
  shows "(stampable now \<longrightarrow> stamp now = now) \<and> (case res of
      Inl e \<Rightarrow> fault \<and> st' = st
    | Inr i \<Rightarrow>
        (\<exists>w \<in> set (db_identity (st_db st')). row_id w = i \<and> row_rec w = r \<and> row_last_seen w = stamp now
           \<and> row_first_seen w = (case find (\<lambda>v. same_key (row_rec v) r) (db_identity (st_db st)) of
                None \<Rightarrow> stamp now | Some v \<Rightarrow> row_first_seen v)
           \<and> {v \<in> set (db_identity (st_db st')). same_key (row_rec v) r} = {w})
        \<and> {v \<in> set (db_identity (st_db st')). \<not> same_key (row_rec v) r}
            = {v \<in> set (db_identity (st_db st)). \<not> same_key (row_rec v) r})" (is "_ \<and> ?after")
proof (intro conjI impI)
  show "stamp now = now" if "stampable now" using that by (rule stamp_exact)
  let ?rows = "db_identity (st_db st)"
  have ids: "identities_ok (st_db st)" using assms(1) by (simp add: store_ok_def db_ok_def)
  show ?after
    using assms(2)
  proof (cases rule: upsert_identity_cases)
    case fault
    then show ?thesis by simp
  next
    case (old w)
    have uniq: "v = w" if "v \<in> set ?rows" "same_key (row_rec v) r" for v
      using ids that old(2,3) unfolding identities_ok_def by (meson same_key_sym same_key_trans)
    have alone: "touch (row_id w) (stamp now) r v = v" if "v \<in> set ?rows" "\<not> same_key (row_rec v) r" for v
      using ids that old(2,3) by (auto simp: touch_def identities_ok_def distinct_map inj_on_def)
    have "find (\<lambda>v. same_key (row_rec v) r) ?rows = Some w"
    proof (cases "find (\<lambda>v. same_key (row_rec v) r) ?rows")
      case None
      then show ?thesis using old(2,3) by (auto simp: find_None_iff)
    next
      case (Some v)
      then have "v \<in> set ?rows" "same_key (row_rec v) r" by (auto simp: find_Some_iff)
      then show ?thesis using Some uniq by simp
    qed
    moreover have "{v \<in> set (db_identity (st_db st')). same_key (row_rec v) r} = {touch (row_id w) (stamp now) r w}"
    proof -
      have "{v \<in> touch (row_id w) (stamp now) r ` set ?rows. same_key (row_rec v) r}
          = touch (row_id w) (stamp now) r ` {v \<in> set ?rows. same_key (row_rec v) r}"
        by (simp add: set_eq_iff image_iff) (metis touch_sel(3))
      also have "{v \<in> set ?rows. same_key (row_rec v) r} = {w}"
        using old(2,3) uniq by blast
      finally show ?thesis by (simp add: old(5))
    qed
    moreover have "{v \<in> set (db_identity (st_db st')). \<not> same_key (row_rec v) r}
        = {v \<in> set ?rows. \<not> same_key (row_rec v) r}"
      using alone by (auto simp: old(5) image_iff) (metis alone)
    moreover have "touch (row_id w) (stamp now) r w \<in> set (db_identity (st_db st'))"
      using old(2) by (simp add: old(5))
    moreover have "row_rec (touch (row_id w) (stamp now) r w) = r" "row_last_seen (touch (row_id w) (stamp now) r w) = stamp now"
      using old(3) by (simp_all add: touch_rec) (simp add: touch_def)
    ultimately show ?thesis
      unfolding old(4) sum.case by (intro conjI bexI [of _ "touch (row_id w) (stamp now) r w"]) simp_all
  next
    case new
    have "find (\<lambda>v. same_key (row_rec v) r) ?rows = None" using new(2) by (simp add: find_None_iff)
    then show ?thesis using new(2) by (auto simp: new(3,4))
  qed
qed

lemma upsert_identity_row_witness:
  "\<exists>w. {v \<in> set (db_identity (st_db (snd (upsert_identity False 9 demo_record demo_store)))).
      same_key (row_rec v) demo_record} = {w}"
  using upsert_identity_row [OF demo_store_ok, of False 9 demo_record]
  by (auto simp: upsert_identity_def demo_store_def Let_def split: sum.splits)

text \<open>C8. Folding a minute whose timestamp fits adds exactly its bytes to one cell: when it succeeds, every sum over the
  minute table grows by the new bytes if it selects the cell and not otherwise, nothing wraps, and
  no other table changes; it succeeds exactly when the engine does not fail, the scope is legal, the
  identity exists and neither column overflows; otherwise the store is unchanged.\<close>

theorem record_minute_exact:
  assumes "store_ok st" "stampable b" "record_minute fault b i sc ing eg st = (res, st')"
  shows "(case res of
      Inl e \<Rightarrow> st' = st
    | Inr _ \<Rightarrow>
        (\<forall>P dir. sum_where P (column dir) (db_minute (st_db st'))
           = sum_where P (column dir) (db_minute (st_db st))
             + (if P (b, i, sc) then column dir (Counts ing eg) else 0))
        \<and> st' = update_db (\<lambda>d. d\<lparr>db_minute := db_minute (st_db st')\<rparr>) st)
    \<and> (res = Inr () \<longleftrightarrow> \<not> fault \<and> sc \<in> {''external'', ''loopback''} \<and> i \<in> identity_ids (st_db st)
        \<and> uint (ingress (get_or_zero (db_minute (st_db st)) (b, i, sc))) + uint ing < 2 ^ 64
        \<and> uint (egress (get_or_zero (db_minute (st_db st)) (b, i, sc))) + uint eg < 2 ^ 64)"
proof -
  have t: "fact_ok (identity_ids (st_db st)) (db_minute (st_db st))"
    using assms(1) by (metis store_ok_def db_ok_def tier_table.simps(4))
  have "case res of Inl e \<Rightarrow> st' = st | Inr _ \<Rightarrow>
        (\<forall>P dir. sum_where P (column dir) (db_minute (st_db st'))
           = sum_where P (column dir) (db_minute (st_db st))
             + (if P (b, i, sc) then column dir (Counts ing eg) else 0))
        \<and> st' = update_db (\<lambda>d. d\<lparr>db_minute := db_minute (st_db st')\<rparr>) st"
    using assms(3)
  proof (cases rule: record_minute_cases)
    case (stored u)
    then show ?thesis by (simp add: upsert_fact_sum [OF t stored(3)] update_db_def stamp_exact [OF assms(2)])
  qed simp
  moreover have small: "uint x < 2 ^ 64" for x :: u64 using unsigned_less [of x] by simp
  have "res = Inr () \<longleftrightarrow> \<not> fault \<and> sc \<in> {''external'', ''loopback''} \<and> i \<in> identity_ids (st_db st)
        \<and> uint (ingress (get_or_zero (db_minute (st_db st)) (b, i, sc))) + uint ing < 2 ^ 64
        \<and> uint (egress (get_or_zero (db_minute (st_db st)) (b, i, sc))) + uint eg < 2 ^ 64"
    using assms(3) small [of ing] small [of eg]
    by (auto simp: record_minute_def stamp_exact [OF assms(2)] upsert_fact_def get_or_zero_def checked_add_def
        split: if_splits option.splits)
  ultimately show ?thesis by blast
qed

lemma record_minute_exact_witness:
  "\<exists>st'. record_minute False 60 1 ''external'' 100 50 demo_store = (Inr (), st')
    \<and> sum_where (\<lambda>k. fk_bucket k = 60) (column Direction_Ingress) (db_minute (st_db st')) = 100"
proof -
  obtain res st' where r: "record_minute False 60 1 ''external'' 100 50 demo_store = (res, st')" by force
  have "db_minute (st_db demo_store) = []" "1 \<in> identity_ids (st_db demo_store)"
    by (simp_all add: demo_store_def empty_db_def identity_ids_def)
  with record_minute_exact [OF demo_store_ok _ r] have "res = Inr ()" and
    "sum_where (\<lambda>k. fk_bucket k = 60) (column Direction_Ingress) (db_minute (st_db st')) = 100"
    by (auto simp: get_or_zero_def column_def stampable_def)
  with r show ?thesis by blast
qed

text \<open>Migration runs once: a fresh database comes up at version 1 with every table empty and well
  formed, migrating a migrated store changes nothing, and reopening a database keeps its content.\<close>

theorem migrations_once:
  "(\<exists>st. open_in_memory False False False = Inr st \<and> store_ok st \<and> schema_version False st = Inr 1
      \<and> (\<forall>tier. tier_table tier (st_db st) = []))
    \<and> (schema_version False st = Inr v \<and> 1 \<le> v \<longrightarrow> migrate False False st = (Inr (), st)
      \<and> store_open (Some (st_db st)) False False False
          = Inr \<lparr>st_db = st_db st, st_zone = Local, st_retention = default_retention\<rparr>)"
proof -
  let ?st = "\<lparr>st_db = empty_db\<lparr>db_versions := [1], db_schema := True\<rparr>, st_zone = Local,
    st_retention = default_retention\<rparr>"
  have fresh: "open_in_memory False False False = Inr ?st"
    by (simp add: open_in_memory_def store_init_def migrate_def schema_version_def empty_db_def
        MIGRATIONS_def init_sql_def)
  have empty: "tier_table tier (st_db ?st) = []" for tier
    by (cases tier) (simp_all add: empty_db_def)
  have "store_ok ?st"
    unfolding store_ok_def db_ok_def empty
    by (simp add: empty_db_def fact_ok_def identities_ok_def watermarks_ok_def)
  moreover have "schema_version False ?st = Inr 1"
    by (simp add: schema_version_def)
  moreover have "run_migrations False (filter (\<lambda>(v', _). v < v') MIGRATIONS) s = (Inr (), s)"
    if "1 \<le> v" for s
    using that by (simp add: MIGRATIONS_def)
  ultimately show ?thesis
    using fresh empty by (auto simp: migrate_def store_open_def store_init_def schema_version_def)
qed

lemma migrations_once_witness: "migrate False False demo_store = (Inr (), demo_store)"
  using migrations_once [of demo_store 1]
  by (simp add: schema_version_def demo_store_def empty_db_def)

end
