(* ===== verification/Rollup.thy ===== *)
theory Rollup
  imports Store
begin

text \<open>
  The rollup and prune job (\<open>procflowd/src/rollup.rs\<close>, \<open>impl Store\<close>). A step rolls the oldest
  closed bucket into a coarser tier together with the watermark, in one transaction; the job repeats
  it for each tier and then prunes. The loop is a partial function, because nothing in the code
  bounds it: that it ends is a property, which rests on the laws of \<open>bucketing\<close>. The job binds times as
  \<open>seconds * 1_000_000\<close>; here they stay in seconds, without the wrap-around of \<open>stamp\<close>, because what it multiplies
  is read back from \<open>TIMESTAMP\<close> columns, a bucket's end, or the clock less the retention, all \<open>stampable\<close>.
\<close>

section \<open>Sums wider than a column\<close>

text \<open>\<open>sum\<close> of \<open>UBIGINT\<close> is a \<open>HUGEINT\<close>; the cast back is checked.\<close>

datatype sums = Sums (sum_in: int) (sum_eg: int)

instantiation sums :: comm_monoid_add
begin

definition zero_sums :: sums where
  "zero_sums = Sums 0 0"

definition plus_sums :: "sums \<Rightarrow> sums \<Rightarrow> sums" where
  "plus_sums a b = Sums (sum_in a + sum_in b) (sum_eg a + sum_eg b)"

instance
  by standard (simp_all add: zero_sums_def plus_sums_def)

end

definition widen :: "counts \<Rightarrow> sums" where
  "widen c = Sums (uint (ingress c)) (uint (egress c))"

definition cast_ubigint :: "sums \<Rightarrow> counts option" where
  "cast_ubigint s =
     (if 0 \<le> sum_in s \<and> sum_in s < 2 ^ 64 \<and> 0 \<le> sum_eg s \<and> sum_eg s < 2 ^ 64
      then Some (Counts (of_int (sum_in s)) (of_int (sum_eg s))) else None)"


section \<open>One step\<close>

record step_fault =
  wm_fails :: bool
  oldest_fails :: bool
  batch_fails :: bool

definition watermark :: "bool \<Rightarrow> tier \<Rightarrow> store \<Rightarrow> db_error + i64 option" where
  "watermark fault tier st =
     (if fault then Inl Db_Fault
      else Inr (map_of (db_watermark (st_db st)) (watermark_name tier)))"

fun min_opt :: "i64 list \<Rightarrow> i64 option" where
  "min_opt [] = None"
| "min_opt (x # xs) = Some (case min_opt xs of None \<Rightarrow> x | Some y \<Rightarrow> min x y)"

definition oldest_bucket :: "i64 \<Rightarrow> fact_table \<Rightarrow> i64 option" where
  "oldest_bucket w t = min_opt (filter (\<lambda>b. w \<le> b) (map (\<lambda>(k, _). fk_bucket k) t))"

definition rows_between :: "i64 \<Rightarrow> i64 \<Rightarrow> fact_table \<Rightarrow> fact_table" where
  "rows_between lo hi t = filter (\<lambda>(k, _). lo \<le> fk_bucket k \<and> fk_bucket k < hi) t"

text \<open>\<open>SELECT start, identity_id, scope, sum(...) ... GROUP BY identity_id, scope\<close>.\<close>

definition group_rows :: "i64 \<Rightarrow> fact_table \<Rightarrow> (fact_key \<times> sums) list" where
  "group_rows start t =
     fold (\<lambda>(k, d). hash_bump k d) (map (\<lambda>(k, c). ((start, snd k), widen c)) t) []"

fun upsert_groups :: "i64 set \<Rightarrow> (fact_key \<times> sums) list \<Rightarrow> fact_table \<Rightarrow> db_error + fact_table" where
  "upsert_groups ids [] t = Inr t"
| "upsert_groups ids ((k, s) # gs) t =
     (case cast_ubigint s of
        None \<Rightarrow> Inl Out_Of_Range
      | Some c \<Rightarrow> (case upsert_fact ids k c t of
                     Inl e \<Rightarrow> Inl e
                   | Inr t' \<Rightarrow> upsert_groups ids gs t'))"

text \<open>
  The transaction of a step: fold the rows of \<open>src\<close> in \<open>[lower, end)\<close> into the bucket \<open>start\<close> of
  \<open>dst\<close> and move the watermark. An error rolls it back.
\<close>

definition roll_batch :: "tier \<Rightarrow> tier \<Rightarrow> i64 \<Rightarrow> i64 \<Rightarrow> i64 \<Rightarrow> db \<Rightarrow> db_error + db" where
  "roll_batch tier src start lower end_s d =
     (case upsert_groups (identity_ids d) (group_rows start (rows_between lower end_s (tier_table src d)))
             (tier_table tier d) of
        Inl e \<Rightarrow> Inl e
      | Inr t \<Rightarrow>
          if watermark_name tier \<notin> {''hour'', ''day'', ''month''} then Inl Check_Violation
          else Inr (let d' = set_tier_table tier t d
                    in d'\<lparr>db_watermark := AList.update (watermark_name tier) end_s (db_watermark d')\<rparr>))"

definition rollup_next ::
    "'d chrono \<Rightarrow> step_fault \<Rightarrow> tier \<Rightarrow> tier \<Rightarrow> i64 \<Rightarrow> store \<Rightarrow> (db_error + bool) \<times> store" where
  "rollup_next ch f tier src now_s st =
     (case watermark (wm_fails f) tier st of
        Inl e \<Rightarrow> (Inl e, st)
      | Inr wm \<Rightarrow>
          if oldest_fails f then (Inl Db_Fault, st)
          else (case oldest_bucket (case wm of None \<Rightarrow> 0 | Some w \<Rightarrow> w) (tier_table src (st_db st)) of
                  None \<Rightarrow> (Inr False, st)
                | Some oldest \<Rightarrow>
                    (case zone_bounds ch (st_zone st) tier oldest of
                       None \<Rightarrow> (Inl Panicked, st)
                     | Some (start, end_s) \<Rightarrow>
                         if end_s + GRACE_S > now_s then (Inr False, st)
                         else let lower = (case wm of None \<Rightarrow> start | Some w \<Rightarrow> max w start)
                              in if batch_fails f then (Inl Db_Fault, st)
                                 else (case roll_batch tier src start lower end_s (st_db st) of
                                         Inl e \<Rightarrow> (Inl e, st)
                                       | Inr d \<Rightarrow> (Inr True, st\<lparr>st_db := d\<rparr>)))))"


section \<open>The job\<close>

partial_function (option) rollup_tier ::
    "'d chrono \<Rightarrow> (nat \<Rightarrow> step_fault) \<Rightarrow> tier \<Rightarrow> tier \<Rightarrow> i64 \<Rightarrow> store \<Rightarrow> ((db_error + unit) \<times> store) option" where
  "rollup_tier ch fs tier src now_s st =
     (case rollup_next ch (fs 0) tier src now_s st of
        (Inl e, st') \<Rightarrow> Some (Inl e, st')
      | (Inr again, st') \<Rightarrow>
          if again then rollup_tier ch (\<lambda>n. fs (Suc n)) tier src now_s st'
          else Some (Inr (), st'))"

declare rollup_tier.simps [code]

definition delete_before :: "bool \<Rightarrow> tier \<Rightarrow> i64 \<Rightarrow> store \<Rightarrow> (db_error + unit) \<times> store" where
  "delete_before fault tier before_s st =
     (if fault then (Inl Db_Fault, st)
      else (Inr (), update_db (\<lambda>d. set_tier_table tier
              (filter (\<lambda>(k, _). \<not> fk_bucket k < before_s) (tier_table tier d)) d) st))"

text \<open>The statements of a prune, in order: which of them the engine fails.\<close>

record prune_fault =
  pf_hour_wm :: bool
  pf_day_wm :: bool
  pf_del_minute :: bool
  pf_del_hour :: bool
  pf_month_wm :: bool
  pf_del_day :: bool

definition prune :: "prune_fault \<Rightarrow> i64 \<Rightarrow> store \<Rightarrow> (db_error + unit) \<times> store" where
  "prune f now_s st =
     (let r = st_retention st in
      case watermark (pf_hour_wm f) Tier_Hour st of Inl e \<Rightarrow> (Inl e, st) | Inr hour \<Rightarrow>
      case watermark (pf_day_wm f) Tier_Day st of Inl e \<Rightarrow> (Inl e, st) | Inr day \<Rightarrow>
      case (case (hour, day) of
              (Some h, Some d) \<Rightarrow>
                delete_before (pf_del_minute f) Tier_Minute (min (min (now_s - minute_s r) h) d) st
            | _ \<Rightarrow> (Inr (), st)) of
        (Inl e, st1) \<Rightarrow> (Inl e, st1)
      | (Inr _, st1) \<Rightarrow>
          (case delete_before (pf_del_hour f) Tier_Hour (now_s - hour_s r) st1 of
             (Inl e, st2) \<Rightarrow> (Inl e, st2)
           | (Inr _, st2) \<Rightarrow>
               (case watermark (pf_month_wm f) Tier_Month st2 of
                  Inl e \<Rightarrow> (Inl e, st2)
                | Inr None \<Rightarrow> (Inr (), st2)
                | Inr (Some m) \<Rightarrow>
                    delete_before (pf_del_day f) Tier_Day (min (now_s - day_s r) m) st2)))"

record rollup_faults =
  rf_step :: "tier \<Rightarrow> nat \<Rightarrow> step_fault"
  rf_prune :: prune_fault

fun rollup_each ::
    "'d chrono \<Rightarrow> rollup_faults \<Rightarrow> i64 \<Rightarrow> (tier \<times> tier) list \<Rightarrow> store \<Rightarrow> ((db_error + unit) \<times> store) option" where
  "rollup_each ch f now_s [] st = Some (Inr (), st)"
| "rollup_each ch f now_s ((tier, src) # rest) st =
     (case rollup_tier ch (rf_step f tier) tier src now_s st of
        None \<Rightarrow> None
      | Some (Inl e, st') \<Rightarrow> Some (Inl e, st')
      | Some (Inr _, st') \<Rightarrow> rollup_each ch f now_s rest st')"

definition rollup :: "'d chrono \<Rightarrow> rollup_faults \<Rightarrow> i64 \<Rightarrow> store \<Rightarrow> ((db_error + unit) \<times> store) option" where
  "rollup ch f now_s st =
     (case rollup_each ch f now_s ROLLUPS st of
        None \<Rightarrow> None
      | Some (Inl e, st') \<Rightarrow> Some (Inl e, st')
      | Some (Inr _, st') \<Rightarrow> Some (prune (rf_prune f) now_s st'))"

definition no_step_fault :: step_fault where
  "no_step_fault = \<lparr>wm_fails = False, oldest_fails = False, batch_fails = False\<rparr>"

definition no_faults :: rollup_faults where
  "no_faults = \<lparr>rf_step = (\<lambda>_ _. no_step_fault),
     rf_prune = \<lparr>pf_hour_wm = False, pf_day_wm = False, pf_del_minute = False, pf_del_hour = False,
                 pf_month_wm = False, pf_del_day = False\<rparr>\<rparr>"


section \<open>Grouping and upserting conserve the columns\<close>

definition wide_column :: "direction \<Rightarrow> sums \<Rightarrow> int" where
  "wide_column dir s =
     (case dir of
        Direction_Ingress \<Rightarrow> sum_in s
      | Direction_Egress \<Rightarrow> sum_eg s
      | Direction_Unspecified \<Rightarrow> sum_in s + sum_eg s)"

lemma wide_column_add: "wide_column dir (a + b) = wide_column dir a + wide_column dir b"
  by (cases dir) (simp_all add: wide_column_def plus_sums_def)

lemma wide_column_widen: "wide_column dir (widen c) = column dir c"
  by (cases dir) (simp_all add: wide_column_def widen_def column_def)

lemma cast_ubigint_column: "cast_ubigint s = Some c \<Longrightarrow> column dir c = wide_column dir s"
  by (cases dir)
    (auto simp: cast_ubigint_def column_def wide_column_def take_bit_int_eq_self unsigned_of_int
      split: if_splits)

lemma sum_where_hash_bump:
  "sum_where Q (wide_column dir) (hash_bump k d t)
     = sum_where Q (wide_column dir) t + (if Q k then wide_column dir d else 0)"
  by (induction k d t rule: hash_bump.induct) (auto simp: wide_column_add)

lemma sum_where_fold_bump:
  "sum_where Q (wide_column dir) (fold (\<lambda>(k, d). hash_bump k d) ds t)
     = sum_where Q (wide_column dir) t + sum_where Q (wide_column dir) ds"
  by (induction ds arbitrary: t) (auto simp: sum_where_hash_bump)

lemma group_rows_sum [conserve]:
  "sum_where Q (wide_column dir) (group_rows start t)
     = sum_where (\<lambda>k. Q (start, snd k)) (column dir) t"
proof -
  have "sum_where Q (wide_column dir) (map (\<lambda>(k, c). ((start, snd k), widen c)) t)
      = sum_where (\<lambda>k. Q (start, snd k)) (column dir) t"
    by (induction t) (auto simp: wide_column_widen)
  then show ?thesis by (simp add: group_rows_def sum_where_fold_bump)
qed

lemma upsert_groups_ok [wf_intro]:
  "fact_ok ids t \<Longrightarrow> upsert_groups ids gs t = Inr t' \<Longrightarrow> fact_ok ids t'"
  by (induction ids gs t rule: upsert_groups.induct)
    (auto split: option.splits sum.splits intro: upsert_fact_ok)

lemma upsert_groups_sum [conserve]:
  "fact_ok ids t \<Longrightarrow> upsert_groups ids gs t = Inr t' \<Longrightarrow>
     sum_where Q (column dir) t' = sum_where Q (column dir) t + sum_where Q (wide_column dir) gs"
proof (induction ids gs t rule: upsert_groups.induct)
  case (2 ids k s gs t)
  then obtain c u where c: "cast_ubigint s = Some c" and u: "upsert_fact ids k c t = Inr u"
      and rest: "upsert_groups ids gs u = Inr t'"
    by (auto split: option.splits sum.splits)
  have "sum_where Q (column dir) t' = sum_where Q (column dir) u + sum_where Q (wide_column dir) gs"
    by (rule "2.IH" [OF c u upsert_fact_ok [OF "2.prems"(1) u] rest])
  then show ?case
    using upsert_fact_sum [OF "2.prems"(1) u, of Q dir] cast_ubigint_column [OF c, of dir] by simp
qed simp

text \<open>The oldest bucket at or after a bound.\<close>

lemma min_opt_None [simp]: "min_opt xs = None \<longleftrightarrow> xs = []"
  by (cases xs) simp_all

lemma min_opt_Some: "min_opt xs = Some m \<Longrightarrow> m \<in> set xs \<and> (\<forall>x \<in> set xs. m \<le> x)"
  by (induction xs arbitrary: m) (auto simp: min_def split: option.splits if_splits)

lemma oldest_bucket_Some:
  assumes "oldest_bucket w t = Some b"
  shows "w \<le> b \<and> b \<in> fk_bucket ` fst ` set t \<and> (\<forall>k \<in> fst ` set t. w \<le> fk_bucket k \<longrightarrow> b \<le> fk_bucket k)"
  using min_opt_Some [OF assms [unfolded oldest_bucket_def]] by (force simp: image_iff)

lemma oldest_bucket_None: "oldest_bucket w t = None \<longleftrightarrow> (\<forall>k \<in> fst ` set t. fk_bucket k < w)"
  by (force simp: oldest_bucket_def filter_empty_conv not_le)


section \<open>What a step does\<close>

definition wm_of :: "tier \<Rightarrow> store \<Rightarrow> i64" where
  "wm_of tier st = (case map_of (db_watermark (st_db st)) (watermark_name tier) of None \<Rightarrow> 0 | Some w \<Rightarrow> w)"

definition lower_bound :: "tier \<Rightarrow> store \<Rightarrow> i64 \<Rightarrow> i64" where
  "lower_bound tier st start =
     (case map_of (db_watermark (st_db st)) (watermark_name tier) of None \<Rightarrow> start | Some w \<Rightarrow> max w start)"

lemma rollup_next_cases:
  assumes "rollup_next ch f tier src now st = (res, st')"
  obtains (failed) e where "res = Inl e" "st' = st"
  | (idle) "res = Inr False" "st' = st"
      "oldest_bucket (wm_of tier st) (tier_table src (st_db st)) = None \<or>
       (\<exists>b s e. oldest_bucket (wm_of tier st) (tier_table src (st_db st)) = Some b
          \<and> zone_bounds ch (st_zone st) tier b = Some (s, e) \<and> now < e + GRACE_S)"
  | (rolled) b s e d where "res = Inr True" "st' = st\<lparr>st_db := d\<rparr>"
      "oldest_bucket (wm_of tier st) (tier_table src (st_db st)) = Some b"
      "zone_bounds ch (st_zone st) tier b = Some (s, e)" "e + GRACE_S \<le> now"
      "roll_batch tier src s (lower_bound tier st s) e (st_db st) = Inr d"
  using assms
  by (auto simp: rollup_next_def watermark_def wm_of_def lower_bound_def Let_def not_less
      split: if_splits option.splits sum.splits prod.splits)

lemma rollups_pairs:
  assumes "(tier, src) \<in> set ROLLUPS"
  shows "table_name src \<noteq> table_name tier" "watermark_name tier \<in> {''hour'', ''day'', ''month''}"
    "tier \<in> {Tier_Hour, Tier_Day, Tier_Month}"
  using assms by (auto simp: ROLLUPS_def watermark_name_def)

lemma db_ok_facts: "db_ok d \<Longrightarrow> fact_ok (identity_ids d) (tier_table tier d)"
  by (simp add: db_ok_def)

lemma tier_table_watermark [simp]:
  "tier_table tier (d\<lparr>db_watermark := w\<rparr>) = tier_table tier d"
  "identity_ids (d\<lparr>db_watermark := w\<rparr>) = identity_ids d"
  by (cases tier; simp) (simp add: identity_ids_def)

lemma roll_batch_Inr:
  assumes "roll_batch tier src s lo e d = Inr d'"
  obtains t where
    "upsert_groups (identity_ids d) (group_rows s (rows_between lo e (tier_table src d))) (tier_table tier d) = Inr t"
    "d' = (set_tier_table tier t d)\<lparr>db_watermark := AList.update (watermark_name tier) e (db_watermark d)\<rparr>"
    "watermark_name tier \<in> {''hour'', ''day'', ''month''}"
  using assms by (auto simp: roll_batch_def Let_def split: sum.splits if_splits)

lemma roll_batch_ok [wf_intro]:
  assumes "db_ok d" "roll_batch tier src s lo e d = Inr d'" shows "db_ok d'"
  using assms(2)
proof (rule roll_batch_Inr)
  fix t
  assume u: "upsert_groups (identity_ids d) (group_rows s (rows_between lo e (tier_table src d))) (tier_table tier d) = Inr t"
    and d': "d' = (set_tier_table tier t d)\<lparr>db_watermark := AList.update (watermark_name tier) e (db_watermark d)\<rparr>"
    and name: "watermark_name tier \<in> {''hour'', ''day'', ''month''}"
  have "fact_ok (identity_ids d) t"
    by (rule upsert_groups_ok [OF db_ok_facts [OF assms(1)] u])
  then have "fact_ok (identity_ids d) (tier_table T (set_tier_table tier t d))" for T
    using assms(1) by (simp add: tier_table_set db_ok_def)
  moreover have "watermarks_ok d'"
    using assms(1) name by (auto simp: d' db_ok_def watermarks_ok_def distinct_update dom_update)
  ultimately show ?thesis
    using assms(1) by (simp add: d' db_ok_def identities_ok_def)
qed

lemma roll_batch_frame:
  assumes "roll_batch tier src s lo e d = Inr d'"
  shows "table_name T \<noteq> table_name tier \<Longrightarrow> tier_table T d' = tier_table T d"
    and "map_of (db_watermark d') = (map_of (db_watermark d))(watermark_name tier \<mapsto> e)"
    and "db_identity d' = db_identity d" "db_seq d' = db_seq d"
  using assms by (auto elim!: roll_batch_Inr simp: tier_table_set update_conv')

lemma sum_where_between:
  "sum_where Q f (rows_between lo hi t) = sum_where (\<lambda>k. lo \<le> fk_bucket k \<and> fk_bucket k < hi \<and> Q k) f t"
  unfolding rows_between_def sum_where_filter by (rule sum_where_cong) auto

lemma roll_batch_sum [conserve]:
  assumes "db_ok d" "roll_batch tier src s lo e d = Inr d'"
  shows "sum_where Q (column dir) (tier_table tier d')
    = sum_where Q (column dir) (tier_table tier d)
      + sum_where (\<lambda>k. lo \<le> fk_bucket k \<and> fk_bucket k < e \<and> Q (s, snd k)) (column dir) (tier_table src d)"
  using assms(2)
proof (rule roll_batch_Inr)
  fix t
  assume u: "upsert_groups (identity_ids d) (group_rows s (rows_between lo e (tier_table src d))) (tier_table tier d) = Inr t"
    and d': "d' = (set_tier_table tier t d)\<lparr>db_watermark := AList.update (watermark_name tier) e (db_watermark d)\<rparr>"
  show ?thesis
    using upsert_groups_sum [OF db_ok_facts [OF assms(1)] u, of Q dir]
    by (simp add: d' tier_table_set group_rows_sum sum_where_between)
qed


section \<open>The bucketed view\<close>

text \<open>
  What a tier stands for: its own rows, plus the source rows not yet rolled into it, each counted in
  the bucket it will roll into. \<open>Q\<close> selects by bucket start, identity and scope. Rolling up is a
  change of representation: it leaves the view as it is.
\<close>

definition start_of :: "(i64 \<Rightarrow> (i64 \<times> i64) option) \<Rightarrow> i64 \<Rightarrow> i64" where
  "start_of bounds t = (case bounds t of None \<Rightarrow> t | Some (s, _) \<Rightarrow> s)"

definition tier_view ::
    "(i64 \<Rightarrow> (i64 \<times> i64) option) \<Rightarrow> tier \<Rightarrow> tier \<Rightarrow> store \<Rightarrow> direction \<Rightarrow> (fact_key \<Rightarrow> bool) \<Rightarrow> int" where
  "tier_view bounds tier src st dir Q =
     sum_where Q (column dir) (tier_table tier (st_db st)) +
     sum_where (\<lambda>k. wm_of tier st \<le> fk_bucket k \<and> Q (start_of bounds (fk_bucket k), snd k))
       (column dir) (tier_table src (st_db st))"

definition since_epoch :: "fact_table \<Rightarrow> bool" where
  "since_epoch t \<longleftrightarrow> (\<forall>k \<in> fst ` set t. 0 \<le> fk_bucket k)"

lemma rolled_rows:
  assumes "bucketing bounds" "oldest_bucket (wm_of tier st) t = Some b" "bounds b = Some (s, e)"
    and "since_epoch t" "k \<in> fst ` set t"
  shows "lower_bound tier st s \<le> fk_bucket k \<and> fk_bucket k < e
      \<longleftrightarrow> wm_of tier st \<le> fk_bucket k \<and> fk_bucket k < e"
    and "wm_of tier st \<le> fk_bucket k \<Longrightarrow> fk_bucket k < e \<Longrightarrow> start_of bounds (fk_bucket k) = s"
    and "e \<le> fk_bucket k \<Longrightarrow> wm_of tier st \<le> fk_bucket k"
proof -
  have old: "wm_of tier st \<le> b" "\<forall>k \<in> fst ` set t. wm_of tier st \<le> fk_bucket k \<longrightarrow> b \<le> fk_bucket k"
    using oldest_bucket_Some [OF assms(2)] by auto
  have within: "s \<le> b" "b < e" using bucketing.within [OF assms(1,3)] by auto
  have ge: "s \<le> fk_bucket k" if "wm_of tier st \<le> fk_bucket k"
    using old(2) assms(5) within that by fastforce
  have "0 \<le> fk_bucket k" using assms(4,5) unfolding since_epoch_def by blast
  then show "lower_bound tier st s \<le> fk_bucket k \<and> fk_bucket k < e
      \<longleftrightarrow> wm_of tier st \<le> fk_bucket k \<and> fk_bucket k < e"
    using ge by (auto simp: lower_bound_def wm_of_def split: option.splits)
  show "start_of bounds (fk_bucket k) = s" if "wm_of tier st \<le> fk_bucket k" "fk_bucket k < e"
    using bucketing.same [OF assms(1,3) ge [OF that(1)] that(2)] by (simp add: start_of_def)
  show "wm_of tier st \<le> fk_bucket k" if "e \<le> fk_bucket k" using old within that by simp
qed

lemma rollup_next_view [conserve]:
  assumes B: "bucketing (zone_bounds ch (st_zone st) tier)" and pair: "(tier, src) \<in> set ROLLUPS"
    and ok: "store_ok st" and epoch: "since_epoch (tier_table src (st_db st))"
    and step: "rollup_next ch f tier src now st = (res, st')"
  shows "tier_view (zone_bounds ch (st_zone st) tier) tier src st' dir Q
    = tier_view (zone_bounds ch (st_zone st) tier) tier src st dir Q"
  using step
proof (cases rule: rollup_next_cases)
  case (rolled b s e d)
  let ?B = "zone_bounds ch (st_zone st) tier" and ?src = "tier_table src (st_db st)"
  let ?w = "wm_of tier st" and ?lo = "lower_bound tier st s"
  note rows = rolled_rows [OF B rolled(3,4) epoch]
  have src': "tier_table src (st_db st') = ?src"
    using roll_batch_frame(1) [OF rolled(6) rollups_pairs(1) [OF pair]] by (simp add: rolled(2))
  have wm': "wm_of tier st' = e"
    using roll_batch_frame(2) [OF rolled(6)] by (simp add: rolled(2) wm_of_def)
  have "sum_where (\<lambda>k. ?w \<le> fk_bucket k \<and> Q (start_of ?B (fk_bucket k), snd k)) (column dir) ?src
      = sum_where (\<lambda>k. (?w \<le> fk_bucket k \<and> Q (start_of ?B (fk_bucket k), snd k)) \<and> fk_bucket k < e) (column dir) ?src
      + sum_where (\<lambda>k. (?w \<le> fk_bucket k \<and> Q (start_of ?B (fk_bucket k), snd k)) \<and> \<not> fk_bucket k < e) (column dir) ?src"
    by (rule sum_where_split)
  also have "sum_where (\<lambda>k. (?w \<le> fk_bucket k \<and> Q (start_of ?B (fk_bucket k), snd k)) \<and> fk_bucket k < e) (column dir) ?src
      = sum_where (\<lambda>k. ?lo \<le> fk_bucket k \<and> fk_bucket k < e \<and> Q (s, snd k)) (column dir) ?src"
    by (rule sum_where_cong) (metis rows(1,2) fst_conv imageI)
  also have "sum_where (\<lambda>k. (?w \<le> fk_bucket k \<and> Q (start_of ?B (fk_bucket k), snd k)) \<and> \<not> fk_bucket k < e) (column dir) ?src
      = sum_where (\<lambda>k. e \<le> fk_bucket k \<and> Q (start_of ?B (fk_bucket k), snd k)) (column dir) ?src"
    by (rule sum_where_cong) (metis rows(3) fst_conv imageI not_less)
  finally show ?thesis
    using roll_batch_sum [OF _ rolled(6), of Q dir] ok src' wm'
    by (simp add: tier_view_def rolled(2) store_ok_def)
qed simp_all



section \<open>The loop\<close>

text \<open>
  A property every step keeps holds after the loop, and after a loop without error some step finds
  nothing more to do.
\<close>

lemma rollup_tier_induct:
  assumes step: "\<And>f s s' r. P s \<Longrightarrow> rollup_next ch f tier src now s = (r, s') \<Longrightarrow> P s'"
    and run: "rollup_tier ch fs tier src now st = Some (res, st')" and "P st"
  shows "P st' \<and> (res = Inr () \<longrightarrow> (\<exists>f. rollup_next ch f tier src now st' = (Inr False, st')))"
proof -
  have "c = ch \<and> ti = tier \<and> sr = src \<and> n = now \<and> P s \<longrightarrow>
      P (snd y) \<and> (fst y = Inr () \<longrightarrow> (\<exists>f. rollup_next ch f tier src now (snd y) = (Inr False, snd y)))"
    if "rollup_tier c fs ti sr n s = Some y" for c fs ti sr n s y
    using _ that
  proof (rule rollup_tier.raw_induct)
    fix loop c fs ti sr n s y
    assume IH: "\<And>c fs ti sr n s y. loop c fs ti sr n s = Some y \<Longrightarrow>
        c = ch \<and> ti = tier \<and> sr = src \<and> n = now \<and> P s \<longrightarrow> P (snd y) \<and>
        (fst y = Inr () \<longrightarrow> (\<exists>f. rollup_next ch f tier src now (snd y) = (Inr False, snd y)))"
      and body: "(case rollup_next c (fs 0) ti sr n s of
          (Inl e, st') \<Rightarrow> Some (Inl e, st')
        | (Inr again, st') \<Rightarrow> if again then loop c (\<lambda>k. fs (Suc k)) ti sr n st' else Some (Inr (), st'))
        = Some y"
    obtain r s1 where s1: "rollup_next c (fs 0) ti sr n s = (r, s1)" by force
    show "c = ch \<and> ti = tier \<and> sr = src \<and> n = now \<and> P s \<longrightarrow> P (snd y) \<and>
        (fst y = Inr () \<longrightarrow> (\<exists>f. rollup_next ch f tier src now (snd y) = (Inr False, snd y)))"
    proof (intro impI)
      assume *: "c = ch \<and> ti = tier \<and> sr = src \<and> n = now \<and> P s"
      then have P1: "P s1" using step s1 by blast
      have stay: "s1 = s" if "r = Inr False"
        using s1 that by (cases rule: rollup_next_cases) simp_all
      show "P (snd y) \<and>
          (fst y = Inr () \<longrightarrow> (\<exists>f. rollup_next ch f tier src now (snd y) = (Inr False, snd y)))"
        using body IH P1 s1 * stay by (auto split: sum.splits if_splits)
    qed
  qed
  from this [OF run] show ?thesis using \<open>P st\<close> by simp
qed

lemma rollup_tier_keeps:
  assumes "rollup_tier ch fs tier src now st = Some (res, st')" "P st"
    and "\<forall>f s r s'. P s \<longrightarrow> rollup_next ch f tier src now s = (r, s') \<longrightarrow> P s'"
  shows "P st'"
  using rollup_tier_induct [of P ch tier src now, OF _ assms(1,2)] assms(3) by blast

text \<open>The loop ends: every step leaves fewer source rows at or past the watermark.\<close>

definition unrolled_count :: "tier \<Rightarrow> tier \<Rightarrow> store \<Rightarrow> nat" where
  "unrolled_count tier src st =
     length (filter (\<lambda>(k, _). wm_of tier st \<le> fk_bucket k) (tier_table src (st_db st)))"

lemma rollup_next_zone: "rollup_next ch f tier src now st = (res, st') \<Longrightarrow> st_zone st' = st_zone st \<and> st_retention st' = st_retention st"
  by (erule rollup_next_cases) simp_all

lemma length_filter_less:
  "x \<in> set xs \<Longrightarrow> P x \<Longrightarrow> \<not> Q x \<Longrightarrow> (\<And>y. Q y \<Longrightarrow> P y) \<Longrightarrow> length (filter Q xs) < length (filter P xs)"
proof (induction xs)
  case (Cons a xs)
  have "length (filter Q xs) \<le> length (filter P xs)"
    using Cons.prems(4) by (induction xs) (auto simp: le_Suc_eq)
  then show ?case using Cons by (auto simp: less_Suc_eq_le)
qed simp

lemma rollup_next_decreases:
  assumes B: "bucketing (zone_bounds ch (st_zone st) tier)" and pair: "(tier, src) \<in> set ROLLUPS"
    and step: "rollup_next ch f tier src now st = (Inr True, st')"
  shows "unrolled_count tier src st' < unrolled_count tier src st"
  using step
proof (cases rule: rollup_next_cases)
  case (rolled b s e d)
  have "b < e" using bucketing.within [OF B rolled(4)] by simp
  moreover obtain k c where k: "(k, c) \<in> set (tier_table src (st_db st))" "fk_bucket k = b" "wm_of tier st \<le> b"
    using oldest_bucket_Some [OF rolled(3)] by force
  ultimately have "length (filter (\<lambda>(k, _). e \<le> fk_bucket k) (tier_table src (st_db st)))
      < length (filter (\<lambda>(k, _). wm_of tier st \<le> fk_bucket k) (tier_table src (st_db st)))"
    by (intro length_filter_less [OF k(1)]) auto
  moreover have "tier_table src d = tier_table src (st_db st)" "wm_of tier st' = e"
    using roll_batch_frame(1) [OF rolled(6) rollups_pairs(1) [OF pair]]
      roll_batch_frame(2) [OF rolled(6)] by (simp_all add: rolled(2) wm_of_def)
  ultimately show ?thesis by (simp add: unrolled_count_def rolled(2))
qed simp_all

lemma rollup_tier_ends:
  assumes B: "bucketing (zone_bounds ch (st_zone st) tier)" and pair: "(tier, src) \<in> set ROLLUPS"
  shows "\<exists>res st'. rollup_tier ch fs tier src now st = Some (res, st')"
  using B
proof (induction "unrolled_count tier src st" arbitrary: fs st rule: less_induct)
  case less
  obtain r s where s: "rollup_next ch (fs 0) tier src now st = (r, s)" by force
  show ?case
  proof (cases "r = Inr True")
    case True
    have "\<exists>res st'. rollup_tier ch (\<lambda>n. fs (Suc n)) tier src now s = Some (res, st')"
      using less s True rollup_next_decreases [OF less.prems pair] rollup_next_zone [OF s] by auto
    then show ?thesis
      using s True by (subst rollup_tier.simps) simp
  next
    case False
    then show ?thesis using s by (subst rollup_tier.simps) (auto split: sum.splits)
  qed
qed


section \<open>Pruning\<close>

text \<open>Which rows a prune deletes: past retention, and already in every tier built from them.\<close>

definition wm_opt :: "tier \<Rightarrow> store \<Rightarrow> i64 option" where
  "wm_opt tier st = map_of (db_watermark (st_db st)) (watermark_name tier)"

definition before_wm :: "tier \<Rightarrow> store \<Rightarrow> i64 \<Rightarrow> bool" where
  "before_wm tier st b \<longleftrightarrow> (\<exists>w. wm_opt tier st = Some w \<and> b < w)"

fun expired :: "store \<Rightarrow> i64 \<Rightarrow> tier \<Rightarrow> i64 \<Rightarrow> bool" where
  "expired st now Tier_Hour b \<longleftrightarrow> b < now - hour_s (st_retention st)"
| "expired st now Tier_Day b \<longleftrightarrow> b < now - day_s (st_retention st) \<and> before_wm Tier_Month st b"
| "expired st now Tier_Month b \<longleftrightarrow> False"
| "expired st now _ b \<longleftrightarrow> b < now - minute_s (st_retention st)
     \<and> before_wm Tier_Hour st b \<and> before_wm Tier_Day st b"

definition kept :: "store \<Rightarrow> i64 \<Rightarrow> tier \<Rightarrow> fact_table" where
  "kept st now tier = filter (\<lambda>(k, _). \<not> expired st now tier (fk_bucket k)) (tier_table tier (st_db st))"

lemma delete_before_cases:
  assumes "delete_before fault tier b st = (res, st')"
  obtains (failed) e where "res = Inl e" "st' = st"
  | (deleted) "res = Inr ()" "st' = update_db (\<lambda>d. set_tier_table tier
      (filter (\<lambda>(k, _). \<not> fk_bucket k < b) (tier_table tier d)) d) st"
  using assms by (auto simp: delete_before_def split: if_splits)

lemma filter_lt_min:
  "filter (\<lambda>(k, _). \<not> fk_bucket k < min a b) t = filter (\<lambda>(k, _). \<not> (fk_bucket k < a \<and> fk_bucket k < b)) t"
  by (rule filter_cong) auto

lemma wm_opt_update [simp]: "wm_opt T (update_db (\<lambda>d. set_tier_table tier t d) st) = wm_opt T st"
  "wm_opt T (update_db (\<lambda>d. set_tier_table tier (f d) d) st) = wm_opt T st"
  by (simp_all add: wm_opt_def)

lemma watermark_wm_opt: "watermark fault tier st = (if fault then Inl Db_Fault else Inr (wm_opt tier st))"
  by (simp add: watermark_def wm_opt_def)

text \<open>Each statement of a prune either keeps its table or drops exactly the expired rows.\<close>

definition prune_rel :: "i64 \<Rightarrow> store \<Rightarrow> store \<Rightarrow> tier set \<Rightarrow> bool" where
  "prune_rel now st st' T \<longleftrightarrow>
     (\<forall>tier. tier_table tier (st_db st') =
        (if table_name tier \<in> table_name ` T then kept st now tier else tier_table tier (st_db st)))
     \<and> db_identity (st_db st') = db_identity (st_db st) \<and> db_seq (st_db st') = db_seq (st_db st)
     \<and> db_watermark (st_db st') = db_watermark (st_db st)
     \<and> st_zone st' = st_zone st \<and> st_retention st' = st_retention st"

lemma expired_table: "table_name T = table_name T' \<Longrightarrow> expired st now T b = expired st now T' b"
  by (cases T; cases T') simp_all

lemma tier_table_cong: "table_name T = table_name T' \<Longrightarrow> tier_table T d = tier_table T' d"
  by (cases T; cases T') simp_all

lemma kept_cong:
  assumes "table_name T = table_name T'" shows "kept st now T = kept st now T'"
  unfolding kept_def tier_table_cong [OF assms] expired_table [OF assms] ..

lemma prune_rel_refl: "prune_rel now st st {}"
  by (simp add: prune_rel_def)

text \<open>Adding a stage: one more table holds its kept rows, the others are as they were.\<close>

lemma prune_rel_insert:
  assumes rel: "prune_rel now st st1 T"
    and own: "tier_table tier (st_db st2) = kept st now tier"
    and others: "\<And>T'. table_name T' \<noteq> table_name tier \<Longrightarrow> tier_table T' (st_db st2) = tier_table T' (st_db st1)"
    and frame: "db_identity (st_db st2) = db_identity (st_db st1)" "db_seq (st_db st2) = db_seq (st_db st1)"
      "db_watermark (st_db st2) = db_watermark (st_db st1)"
      "st_zone st2 = st_zone st1" "st_retention st2 = st_retention st1"
  shows "prune_rel now st st2 (insert tier T)"
proof -
  have "tier_table T' (st_db st2) =
      (if table_name T' \<in> table_name ` insert tier T then kept st now T' else tier_table T' (st_db st))" for T'
  proof (cases "table_name T' = table_name tier")
    case True
    have "tier_table T' (st_db st2) = kept st now T'"
      unfolding tier_table_cong [OF True] kept_cong [OF True] by (rule own)
    with True show ?thesis by (metis image_eqI insertI1)
  next
    case False
    with others [OF False] rel show ?thesis
      unfolding prune_rel_def by (metis image_insert insert_iff)
  qed
  then show ?thesis using rel frame unfolding prune_rel_def by metis
qed

lemma prune_rel_delete:
  assumes rel: "prune_rel now st st1 T" and "table_name tier \<notin> table_name ` T"
    and rows: "filter (\<lambda>(k, _). \<not> fk_bucket k < b) (tier_table tier (st_db st)) = kept st now tier"
    and del: "delete_before fault tier b st1 = (res, st2)"
  shows "(res = Inr () \<and> prune_rel now st st2 (insert tier T)) \<or> (\<exists>e. res = Inl e \<and> prune_rel now st st2 T)"
  using del
proof (cases rule: delete_before_cases)
  case deleted
  have "tier_table tier (st_db st1) = tier_table tier (st_db st)"
    using rel assms(2) unfolding prune_rel_def by metis
  then have "prune_rel now st st2 (insert tier T)"
    using rows by (intro prune_rel_insert [OF rel]) (simp_all add: deleted(2) tier_table_set)
  then show ?thesis using deleted(1) by simp
qed (use rel in auto)

lemma prune_rel_skip:
  assumes rel: "prune_rel now st st1 T" and all: "kept st now tier = tier_table tier (st_db st)"
  shows "prune_rel now st st1 (insert tier T)"
proof (intro prune_rel_insert [OF rel])
  show "tier_table tier (st_db st1) = kept st now tier"
    using rel all unfolding prune_rel_def by metis
qed simp_all

lemma kept_minute:
  "wm_opt Tier_Hour st = Some h \<Longrightarrow> wm_opt Tier_Day st = Some d \<Longrightarrow>
     filter (\<lambda>(k, _). \<not> fk_bucket k < min (min (now - minute_s (st_retention st)) h) d)
       (tier_table Tier_Minute (st_db st)) = kept st now Tier_Minute"
  unfolding kept_def by (rule filter_cong) (auto simp: before_wm_def)

lemma kept_day:
  "wm_opt Tier_Month st = Some m \<Longrightarrow>
     filter (\<lambda>(k, _). \<not> fk_bucket k < min (now - day_s (st_retention st)) m)
       (tier_table Tier_Day (st_db st)) = kept st now Tier_Day"
  unfolding kept_def by (rule filter_cong) (auto simp: before_wm_def)

lemma kept_hour:
  "filter (\<lambda>(k, _). \<not> fk_bucket k < now - hour_s (st_retention st))
     (tier_table Tier_Hour (st_db st)) = kept st now Tier_Hour"
  unfolding kept_def by (rule filter_cong) auto

lemma kept_all:
  "(\<And>b. \<not> expired st now tier b) \<Longrightarrow> kept st now tier = tier_table tier (st_db st)"
  by (simp add: kept_def case_prod_unfold)

text \<open>A stage of a prune that either succeeded with its table pruned, or failed and changed nothing.\<close>

definition stage :: "i64 \<Rightarrow> store \<Rightarrow> (db_error + unit) \<times> store \<Rightarrow> tier set \<Rightarrow> tier \<Rightarrow> bool" where
  "stage now st p T tier \<longleftrightarrow>
     (fst p = Inr () \<and> prune_rel now st (snd p) (insert tier T)) \<or>
     (\<exists>e. fst p = Inl e \<and> prune_rel now st (snd p) T)"

lemma prune_stages:
  assumes "prune f now st = p"
  shows "(\<exists>T. prune_rel now st (snd p) T) \<and>
    (fst p = Inr () \<longrightarrow> prune_rel now st (snd p) {Tier_Day, Tier_Hour, Tier_Minute})"
proof (cases "pf_hour_wm f \<or> pf_day_wm f")
  case True
  then have "p = (Inl Db_Fault, st)"
    using assms by (cases "pf_hour_wm f") (simp_all add: prune_def Let_def watermark_wm_opt)
  then show ?thesis using prune_rel_refl [of now st] by auto
next
  case False
  let ?r = "st_retention st"
  define p1 where "p1 = (case (wm_opt Tier_Hour st, wm_opt Tier_Day st) of
      (Some h, Some d) \<Rightarrow>
        delete_before (pf_del_minute f) Tier_Minute (min (min (now - minute_s ?r) h) d) st
    | _ \<Rightarrow> (Inr (), st))"
  have 1: "stage now st p1 {} Tier_Minute"
  proof (cases "\<exists>h d. wm_opt Tier_Hour st = Some h \<and> wm_opt Tier_Day st = Some d")
    case True
    then obtain h d where hd: "wm_opt Tier_Hour st = Some h" "wm_opt Tier_Day st = Some d" by blast
    show ?thesis
      using prune_rel_delete [OF prune_rel_refl _ kept_minute [OF hd]]
      by (cases p1) (simp add: p1_def hd stage_def)
  next
    case no: False
    then have "p1 = (Inr (), st)" by (auto simp: p1_def split: option.split)
    moreover have "prune_rel now st st {Tier_Minute}"
      by (rule prune_rel_skip [OF prune_rel_refl kept_all]) (use no in \<open>auto simp: before_wm_def\<close>)
    ultimately show ?thesis by (simp add: stage_def)
  qed
  define p2 where "p2 = delete_before (pf_del_hour f) Tier_Hour (now - hour_s ?r) (snd p1)"
  have 2: "stage now st p2 {Tier_Minute} Tier_Hour" if "fst p1 = Inr ()"
    using 1 that prune_rel_delete [OF _ _ kept_hour, of now st "snd p1" "{Tier_Minute}"]
    by (cases p2) (simp add: stage_def p2_def)
  define p3 where "p3 = (case wm_opt Tier_Month st of None \<Rightarrow> (Inr (), snd p2)
      | Some m \<Rightarrow> delete_before (pf_del_day f) Tier_Day (min (now - day_s ?r) m) (snd p2))"
  have 3: "stage now st p3 {Tier_Hour, Tier_Minute} Tier_Day" if "fst p1 = Inr ()" "fst p2 = Inr ()"
  proof -
    have rel: "prune_rel now st (snd p2) {Tier_Hour, Tier_Minute}"
      using 2 [OF that(1)] that(2) by (simp add: stage_def)
    show ?thesis
    proof (cases "wm_opt Tier_Month st")
      case None
      moreover have "prune_rel now st (snd p2) {Tier_Day, Tier_Hour, Tier_Minute}"
        by (rule prune_rel_skip [OF rel kept_all]) (use None in \<open>auto simp: before_wm_def\<close>)
      ultimately show ?thesis by (simp add: stage_def p3_def)
    next
      case (Some m)
      then show ?thesis
        using prune_rel_delete [OF rel _ kept_day [OF Some]] by (cases p3) (simp add: stage_def p3_def)
    qed
  qed
  have wm: "wm_opt Tier_Month (snd p2) = wm_opt Tier_Month st" if "fst p1 = Inr ()"
    using 2 [OF that] by (auto simp: stage_def prune_rel_def wm_opt_def)
  have p: "p = (case p1 of (Inl e, st1) \<Rightarrow> (Inl e, st1) | (Inr _, st1) \<Rightarrow>
      (case delete_before (pf_del_hour f) Tier_Hour (now - hour_s ?r) st1 of
         (Inl e, st2) \<Rightarrow> (Inl e, st2)
       | (Inr _, st2) \<Rightarrow>
           (case watermark (pf_month_wm f) Tier_Month st2 of
              Inl e \<Rightarrow> (Inl e, st2)
            | Inr None \<Rightarrow> (Inr (), st2)
            | Inr (Some m) \<Rightarrow> delete_before (pf_del_day f) Tier_Day (min (now - day_s ?r) m) st2)))"
    using assms False by (simp add: prune_def Let_def watermark_wm_opt p1_def)
  obtain r1 s1 where p1: "p1 = (r1, s1)" by force
  show ?thesis
  proof (cases r1)
    case (Inl e)
    then show ?thesis using 1 unfolding p p1 by (auto simp: stage_def p1)
  next
    case r1: (Inr u)
    obtain r2 s2 where p2: "p2 = (r2, s2)" by force
    have del: "delete_before (pf_del_hour f) Tier_Hour (now - hour_s ?r) s1 = (r2, s2)"
      using p2 by (simp add: p2_def p1)
    have st2: "stage now st (r2, s2) {Tier_Minute} Tier_Hour" using 2 r1 by (simp add: p1 p2)
    show ?thesis
    proof (cases r2)
      case (Inl e)
      then show ?thesis using st2 unfolding p p1 r1 by (auto simp: stage_def del)
    next
      case r2: (Inr v)
      have st3: "stage now st p3 {Tier_Hour, Tier_Minute} Tier_Day" using 3 r1 r2 by (simp add: p1 p2)
      have "p = (if pf_month_wm f then (Inl Db_Fault, s2) else p3)"
        using wm r1 by (simp add: p p1 del r2 watermark_wm_opt p3_def p2 split: option.split)
      then show ?thesis using st2 st3 r2 by (auto simp: stage_def)
    qed
  qed
qed


section \<open>The whole job\<close>

lemma rollup_next_frame:
  assumes "rollup_next ch f tier src now st = (r, st')"
  shows "table_name T \<noteq> table_name tier \<Longrightarrow> tier_table T (st_db st') = tier_table T (st_db st)"
    and "watermark_name T \<noteq> watermark_name tier \<Longrightarrow> wm_opt T st' = wm_opt T st"
    and "db_identity (st_db st') = db_identity (st_db st)"
  using assms
  by (cases rule: rollup_next_cases; simp add: roll_batch_frame wm_opt_def)+

lemma wm_of_opt: "wm_of tier st = (case wm_opt tier st of None \<Rightarrow> 0 | Some w \<Rightarrow> w)"
  by (simp add: wm_of_def wm_opt_def)

lemma rollup_next_ok [wf_intro]:
  assumes "store_ok st" "rollup_next ch f tier src now st = (r, st')" shows "store_ok st'"
  using assms(2)
  by (cases rule: rollup_next_cases) (use assms(1) roll_batch_ok in \<open>auto simp: store_ok_def\<close>)

lemma prune_ok [wf_intro]:
  assumes "store_ok st" "prune f now st = (r, st')" shows "store_ok st'"
proof -
  obtain T where rel: "prune_rel now st st' T" using prune_stages [OF assms(2)] by auto
  have ids: "identity_ids (st_db st') = identity_ids (st_db st)"
    using rel by (simp add: prune_rel_def identity_ids_def)
  have "fact_ok (identity_ids (st_db st)) (kept st now tier)" for tier
    using db_ok_facts [OF assms(1) [unfolded store_ok_def], of tier]
    by (auto simp: kept_def fact_ok_def distinct_map_filter)
  then have "fact_ok (identity_ids (st_db st')) (tier_table tier (st_db st'))" for tier
    using rel assms(1) unfolding ids by (simp add: prune_rel_def store_ok_def db_ok_def)
  then show ?thesis
    using rel assms(1)
    by (simp add: store_ok_def db_ok_def identities_ok_def watermarks_ok_def prune_rel_def)
qed

text \<open>The stages of a job: three loops, each run only if the one before succeeded, then the prune.\<close>

lemma rollup_stages:
  assumes "rollup ch f now st = Some (res, st')"
  obtains r1 s1 where "rollup_tier ch (rf_step f Tier_Hour) Tier_Hour Tier_Minute now st = Some (r1, s1)"
      "r1 \<noteq> Inr ()" "res = r1" "st' = s1"
  | s1 r2 s2 where "rollup_tier ch (rf_step f Tier_Hour) Tier_Hour Tier_Minute now st = Some (Inr (), s1)"
      "rollup_tier ch (rf_step f Tier_Day) Tier_Day Tier_Minute now s1 = Some (r2, s2)"
      "r2 \<noteq> Inr ()" "res = r2" "st' = s2"
  | s1 s2 r3 s3 where "rollup_tier ch (rf_step f Tier_Hour) Tier_Hour Tier_Minute now st = Some (Inr (), s1)"
      "rollup_tier ch (rf_step f Tier_Day) Tier_Day Tier_Minute now s1 = Some (Inr (), s2)"
      "rollup_tier ch (rf_step f Tier_Month) Tier_Month Tier_Day now s2 = Some (r3, s3)"
      "r3 \<noteq> Inr ()" "res = r3" "st' = s3"
  | s1 s2 s3 where "rollup_tier ch (rf_step f Tier_Hour) Tier_Hour Tier_Minute now st = Some (Inr (), s1)"
      "rollup_tier ch (rf_step f Tier_Day) Tier_Day Tier_Minute now s1 = Some (Inr (), s2)"
      "rollup_tier ch (rf_step f Tier_Month) Tier_Month Tier_Day now s2 = Some (Inr (), s3)"
      "prune (rf_prune f) now s3 = (res, st')"
  using assms
  by (auto simp: rollup_def ROLLUPS_def split: option.splits sum.splits prod.splits)

text \<open>A property that every step and the prune keep is kept by the job.\<close>

lemma rollup_keeps:
  assumes "\<And>tier src f s s' r. P s \<Longrightarrow> (tier, src) \<in> set ROLLUPS \<Longrightarrow>
      rollup_next ch f tier src now s = (r, s') \<Longrightarrow> P s'"
    and "\<And>f s s' r. P s \<Longrightarrow> prune f now s = (r, s') \<Longrightarrow> P s'"
    and "rollup ch f now st = Some (res, st')" and "P st"
  shows "P st'"
proof -
  have tier: "P s'" if "rollup_tier ch fs tier src now s = Some (r, s')" "(tier, src) \<in> set ROLLUPS" "P s"
    for fs tier src s r s'
    using rollup_tier_induct [of P ch tier src now, OF _ that(1,3)] assms(1) that(2) by blast
  have pairs: "(Tier_Hour, Tier_Minute) \<in> set ROLLUPS" "(Tier_Day, Tier_Minute) \<in> set ROLLUPS"
    "(Tier_Month, Tier_Day) \<in> set ROLLUPS" by (simp_all add: ROLLUPS_def)
  from assms(3) show ?thesis
    by (cases rule: rollup_stages) (metis tier pairs assms(2,4))+
qed

lemma rollup_ok [wf_intro]:
  "store_ok st \<Longrightarrow> rollup ch f now st = Some (res, st') \<Longrightarrow> store_ok st'"
  using rollup_keeps [of store_ok ch now f st res st'] rollup_next_ok prune_ok by blast

text \<open>Nothing closed is left to roll.\<close>

definition idle :: "'d chrono \<Rightarrow> tier \<Rightarrow> tier \<Rightarrow> i64 \<Rightarrow> store \<Rightarrow> bool" where
  "idle ch tier src now st \<longleftrightarrow>
     (case oldest_bucket (wm_of tier st) (tier_table src (st_db st)) of
        None \<Rightarrow> True
      | Some b \<Rightarrow>
          (case zone_bounds ch (st_zone st) tier b of
             None \<Rightarrow> False
           | Some (s, e) \<Rightarrow> now < e + GRACE_S))"

lemma rollup_next_idle:
  "rollup_next ch f tier src now st = (Inr False, st') \<Longrightarrow> idle ch tier src now st \<and> st' = st"
  by (erule rollup_next_cases) (auto simp: idle_def)

lemma idle_next:
  "idle ch tier src now st \<Longrightarrow> rollup_next ch no_step_fault tier src now st = (Inr False, st)"
  by (auto simp: idle_def rollup_next_def no_step_fault_def watermark_wm_opt wm_of_opt
      split: option.splits)

lemma idle_tier:
  "idle ch tier src now st \<Longrightarrow>
     rollup_tier ch (\<lambda>_. no_step_fault) tier src now st = Some (Inr (), st)"
  by (subst rollup_tier.simps) (simp add: idle_next)

lemma idle_cong:
  assumes "wm_opt tier st' = wm_opt tier st" "st_zone st' = st_zone st"
    "oldest_bucket (wm_of tier st) (tier_table src (st_db st')) = oldest_bucket (wm_of tier st) (tier_table src (st_db st))"
  shows "idle ch tier src now st' = idle ch tier src now st"
proof -
  have wm: "wm_of tier st' = wm_of tier st" using assms(1) by (simp add: wm_of_opt)
  show ?thesis unfolding idle_def wm assms(2,3) ..
qed

lemma expired_before_wm:
  assumes "(tier, src) \<in> set ROLLUPS" "expired st now src b" shows "b < wm_of tier st"
  using assms by (auto simp: ROLLUPS_def before_wm_def wm_of_opt)

lemma oldest_bucket_kept:
  assumes "(tier, src) \<in> set ROLLUPS"
  shows "oldest_bucket (wm_of tier st) (kept st now src) = oldest_bucket (wm_of tier st) (tier_table src (st_db st))"
proof -
  have "filter (\<lambda>b. wm_of tier st \<le> b) (map (\<lambda>(k, _). fk_bucket k) (filter (\<lambda>(k, _). \<not> expired st now src (fk_bucket k)) t))
      = filter (\<lambda>b. wm_of tier st \<le> b) (map (\<lambda>(k, _). fk_bucket k) t)" for t :: fact_table
    using expired_before_wm [OF assms] by (induction t) fastforce+
  then show ?thesis by (simp add: oldest_bucket_def kept_def)
qed

lemma prune_rel_wm: "prune_rel now st st' T \<Longrightarrow> wm_opt tier st' = wm_opt tier st \<and> wm_of tier st' = wm_of tier st"
  by (simp add: prune_rel_def wm_opt_def wm_of_opt)

lemma prune_rel_table:
  "prune_rel now st st' T \<Longrightarrow>
     tier_table tier (st_db st') = kept st now tier \<or> tier_table tier (st_db st') = tier_table tier (st_db st)"
  by (simp add: prune_rel_def)

lemma prune_idle:
  assumes "(tier, src) \<in> set ROLLUPS" "prune_rel now st st' T"
  shows "idle ch tier src n st' = idle ch tier src n st"
  using assms(2) prune_rel_wm [OF assms(2)] prune_rel_table [OF assms(2), of src] oldest_bucket_kept [OF assms(1)]
  by (intro idle_cong) (auto simp: prune_rel_def)

lemma rollup_tier_idle:
  assumes "rollup_tier ch fs tier src now st = Some (Inr (), st')"
  shows "idle ch tier src now st'"
  using rollup_tier_induct [of "\<lambda>_. True", OF _ assms] rollup_next_idle by blast

text \<open>A loop for one tier leaves what it does not write.\<close>

lemma rollup_tier_frame:
  assumes "rollup_tier ch fs tier src now st = Some (r, st')"
  shows "(\<forall>T. table_name T \<noteq> table_name tier \<longrightarrow> tier_table T (st_db st') = tier_table T (st_db st))
    \<and> (\<forall>T. watermark_name T \<noteq> watermark_name tier \<longrightarrow> wm_opt T st' = wm_opt T st)
    \<and> st_zone st' = st_zone st \<and> st_retention st' = st_retention st
    \<and> db_identity (st_db st') = db_identity (st_db st)"
proof -
  let ?P = "\<lambda>s. (\<forall>T. table_name T \<noteq> table_name tier \<longrightarrow> tier_table T (st_db s) = tier_table T (st_db st))
    \<and> (\<forall>T. watermark_name T \<noteq> watermark_name tier \<longrightarrow> wm_opt T s = wm_opt T st)
    \<and> st_zone s = st_zone st \<and> st_retention s = st_retention st
    \<and> db_identity (st_db s) = db_identity (st_db st)"
  have step: "?P s'" if "?P s" "rollup_next ch f tier src now s = (r', s')" for f s s' r'
    using that(1) rollup_next_frame [OF that(2)] rollup_next_zone [OF that(2)] by simp
  show ?thesis
    by (rule conjunct1 [OF rollup_tier_induct [of ?P, OF step assms]]) simp_all
qed

lemma idle_other:
  assumes "rollup_tier ch fs tier src now st = Some (r, st')"
    "table_name src' \<noteq> table_name tier" "watermark_name tier' \<noteq> watermark_name tier"
  shows "idle ch tier' src' n st' = idle ch tier' src' n st"
  using rollup_tier_frame [OF assms(1)] assms(2,3) by (intro idle_cong) auto

lemma rollup_idle:
  assumes "rollup ch f now st = Some (Inr (), st')" "(tier, src) \<in> set ROLLUPS"
  shows "idle ch tier src now st'"
  using assms(1)
proof (cases rule: rollup_stages)
  case (4 s1 s2 s3)
  have rel: "prune_rel now s3 st' {Tier_Day, Tier_Hour, Tier_Minute}"
    using prune_stages [OF 4(4)] by simp
  have names: "table_name Tier_Minute \<noteq> table_name Tier_Day" "table_name Tier_Minute \<noteq> table_name Tier_Month"
    "watermark_name Tier_Hour \<noteq> watermark_name Tier_Day" "watermark_name Tier_Hour \<noteq> watermark_name Tier_Month"
    "watermark_name Tier_Day \<noteq> watermark_name Tier_Month"
    by (simp_all add: watermark_name_def)
  have "idle ch Tier_Hour Tier_Minute now s3"
    using rollup_tier_idle [OF 4(1)] idle_other [OF 4(2) names(1,3)] idle_other [OF 4(3) names(2,4)] by simp
  moreover have "idle ch Tier_Day Tier_Minute now s3"
    using rollup_tier_idle [OF 4(2)] idle_other [OF 4(3) names(2,5)] by simp
  moreover have "idle ch Tier_Month Tier_Day now s3" by (rule rollup_tier_idle [OF 4(3)])
  ultimately have "idle ch tier src now s3" using assms(2) by (auto simp: ROLLUPS_def)
  then show ?thesis by (simp add: prune_idle [OF assms(2) rel])
qed simp_all

lemma kept_again:
  assumes "prune_rel now st st' {Tier_Day, Tier_Hour, Tier_Minute}"
  shows "kept st' now tier = tier_table tier (st_db st')"
proof -
  have same: "expired st' n T b = expired st n T b" for n T b
    using assms by (cases T) (simp_all add: prune_rel_def before_wm_def wm_opt_def)
  have "tier_table tier (st_db st') = kept st now tier"
    using prune_rel_table [OF assms, of tier] assms by (cases tier) (auto simp: prune_rel_def kept_all)
  then show ?thesis by (simp add: kept_def same)
qed


section \<open>Views through the job\<close>

lemma tier_view_cong:
  assumes "tier_table tier (st_db st') = tier_table tier (st_db st)"
    "tier_table src (st_db st') = tier_table src (st_db st)" "wm_opt tier st' = wm_opt tier st"
  shows "tier_view B tier src st' dir Q = tier_view B tier src st dir Q"
  using assms by (simp add: tier_view_def wm_of_opt)

text \<open>A prune keeps the view of every bucket the tier still has to keep.\<close>

lemma sum_where_kept:
  assumes "\<And>k. P k \<Longrightarrow> \<not> expired st now tier (fk_bucket k)"
  shows "sum_where P f (kept st now tier) = sum_where P f (tier_table tier (st_db st))"
proof -
  have "(P k \<and> \<not> expired st now tier (fk_bucket k)) = P k" for k using assms by blast
  then show ?thesis by (simp add: kept_def sum_where_filter)
qed

lemma prune_view [conserve]:
  assumes pair: "(tier, src) \<in> set ROLLUPS" and rel: "prune_rel now st st' T"
    and young: "\<And>k. Q k \<Longrightarrow> \<not> expired st now tier (fk_bucket k)"
  shows "tier_view B tier src st' dir Q = tier_view B tier src st dir Q"
proof -
  have "sum_where Q (column dir) (tier_table tier (st_db st')) = sum_where Q (column dir) (tier_table tier (st_db st))"
    using prune_rel_table [OF rel, of tier] sum_where_kept [of Q st now tier, OF young] by auto
  moreover have "sum_where (\<lambda>k. wm_of tier st \<le> fk_bucket k \<and> R k) (column dir) (tier_table src (st_db st'))
      = sum_where (\<lambda>k. wm_of tier st \<le> fk_bucket k \<and> R k) (column dir) (tier_table src (st_db st))" for R
  proof -
    have "\<not> expired st now src (fk_bucket k)" if "wm_of tier st \<le> fk_bucket k \<and> R k" for k
      using expired_before_wm [OF pair] that by force
    then show ?thesis
      using prune_rel_table [OF rel, of src]
        sum_where_kept [of "\<lambda>k. wm_of tier st \<le> fk_bucket k \<and> R k" st now src] by auto
  qed
  ultimately show ?thesis using prune_rel_wm [OF rel, of tier] by (simp add: tier_view_def)
qed

lemma rollup_keeps_view:
  assumes tier: "tier \<in> {Tier_Hour, Tier_Day}" and B: "bucketing (zone_bounds ch (st_zone st) tier)"
    and ok: "store_ok st" and epoch: "since_epoch (db_minute (st_db st))"
    and run: "rollup ch f now st = Some (res, st')"
    and young: "\<And>k. Q k \<Longrightarrow> now - (if tier = Tier_Hour then hour_s else day_s) (st_retention st) \<le> fk_bucket k"
  shows "tier_view (zone_bounds ch (st_zone st) tier) tier Tier_Minute st' dir Q
    = tier_view (zone_bounds ch (st_zone st) tier) tier Tier_Minute st dir Q"
proof -
  let ?B = "zone_bounds ch (st_zone st) tier"
  let ?P = "\<lambda>s. store_ok s \<and> since_epoch (db_minute (st_db s)) \<and> st_zone s = st_zone st
    \<and> st_retention s = st_retention st
    \<and> tier_view ?B tier Tier_Minute s dir Q = tier_view ?B tier Tier_Minute st dir Q"
  have pair: "(tier, Tier_Minute) \<in> set ROLLUPS" using tier by (auto simp: ROLLUPS_def)
  have "?P st'"
  proof (rule rollup_keeps [of ?P ch now f st res st', OF _ _ run])
    fix T src g s s' r
    assume s: "?P s" and TS: "(T, src) \<in> set ROLLUPS" and step: "rollup_next ch g T src now s = (r, s')"
    have "db_minute (st_db s') = db_minute (st_db s)"
      using rollup_next_frame(1) [OF step, of Tier_Minute] TS by (auto simp: ROLLUPS_def)
    moreover have "tier_view ?B tier Tier_Minute s' dir Q = tier_view ?B tier Tier_Minute s dir Q"
    proof (cases "T = tier")
      case True
      then have "src = Tier_Minute" using TS tier by (auto simp: ROLLUPS_def)
      then show ?thesis
        using rollup_next_view [of ch s tier Tier_Minute g now r s' dir Q] s B pair step True by simp
    next
      case False
      have "table_name tier \<noteq> table_name T" "table_name Tier_Minute \<noteq> table_name T"
        "watermark_name tier \<noteq> watermark_name T"
        using TS tier False by (auto simp: ROLLUPS_def watermark_name_def)
      then show ?thesis by (intro tier_view_cong rollup_next_frame [OF step])
    qed
    ultimately show "?P s'"
      using s rollup_next_ok [OF _ step] rollup_next_zone [OF step] by simp
  next
    fix g s s' r
    assume s: "?P s" and pr: "prune g now s = (r, s')"
    obtain U where rel: "prune_rel now s s' U" using prune_stages [OF pr] by auto
    have "\<not> expired s now tier (fk_bucket k)" if "Q k" for k
      using young [OF that] s tier by auto
    then have "tier_view ?B tier Tier_Minute s' dir Q = tier_view ?B tier Tier_Minute s dir Q"
      by (rule prune_view [OF pair rel])
    moreover have "since_epoch (db_minute (st_db s'))"
      using prune_rel_table [OF rel, of Tier_Minute] s by (auto simp: since_epoch_def kept_def)
    ultimately show "?P s'"
      using s rel prune_ok [OF _ pr] by (simp add: prune_rel_def)
  qed (use ok epoch in simp)
  then show ?thesis by simp
qed

text \<open>After a job without error a closed bucket's view is its own row: nothing of it is unrolled.\<close>

lemma closed_view:
  assumes pair: "(tier, src) \<in> set ROLLUPS" and B: "bucketing (zone_bounds ch (st_zone st) tier)"
    and idle: "idle ch tier src now st" and b: "zone_bounds ch (st_zone st) tier t = Some (s, e)"
    and closed: "e + GRACE_S \<le> now"
  shows "tier_view (zone_bounds ch (st_zone st) tier) tier src st dir (\<lambda>k. fk_bucket k = s \<and> R k)
    = sum_where (\<lambda>k. fk_bucket k = s \<and> R k) (column dir) (tier_table tier (st_db st))"
proof -
  let ?B = "zone_bounds ch (st_zone st) tier"
  have "\<not> (wm_of tier st \<le> fk_bucket k \<and> start_of ?B (fk_bucket k) = s)"
    if k: "(k, c) \<in> set (tier_table src (st_db st))" for k c
  proof
    assume *: "wm_of tier st \<le> fk_bucket k \<and> start_of ?B (fk_bucket k) = s"
    then obtain o' so eo where o: "oldest_bucket (wm_of tier st) (tier_table src (st_db st)) = Some o'"
        "?B o' = Some (so, eo)" "now < eo + GRACE_S"
      using idle k oldest_bucket_None [of "wm_of tier st" "tier_table src (st_db st)"]
      by (force simp: idle_def split: option.splits)
    have le: "o' \<le> fk_bucket k" using oldest_bucket_Some [OF o(1)] k * by force
    show False
    proof (cases "?B (fk_bucket k)")
      case None
      then have "fk_bucket k = s" using * by (simp add: start_of_def)
      then show False using None bucketing.start_own [OF B b] by simp
    next
      case (Some p)
      obtain s' e' where p: "?B (fk_bucket k) = Some (s', e')" using Some by (cases p) simp
      then have "s' = s" using * by (simp add: start_of_def)
      then have "e' = e"
        using bucketing.start_own [OF B p] bucketing.start_own [OF B b] by simp
      then have "eo \<le> e" using bucketing.bounds_mono [OF B o(2) p le] by simp
      with o(3) closed show False by simp
    qed
  qed
  then have "sum_where (\<lambda>k. wm_of tier st \<le> fk_bucket k \<and> start_of ?B (fk_bucket k) = s \<and> R (start_of ?B (fk_bucket k), snd k))
      (column dir) (tier_table src (st_db st)) = 0"
    by (intro sum_where_none) blast
  then show ?thesis by (simp add: tier_view_def)
qed

end
