(* ===== verification/Rollup_Props.thy ===== *)
theory Rollup_Props
  imports Rollup Gregorian "HOL-Library.Sublist"
begin

text \<open>
  What the rollup job promises: it ends, it moves bytes between tiers without losing or repeating
  any, a second run at the same time does nothing, and a prune never deletes what a coarser tier
  still needs. The month tier is fed by the day tier, so its view goes through two steps.
\<close>

section \<open>The month through the day\<close>

text \<open>
  The month tier stands for its rows, the day rows not yet in it, and the minutes not yet in the day
  tier. The last part needs the minutes to be timely: none belongs to a day of a month that has
  already been rolled.
\<close>

definition month_view ::
    "(i64 \<Rightarrow> (i64 \<times> i64) option) \<Rightarrow> (i64 \<Rightarrow> (i64 \<times> i64) option) \<Rightarrow> store \<Rightarrow> direction \<Rightarrow> (fact_key \<Rightarrow> bool) \<Rightarrow> int" where
  "month_view D M st dir Q =
     tier_view M Tier_Month Tier_Day st dir Q +
     sum_where (\<lambda>k. wm_of Tier_Day st \<le> fk_bucket k
          \<and> Q (start_of M (start_of D (fk_bucket k)), snd k))
       (column dir) (db_minute (st_db st))"

definition timely :: "(i64 \<Rightarrow> (i64 \<times> i64) option) \<Rightarrow> store \<Rightarrow> bool" where
  "timely D st \<longleftrightarrow>
     (\<forall>k \<in> fst ` set (db_minute (st_db st)).
        wm_of Tier_Day st \<le> fk_bucket k \<longrightarrow> wm_of Tier_Month st \<le> start_of D (fk_bucket k))"

definition in_month :: "(i64 \<Rightarrow> (i64 \<times> i64) option) \<Rightarrow> store \<Rightarrow> (fact_key \<Rightarrow> bool) \<Rightarrow> fact_key \<Rightarrow> bool" where
  "in_month M st Q k \<longleftrightarrow> wm_of Tier_Month st \<le> fk_bucket k \<and> Q (start_of M (fk_bucket k), snd k)"

lemma month_view_day:
  assumes "timely D st"
  shows "month_view D M st dir Q =
    sum_where Q (column dir) (db_month (st_db st))
      + tier_view D Tier_Day Tier_Minute st dir (in_month M st Q)"
proof -
  have "sum_where (\<lambda>k. wm_of Tier_Day st \<le> fk_bucket k \<and> Q (start_of M (start_of D (fk_bucket k)), snd k))
      (column dir) (db_minute (st_db st))
    = sum_where (\<lambda>k. wm_of Tier_Day st \<le> fk_bucket k \<and> in_month M st Q (start_of D (fk_bucket k), snd k))
      (column dir) (db_minute (st_db st))"
    using assms by (intro sum_where_cong) (force simp: timely_def in_month_def)
  then show ?thesis by (simp add: month_view_def tier_view_def in_month_def [abs_def])
qed

lemma step_wm_mono:
  assumes "bucketing (zone_bounds ch (st_zone st) tier)" "rollup_next ch f tier src now st = (r, st')"
  shows "wm_of tier st \<le> wm_of tier st'"
  using assms(2)
proof (cases rule: rollup_next_cases)
  case (rolled b s e d)
  have "wm_of tier st' = e"
    using roll_batch_frame(2) [OF rolled(6)] by (simp add: rolled(2) wm_of_def)
  then show ?thesis
    using oldest_bucket_Some [OF rolled(3)] bucketing.within [OF assms(1) rolled(4)] by simp
qed simp_all

text \<open>A day step keeps the month view, given timely minutes.\<close>

lemma day_step_month_view [conserve]:
  assumes B: "bucketing (zone_bounds ch (st_zone st) Tier_Day)" and ok: "store_ok st"
    and epoch: "since_epoch (db_minute (st_db st))"
    and t: "timely (zone_bounds ch (st_zone st) Tier_Day) st"
    and step: "rollup_next ch f Tier_Day Tier_Minute now st = (r, st')"
  shows "timely (zone_bounds ch (st_zone st) Tier_Day) st'"
    and "month_view (zone_bounds ch (st_zone st) Tier_Day) M st' dir Q
       = month_view (zone_bounds ch (st_zone st) Tier_Day) M st dir Q"
proof -
  let ?D = "zone_bounds ch (st_zone st) Tier_Day"
  have frame: "db_minute (st_db st') = db_minute (st_db st)" "db_month (st_db st') = db_month (st_db st)"
    using rollup_next_frame(1) [OF step, of Tier_Minute] rollup_next_frame(1) [OF step, of Tier_Month] by simp_all
  have wm: "wm_of Tier_Month st' = wm_of Tier_Month st"
    using rollup_next_frame(2) [OF step, of Tier_Month] by (simp add: wm_of_opt watermark_name_def)
  show timely': "timely ?D st'"
    using t step_wm_mono [OF B step] by (fastforce simp: timely_def frame wm)
  have "in_month M st' Q = in_month M st Q" by (simp add: fun_eq_iff in_month_def wm)
  then show "month_view ?D M st' dir Q = month_view ?D M st dir Q"
    using rollup_next_view [OF B _ ok _ step, of dir "in_month M st Q"] epoch
    by (simp add: month_view_day [OF t] month_view_day [OF timely'] frame ROLLUPS_def)
qed

text \<open>
  A month step keeps it too, and keeps the minutes timely when the day tier has been rolled as far
  as the clock allows.
\<close>

lemma month_step_month_view [conserve]:
  assumes R: "refining (zone_bounds ch (st_zone st) Tier_Day) (zone_bounds ch (st_zone st) Tier_Month)"
    and ok: "store_ok st" and epoch: "since_epoch (db_day (st_db st))"
    and t: "timely (zone_bounds ch (st_zone st) Tier_Day) st"
    and idle: "idle ch Tier_Day Tier_Minute now st"
    and step: "rollup_next ch f Tier_Month Tier_Day now st = (r, st')"
  shows "timely (zone_bounds ch (st_zone st) Tier_Day) st'"
    and "month_view (zone_bounds ch (st_zone st) Tier_Day) (zone_bounds ch (st_zone st) Tier_Month) st' dir Q
       = month_view (zone_bounds ch (st_zone st) Tier_Day) (zone_bounds ch (st_zone st) Tier_Month) st dir Q"
proof -
  let ?D = "zone_bounds ch (st_zone st) Tier_Day" and ?M = "zone_bounds ch (st_zone st) Tier_Month"
  have D: "bucketing ?D" and M: "bucketing ?M" using refining.axioms(1,2) [OF R] .
  have frame: "db_minute (st_db st') = db_minute (st_db st)"
    using rollup_next_frame(1) [OF step, of Tier_Minute] by simp
  have wm: "wm_of Tier_Day st' = wm_of Tier_Day st"
    using rollup_next_frame(2) [OF step, of Tier_Day] by (simp add: wm_of_opt watermark_name_def)
  show "month_view ?D ?M st' dir Q = month_view ?D ?M st dir Q"
    using rollup_next_view [OF M _ ok _ step, of dir Q] epoch
    by (simp add: month_view_def frame wm ROLLUPS_def)
  show "timely ?D st'"
    using step
  proof (cases rule: rollup_next_cases)
    case (rolled b s e d)
    have e: "wm_of Tier_Month st' = e"
      using roll_batch_frame(2) [OF rolled(6)] by (simp add: rolled(2) wm_of_def)
    obtain y where cut: "?D e = Some (e, y)" using refining.aligned [OF R rolled(4)] by blast
    have "e \<le> start_of ?D (fk_bucket k)"
      if k: "k \<in> fst ` set (db_minute (st_db st))" and u: "wm_of Tier_Day st \<le> fk_bucket k" for k
    proof -
      have "oldest_bucket (wm_of Tier_Day st) (db_minute (st_db st)) \<noteq> None"
        using k u oldest_bucket_None [of "wm_of Tier_Day st" "db_minute (st_db st)"] by force
      then obtain o' so eo where o: "oldest_bucket (wm_of Tier_Day st) (db_minute (st_db st)) = Some o'"
          "?D o' = Some (so, eo)" "now < eo + GRACE_S"
        using idle by (auto simp: idle_def split: option.splits)
      have le: "o' \<le> fk_bucket k" using oldest_bucket_Some [OF o(1)] k u by blast
      have "e \<le> so"
        using bucketing.equal_or_apart [OF D o(2) cut] bucketing.within [OF D cut] o(3) rolled(5) by auto
      show ?thesis
      proof (cases "?D (fk_bucket k)")
        case None
        then show ?thesis
          using \<open>e \<le> so\<close> bucketing.within [OF D o(2)] le by (simp add: start_of_def)
      next
        case (Some p)
        then show ?thesis
          using bucketing.bounds_mono [OF D o(2) _ le] \<open>e \<le> so\<close> by (cases p) (auto simp: start_of_def)
      qed
    qed
    then show ?thesis by (simp add: timely_def frame wm e)
  qed (use t in simp_all)
qed

text \<open>Every instant involved lies after the epoch, day starts included.\<close>

definition past_epoch :: "(i64 \<Rightarrow> (i64 \<times> i64) option) \<Rightarrow> store \<Rightarrow> bool" where
  "past_epoch D st \<longleftrightarrow>
     since_epoch (db_minute (st_db st)) \<and> since_epoch (db_day (st_db st)) \<and>
     (\<forall>k \<in> fst ` set (db_minute (st_db st)). 0 \<le> start_of D (fk_bucket k))"

lemma group_rows_bucket: "k \<in> fst ` set (group_rows s t) \<Longrightarrow> fk_bucket k = s"
  unfolding group_rows_def hash.keys_fold by auto

lemma upsert_groups_keys:
  "upsert_groups ids gs t = Inr t' \<Longrightarrow> fst ` set t' \<subseteq> fst ` set gs \<union> fst ` set t"
proof (induction ids gs t rule: upsert_groups.induct)
  case (2 ids k s gs t)
  then obtain c u where c: "cast_ubigint s = Some c" and u: "upsert_fact ids k c t = Inr u"
      and rest: "upsert_groups ids gs u = Inr t'"
    by (auto split: option.splits sum.splits)
  show ?case
    using "2.IH" [OF c u rest] unfolding upsert_fact_keys [OF u] by auto
qed simp

lemma step_keys:
  assumes "rollup_next ch f tier src now st = (r, st')" "k \<in> fst ` set (tier_table tier (st_db st'))"
  shows "k \<in> fst ` set (tier_table tier (st_db st))
    \<or> (\<exists>b \<in> fst ` set (tier_table src (st_db st)).
         fk_bucket k = start_of (zone_bounds ch (st_zone st) tier) (fk_bucket b))"
  using assms(1)
proof (cases rule: rollup_next_cases)
  case (rolled b s e d)
  obtain t where t: "upsert_groups (identity_ids (st_db st))
        (group_rows s (rows_between (lower_bound tier st s) e (tier_table src (st_db st))))
        (tier_table tier (st_db st)) = Inr t" "tier_table tier d = t"
    using rolled(6) by (auto elim!: roll_batch_Inr simp: tier_table_set)
  have "k \<in> fst ` set t" using assms(2) by (simp add: rolled(2) t(2))
  then have "k \<in> fst ` set (tier_table tier (st_db st)) \<or> fk_bucket k = s"
    using upsert_groups_keys [OF t(1)] group_rows_bucket by blast
  moreover have "s = start_of (zone_bounds ch (st_zone st) tier) b" by (simp add: start_of_def rolled(4))
  ultimately show ?thesis using oldest_bucket_Some [OF rolled(3)] by (metis imageE)
qed (use assms in simp_all)

lemma past_epoch_step:
  assumes "past_epoch (zone_bounds ch (st_zone st) Tier_Day) st" "(tier, src) \<in> set ROLLUPS"
    "rollup_next ch f tier src now st = (r, st')"
  shows "past_epoch (zone_bounds ch (st_zone st) Tier_Day) st'"
proof -
  have minute: "db_minute (st_db st') = db_minute (st_db st)"
    using rollup_next_frame(1) [OF assms(3), of Tier_Minute] assms(2) by (auto simp: ROLLUPS_def)
  have "since_epoch (db_day (st_db st'))"
  proof (cases "tier = Tier_Day")
    case True
    then have src: "src = Tier_Minute" using assms(2) by (simp add: ROLLUPS_def)
    have "0 \<le> fk_bucket k" if "k \<in> fst ` set (db_day (st_db st'))" for k
      using step_keys [OF assms(3)] that assms(1) unfolding True src since_epoch_def past_epoch_def tier_table.simps
      by metis
    then show ?thesis by (simp add: since_epoch_def)
  next
    case False
    then have "db_day (st_db st') = db_day (st_db st)"
      using rollup_next_frame(1) [OF assms(3), of Tier_Day] assms(2) by (auto simp: ROLLUPS_def)
    then show ?thesis using assms(1) by (simp add: past_epoch_def)
  qed
  then show ?thesis using assms(1) by (simp add: past_epoch_def minute)
qed

lemma prune_month_view:
  assumes "prune_rel now st st' T"
  shows "month_view D M st' dir Q = month_view D M st dir Q"
proof -
  have "tier_view M Tier_Month Tier_Day st' dir Q = tier_view M Tier_Month Tier_Day st dir Q"
    by (rule prune_view [OF _ assms]) (simp_all add: ROLLUPS_def)
  moreover have "sum_where (\<lambda>k. wm_of Tier_Day st \<le> fk_bucket k \<and> R k) f (db_minute (st_db st'))
      = sum_where (\<lambda>k. wm_of Tier_Day st \<le> fk_bucket k \<and> R k) f (db_minute (st_db st))" for R f
  proof -
    have "\<not> expired st now Tier_Minute (fk_bucket k)" if "wm_of Tier_Day st \<le> fk_bucket k \<and> R k" for k
      using expired_before_wm [of Tier_Day Tier_Minute st now "fk_bucket k"] that by (force simp: ROLLUPS_def)
    then show ?thesis
      using prune_rel_table [OF assms, of Tier_Minute]
        sum_where_kept [of "\<lambda>k. wm_of Tier_Day st \<le> fk_bucket k \<and> R k" st now Tier_Minute] by auto
  qed
  ultimately show ?thesis
    using prune_rel_wm [OF assms, of Tier_Day] by (simp add: month_view_def)
qed

lemma rollup_month_view:
  assumes R: "refining (zone_bounds ch (st_zone st) Tier_Day) (zone_bounds ch (st_zone st) Tier_Month)"
    and ok: "store_ok st" and epoch: "past_epoch (zone_bounds ch (st_zone st) Tier_Day) st"
    and t: "timely (zone_bounds ch (st_zone st) Tier_Day) st"
    and run: "rollup ch f now st = Some (res, st')"
  shows "timely (zone_bounds ch (st_zone st) Tier_Day) st'"
    and "month_view (zone_bounds ch (st_zone st) Tier_Day) (zone_bounds ch (st_zone st) Tier_Month) st' dir Q
       = month_view (zone_bounds ch (st_zone st) Tier_Day) (zone_bounds ch (st_zone st) Tier_Month) st dir Q"
proof -
  let ?D = "zone_bounds ch (st_zone st) Tier_Day" and ?M = "zone_bounds ch (st_zone st) Tier_Month"
  have D: "bucketing ?D" using refining.axioms(1) [OF R] .
  let ?I = "\<lambda>s. store_ok s \<and> st_zone s = st_zone st \<and> past_epoch ?D s \<and> timely ?D s
    \<and> month_view ?D ?M s dir Q = month_view ?D ?M st dir Q"
  have base: "store_ok s' \<and> st_zone s' = st_zone st \<and> past_epoch ?D s'"
    if "?I s" "rollup_next ch g T src now s = (r, s')" "(T, src) \<in> set ROLLUPS" for g T src s r s'
    using that past_epoch_step [of ch s T src g now r s'] rollup_next_ok [OF _ that(2)]
      rollup_next_zone [OF that(2)] by simp
  have hour: "?I s'" if "?I s" "rollup_next ch g Tier_Hour Tier_Minute now s = (r, s')" for g s r s'
  proof -
    note fr = rollup_next_frame [OF that(2)]
    have t1: "db_minute (st_db s') = db_minute (st_db s)" "db_day (st_db s') = db_day (st_db s)"
        "db_month (st_db s') = db_month (st_db s)"
      using fr(1) [of Tier_Minute] fr(1) [of Tier_Day] fr(1) [of Tier_Month] by simp_all
    moreover have "wm_opt Tier_Day s' = wm_opt Tier_Day s" "wm_opt Tier_Month s' = wm_opt Tier_Month s"
      using fr(2) [of Tier_Day] fr(2) [of Tier_Month] by (simp_all add: watermark_name_def)
    ultimately show ?thesis
      using base [OF that] that(1) by (simp add: ROLLUPS_def timely_def month_view_def tier_view_def wm_of_opt)
  qed
  have day: "?I s'" if "?I s" "rollup_next ch g Tier_Day Tier_Minute now s = (r, s')" for g s r s'
    using base [OF that] that(1) day_step_month_view(1) [of ch s g now r s', OF _ _ _ _ that(2)]
      day_step_month_view(2) [of ch s g now r s' ?M dir Q, OF _ _ _ _ that(2)] D
    by (simp add: ROLLUPS_def past_epoch_def)
  have month: "?I s' \<and> idle ch Tier_Day Tier_Minute now s'"
    if "?I s \<and> idle ch Tier_Day Tier_Minute now s" "rollup_next ch g Tier_Month Tier_Day now s = (r, s')"
    for g s r s'
  proof -
    have "idle ch Tier_Day Tier_Minute now s'"
      using that(1) rollup_next_frame(1) [OF that(2), of Tier_Minute]
        rollup_next_frame(2) [OF that(2), of Tier_Day] rollup_next_zone [OF that(2)]
      by (subst idle_cong [of Tier_Day s' s]) (simp_all add: watermark_name_def)
    then show ?thesis
      using base [OF _ that(2)] that(1) month_step_month_view(1) [of ch s now g r s', OF _ _ _ _ _ that(2)]
        month_step_month_view(2) [of ch s now g r s' dir Q, OF _ _ _ _ _ that(2)] R
      by (simp add: ROLLUPS_def past_epoch_def)
  qed
  have pr: "?I s'" if I: "?I s" and p: "prune g now s = (r, s')" for g s r s'
  proof -
    obtain U where rel: "prune_rel now s s' U" using prune_stages [OF p] by auto
    have "set (tier_table T (st_db s')) \<subseteq> set (tier_table T (st_db s))" for T
      using prune_rel_table [OF rel, of T] by (auto simp: kept_def)
    from this [of Tier_Minute] this [of Tier_Day] have "past_epoch ?D s'" "timely ?D s'"
      using I prune_rel_wm [OF rel] by (auto simp: past_epoch_def since_epoch_def timely_def)
    then show ?thesis
      using I prune_month_view [OF rel] prune_ok [OF _ p] rel by (simp add: prune_rel_def)
  qed
  have start: "?I st" using ok epoch t by simp
  have hour': "\<forall>g s r s'. ?I s \<longrightarrow> rollup_next ch g Tier_Hour Tier_Minute now s = (r, s') \<longrightarrow> ?I s'"
    using hour by blast
  have day': "\<forall>g s r s'. ?I s \<longrightarrow> rollup_next ch g Tier_Day Tier_Minute now s = (r, s') \<longrightarrow> ?I s'"
    using day by blast
  let ?J = "\<lambda>s. ?I s \<and> idle ch Tier_Day Tier_Minute now s"
  have month': "\<forall>g s r s'. ?J s \<longrightarrow> rollup_next ch g Tier_Month Tier_Day now s = (r, s') \<longrightarrow> ?J s'"
    using month by blast
  have "?I st'"
    using run
  proof (cases rule: rollup_stages)
    case (1 r1 s1)
    then show ?thesis using rollup_tier_keeps [of _ _ _ _ _ _ _ _ ?I, OF 1(1) start hour'] by simp
  next
    case (2 s1 r2 s2)
    have "?I s1" by (rule rollup_tier_keeps [of _ _ _ _ _ _ _ _ ?I, OF 2(1) start hour'])
    from rollup_tier_keeps [of _ _ _ _ _ _ _ _ ?I, OF 2(2) this day'] show ?thesis by (simp add: 2(5))
  next
    case (3 s1 s2 r3 s3)
    have "?I s1" by (rule rollup_tier_keeps [of _ _ _ _ _ _ _ _ ?I, OF 3(1) start hour'])
    from rollup_tier_keeps [of _ _ _ _ _ _ _ _ ?I, OF 3(2) this day'] have "?J s2"
      using rollup_tier_idle [OF 3(2)] by simp
    from rollup_tier_keeps [of _ _ _ _ _ _ _ _ ?J, OF 3(3) this month'] show ?thesis by (simp add: 3(6))
  next
    case (4 s1 s2 s3)
    have "?I s1" by (rule rollup_tier_keeps [of _ _ _ _ _ _ _ _ ?I, OF 4(1) start hour'])
    from rollup_tier_keeps [of _ _ _ _ _ _ _ _ ?I, OF 4(2) this day'] have "?J s2"
      using rollup_tier_idle [OF 4(2)] by simp
    from rollup_tier_keeps [of _ _ _ _ _ _ _ _ ?J, OF 4(3) this month'] have "?I s3" by simp
    from pr [OF this 4(4)] show ?thesis .
  qed
  then show "timely ?D st'" "month_view ?D ?M st' dir Q = month_view ?D ?M st dir Q" by simp_all
qed


section \<open>Properties\<close>

definition demo_traffic :: store where
  "demo_traffic = update_db (\<lambda>d. d\<lparr>db_minute :=
     [((1783332300, 1, ''external''), Counts 100 10), ((1783335300, 1, ''external''), Counts 50 5),
      ((1783336200, 1, ''external''), Counts 7 1)]\<rparr>) demo_store"

lemma demo_traffic_ok:
  "store_ok demo_traffic" "st_zone demo_traffic = Fixed 0" "since_epoch (db_minute (st_db demo_traffic))"
proof -
  have "fact_ok {1} (tier_table tier (st_db demo_traffic))" for tier
    by (cases tier) (simp_all add: fact_ok_def demo_traffic_def demo_store_def empty_db_def)
  moreover have "identity_ids (st_db demo_traffic) = {1}"
    by (simp add: identity_ids_def demo_traffic_def demo_store_def)
  ultimately show "store_ok demo_traffic"
    using demo_store_ok
    by (simp add: store_ok_def db_ok_def) (simp add: demo_traffic_def identities_ok_def watermarks_ok_def)
  show "st_zone demo_traffic = Fixed 0" "since_epoch (db_minute (st_db demo_traffic))"
    by (simp_all add: demo_traffic_def demo_store_def since_epoch_def)
qed

text \<open>C20. The job ends: whatever the store holds and whichever statements the engine fails, the three
  loops and the prune return, as long as the zone's day and month buckets obey the laws of
  \<open>bucketing\<close>; those of minute and hour always do.\<close>

theorem rollup_terminates:
  assumes "bucketing (zone_bounds ch (st_zone st) Tier_Day)"
    and "bucketing (zone_bounds ch (st_zone st) Tier_Month)"
  shows "\<exists>res st'. rollup ch f now st = Some (res, st')"
proof -
  have each: "\<exists>p. rollup_each ch f now ps s = Some p" if "set ps \<subseteq> set ROLLUPS" "st_zone s = st_zone st" for ps s
    using that
  proof (induction ps arbitrary: s)
    case (Cons p ps)
    obtain tier src where p: "p = (tier, src)" by force
    then have pair: "(tier, src) \<in> set ROLLUPS" using Cons.prems by simp
    have "bucketing (zone_bounds ch (st_zone s) tier)"
      using rollups_pairs(3) [OF pair] assms hour.bucketing_axioms Cons.prems(2) by auto
    from rollup_tier_ends [OF this pair]
    obtain r s' where r: "rollup_tier ch (rf_step f tier) tier src now s = Some (r, s')" by blast
    have "st_zone s' = st_zone st" using rollup_tier_frame [OF r] Cons.prems(2) by simp
    then show ?case
      using Cons r by (cases r) (auto simp: p)
  qed simp
  obtain r s' where "rollup_each ch f now ROLLUPS st = Some (r, s')"
    using each [of ROLLUPS st] by force
  then have "\<exists>p. rollup ch f now st = Some p"
    by (cases r) (simp_all add: rollup_def)
  then show ?thesis by force
qed

lemma rollup_terminates_witness:
  "\<exists>res st'. rollup gregorian no_faults 1783337400 demo_traffic = Some (res, st')"
  by (rule rollup_terminates) (rule day.bucketing_axioms month.bucketing_axioms)+

text \<open>C1. Rolling up is exact: after a job that succeeds, the row of every closed hour or day that the
  tier still keeps holds exactly what it held before plus the minutes of that bucket that had not been
  rolled yet, in each column, for every choice of identities and scopes.\<close>

theorem rollup_exact:
  assumes "tier \<in> {Tier_Hour, Tier_Day}" "bucketing (zone_bounds ch (st_zone st) tier)"
    and "store_ok st" "since_epoch (db_minute (st_db st))"
    and "rollup ch f now st = Some (Inr (), st')"
    and "zone_bounds ch (st_zone st) tier t = Some (s, e)" "e + GRACE_S \<le> now"
    and "now - (if tier = Tier_Hour then hour_s else day_s) (st_retention st) \<le> s"
  shows "sum_where (\<lambda>k. fk_bucket k = s \<and> R (snd k)) (column dir) (tier_table tier (st_db st'))
    = sum_where (\<lambda>k. fk_bucket k = s \<and> R (snd k)) (column dir) (tier_table tier (st_db st))
      + sum_where (\<lambda>k. wm_of tier st \<le> fk_bucket k \<and> s \<le> fk_bucket k \<and> fk_bucket k < e \<and> R (snd k))
          (column dir) (db_minute (st_db st))"
proof -
  let ?B = "zone_bounds ch (st_zone st) tier" and ?Q = "\<lambda>k. fk_bucket k = s \<and> R (snd k)"
  have pair: "(tier, Tier_Minute) \<in> set ROLLUPS" using assms(1) by (auto simp: ROLLUPS_def)
  have zone: "st_zone st' = st_zone st"
    using rollup_keeps [of "\<lambda>s. st_zone s = st_zone st", OF _ _ assms(5)] rollup_next_zone prune_stages
    by (metis prune_rel_def snd_conv)
  have start: "start_of ?B b = s \<longleftrightarrow> s \<le> b \<and> b < e" for b
  proof
    assume b: "start_of ?B b = s"
    show "s \<le> b \<and> b < e"
    proof (cases "?B b")
      case None
      then show ?thesis
        using b bucketing.start_own [OF assms(2,6)] by (simp add: start_of_def)
    next
      case (Some p)
      then show ?thesis
        using b bucketing.start_own [OF assms(2)] bucketing.start_own [OF assms(2,6)]
          bucketing.within [OF assms(2)] by (cases p) (fastforce simp: start_of_def)
    qed
  qed (use bucketing.same [OF assms(2,6)] in \<open>simp add: start_of_def\<close>)
  have "sum_where ?Q (column dir) (tier_table tier (st_db st')) = tier_view ?B tier Tier_Minute st' dir ?Q"
    using closed_view [OF pair, of ch st' now t s e dir "\<lambda>k. R (snd k)"] assms(2,6,7)
      rollup_idle [OF assms(5) pair] by (simp add: zone)
  also have "\<dots> = tier_view ?B tier Tier_Minute st dir ?Q"
    using assms(8) by (intro rollup_keeps_view [OF assms(1-5)]) auto
  finally show ?thesis by (simp add: tier_view_def start conj_assoc)
qed

lemma demo_traffic_run: "map_option fst (rollup gregorian no_faults 1783337400 demo_traffic) = Some (Inr ())"
  by code_simp

lemma rollup_exact_witness:
  "\<exists>st'. rollup gregorian no_faults 1783337400 demo_traffic = Some (Inr (), st')
    \<and> sum_where (\<lambda>k. fk_bucket k = 1783332000) (column Direction_Ingress) (db_hour (st_db st')) = 150"
proof -
  obtain st' where run: "rollup gregorian no_faults 1783337400 demo_traffic = Some (Inr (), st')"
    using demo_traffic_run by (cases "rollup gregorian no_faults 1783337400 demo_traffic") force+
  have "zone_bounds gregorian (st_zone demo_traffic) Tier_Hour 1783332300 = Some (1783332000, 1783335600)"
    by (simp add: fixed_bounds_def)
  from rollup_exact [OF _ _ demo_traffic_ok(1,3) run this, where R = "\<lambda>_. True" and dir = Direction_Ingress]
  have "sum_where (\<lambda>k. fk_bucket k = 1783332000) (column Direction_Ingress) (db_hour (st_db st')) = 150"
    using hour.bucketing_axioms [of gregorian "st_zone demo_traffic"]
    by (simp add: GRACE_S_def demo_traffic_def demo_store_def empty_db_def wm_of_def column_def
        default_retention_def)
  with run show ?thesis by blast
qed

text \<open>C2. Rolling up changes the representation and not the history: for hours and days, any sum over
  the tier's rows together with the minutes still to come is the same before and after a job, failed
  statements included, for every selection of buckets the tier still keeps.\<close>

theorem rollup_preserves_history:
  assumes "tier \<in> {Tier_Hour, Tier_Day}" "bucketing (zone_bounds ch (st_zone st) tier)"
    and "store_ok st" "since_epoch (db_minute (st_db st))"
    and "rollup ch f now st = Some (res, st')"
    and "\<And>k. Q k \<Longrightarrow> now - (if tier = Tier_Hour then hour_s else day_s) (st_retention st) \<le> fk_bucket k"
  shows "tier_view (zone_bounds ch (st_zone st) tier) tier Tier_Minute st' dir Q
    = tier_view (zone_bounds ch (st_zone st) tier) tier Tier_Minute st dir Q"
  by (rule rollup_keeps_view [OF assms])

lemma rollup_preserves_history_witness:
  "\<exists>res st'. rollup gregorian no_faults 1783337400 demo_traffic = Some (res, st')
    \<and> tier_view (zone_bounds gregorian (Fixed 0) Tier_Day) Tier_Day Tier_Minute st' Direction_Egress
        (\<lambda>k. 1783296000 \<le> fk_bucket k)
      = tier_view (zone_bounds gregorian (Fixed 0) Tier_Day) Tier_Day Tier_Minute demo_traffic
        Direction_Egress (\<lambda>k. 1783296000 \<le> fk_bucket k)"
proof -
  obtain res st' where run: "rollup gregorian no_faults 1783337400 demo_traffic = Some (res, st')"
    using demo_traffic_run by (cases "rollup gregorian no_faults 1783337400 demo_traffic") force+
  show ?thesis
    using rollup_preserves_history [OF _ _ demo_traffic_ok(1,3) run, where tier = Tier_Day
        and Q = "\<lambda>k. 1783296000 \<le> fk_bucket k" and dir = Direction_Egress]
      day.bucketing_axioms [of "Fixed 0"] run
    by (auto simp: demo_traffic_ok(2)) (simp add: demo_traffic_def demo_store_def default_retention_def)
qed

text \<open>C19. The month tier, fed through the day tier, loses nothing either: when days nest in months, every
  row lies after the epoch and no unrolled minute belongs to a month that has already been rolled, any
  sum over the month rows, the days to come and the minutes to come is the same after a job, and the
  minutes are still timely, so the next job keeps it again. Months are never pruned, so the sum may
  range over all of history.\<close>

theorem rollup_preserves_months:
  assumes "refining (zone_bounds ch (st_zone st) Tier_Day) (zone_bounds ch (st_zone st) Tier_Month)"
    and "store_ok st" "past_epoch (zone_bounds ch (st_zone st) Tier_Day) st"
    and "timely (zone_bounds ch (st_zone st) Tier_Day) st"
    and "rollup ch f now st = Some (res, st')"
  shows "timely (zone_bounds ch (st_zone st) Tier_Day) st'
    \<and> month_view (zone_bounds ch (st_zone st) Tier_Day) (zone_bounds ch (st_zone st) Tier_Month) st' dir Q
      = month_view (zone_bounds ch (st_zone st) Tier_Day) (zone_bounds ch (st_zone st) Tier_Month) st dir Q"
  using rollup_month_view [OF assms] by blast

lemma rollup_preserves_months_witness:
  "\<exists>res st'. rollup gregorian no_faults 1788220800 demo_traffic = Some (res, st')
    \<and> timely (zone_bounds gregorian (Fixed 0) Tier_Day) st'"
proof -
  have "map_option fst (rollup gregorian no_faults 1788220800 demo_traffic) = Some (Inr ())"
    by code_simp
  then obtain res st' where run: "rollup gregorian no_faults 1788220800 demo_traffic = Some (res, st')"
    by (cases "rollup gregorian no_faults 1788220800 demo_traffic") force+
  have "past_epoch (zone_bounds gregorian (Fixed 0) Tier_Day) demo_traffic"
    "timely (zone_bounds gregorian (Fixed 0) Tier_Day) demo_traffic"
    unfolding past_epoch_def timely_def start_of_def gregorian_day
    by (simp_all add: demo_traffic_def demo_store_def empty_db_def since_epoch_def zone_offset_def
        wm_of_def)
  then show ?thesis
    using rollup_preserves_months [OF _ demo_traffic_ok(1) _ _ run] day_month.refining_axioms run
    by (auto simp: demo_traffic_ok(2))
qed

lemma set_own_table: "set_tier_table tier (tier_table tier d) d = d"
  by (cases tier) simp_all

lemma delete_nothing:
  assumes "kept st now tier = tier_table tier (st_db st)"
    and "filter (\<lambda>(k, _). \<not> fk_bucket k < b) (tier_table tier (st_db st)) = kept st now tier"
  shows "delete_before False tier b st = (Inr (), st)"
  using assms by (simp add: delete_before_def update_db_def set_own_table)

lemma prune_again:
  assumes "\<And>tier. kept st now tier = tier_table tier (st_db st)"
  shows "prune (rf_prune no_faults) now st = (Inr (), st)"
  using delete_nothing [OF assms kept_minute] delete_nothing [OF assms kept_hour]
    delete_nothing [OF assms kept_day]
  by (auto simp: prune_def no_faults_def Let_def watermark_wm_opt split: option.splits)

text \<open>C21. A rerun is harmless: after a job that succeeded, a job at the same time in which nothing fails
  succeeds and leaves the store exactly as it is, so nothing is counted twice.\<close>

theorem rollup_idempotent:
  assumes "rollup ch f now st = Some (Inr (), st')"
  shows "rollup ch no_faults now st' = Some (Inr (), st')"
proof -
  have idle: "idle ch tier src now st'" if "(tier, src) \<in> set ROLLUPS" for tier src
    by (rule rollup_idle [OF assms that])
  obtain s3 where p: "prune (rf_prune f) now s3 = (Inr (), st')"
    using assms by (cases rule: rollup_stages) simp_all
  have rel: "prune_rel now s3 st' {Tier_Day, Tier_Hour, Tier_Minute}"
    using prune_stages [OF p] by simp
  have tiers: "rollup_tier ch (rf_step no_faults tier) tier src now st' = Some (Inr (), st')"
    if "(tier, src) \<in> set ROLLUPS" for tier src
    using idle_tier [OF idle [OF that]] by (simp add: no_faults_def)
  have "rollup_each ch no_faults now ROLLUPS st' = Some (Inr (), st')"
    using tiers [of Tier_Hour Tier_Minute] tiers [of Tier_Day Tier_Minute] tiers [of Tier_Month Tier_Day]
    by (simp add: ROLLUPS_def)
  then show ?thesis by (simp add: rollup_def prune_again [OF kept_again [OF rel]])
qed

lemma rollup_idempotent_witness:
  "\<exists>st'. rollup gregorian no_faults 1783337400 demo_traffic = Some (Inr (), st')
    \<and> rollup gregorian no_faults 1783337400 st' = Some (Inr (), st')"
proof -
  obtain st' where run: "rollup gregorian no_faults 1783337400 demo_traffic = Some (Inr (), st')"
    using demo_traffic_run by (cases "rollup gregorian no_faults 1783337400 demo_traffic") force+
  with rollup_idempotent [OF run] show ?thesis by blast
qed

text \<open>C6. Pruning is safe: a prune only removes rows, and a row it removes is past the retention of its
  tier and has been rolled into every tier built from it: a minute lies below both the hour and the
  day watermark, a day below the month watermark, and a month is never removed. Watermarks,
  identities and configuration stay, and the store stays well formed.\<close>

theorem prune_safe:
  assumes "store_ok st" "prune f now st = (res, st')"
  shows "subseq (tier_table tier (st_db st')) (tier_table tier (st_db st))
    \<and> (\<forall>k c. (k, c) \<in> set (tier_table tier (st_db st)) \<and> (k, c) \<notin> set (tier_table tier (st_db st')) \<longrightarrow>
        (let b = fk_bucket k; r = st_retention st in
         case tier of
           Tier_Hour \<Rightarrow> b < now - hour_s r
         | Tier_Day \<Rightarrow> b < now - day_s r \<and> (\<exists>m. wm_opt Tier_Month st = Some m \<and> b < m)
         | Tier_Month \<Rightarrow> False
         | _ \<Rightarrow> b < now - minute_s r \<and> (\<exists>h d. wm_opt Tier_Hour st = Some h \<and> wm_opt Tier_Day st = Some d
              \<and> b < h \<and> b < d)))
    \<and> db_watermark (st_db st') = db_watermark (st_db st)
    \<and> db_identity (st_db st') = db_identity (st_db st)
    \<and> store_ok st'"
proof -
  obtain T where rel: "prune_rel now st st' T" using prune_stages [OF assms(2)] by auto
  have "subseq (tier_table tier (st_db st')) (tier_table tier (st_db st))"
    using prune_rel_table [OF rel, of tier] by (auto simp: kept_def)
  moreover have "expired st now tier (fk_bucket k)"
    if "(k, c) \<in> set (tier_table tier (st_db st))" "(k, c) \<notin> set (tier_table tier (st_db st'))" for k c
    using prune_rel_table [OF rel, of tier] that by (auto simp: kept_def)
  moreover have "db_watermark (st_db st') = db_watermark (st_db st)"
      "db_identity (st_db st') = db_identity (st_db st)"
    using rel by (simp_all add: prune_rel_def)
  ultimately show ?thesis
    using prune_ok [OF assms] by (cases tier) (auto simp: before_wm_def Let_def, blast+)
qed

lemma prune_safe_witness:
  "set (db_minute (st_db (snd (prune (rf_prune no_faults) 1883337400 demo_traffic))))
     \<subseteq> set (db_minute (st_db demo_traffic))"
proof -
  obtain r st' where p: "prune (rf_prune no_faults) 1883337400 demo_traffic = (r, st')" by force
  have "subseq (tier_table Tier_Minute (st_db st')) (tier_table Tier_Minute (st_db demo_traffic))"
    using prune_safe [OF demo_traffic_ok(1) p, of Tier_Minute] by blast
  then show ?thesis using p by (auto dest: list_emb_set)
qed

end
