(* ===== verification/Query.thy ===== *)
theory Query
  imports Rollup
begin

text \<open>
  The read side of the store (\<open>procflowd/src/query.rs\<close>): the typed verbs over the tier tables, with
  the uid boundary. A \<open>WHERE\<close> clause is a datatype with its meaning as a bool-valued function; SQL's
  \<open>lower\<close> and the failures of the engine are arguments.
\<close>

section \<open>Visibility and errors\<close>

datatype visibility = Vis_All | Vis_Uid u32

definition for_peer :: "u32 \<Rightarrow> visibility" where
  "for_peer uid = (if uid = 0 then Vis_All else Vis_Uid uid)"

datatype query_error = E_BadRequest string | E_NotFound string | E_Internal db_error

fun query_error_code :: "query_error \<Rightarrow> error_code" where
  "query_error_code (E_BadRequest _) = Bad_Request"
| "query_error_code (E_NotFound _) = Not_Found"
| "query_error_code (E_Internal _) = Internal"

text \<open>The text of an error; that of an engine error is the engine's.\<close>

fun query_error_text :: "(db_error \<Rightarrow> string) \<Rightarrow> query_error \<Rightarrow> string" where
  "query_error_text fmt (E_BadRequest m) = m"
| "query_error_text fmt (E_NotFound m) = m"
| "query_error_text fmt (E_Internal e) = fmt e"


section \<open>Predicates\<close>

text \<open>Clauses over \<open>identity i\<close>, and over the fact rows \<open>t\<close>.\<close>

datatype id_clause =
    Uid_Is u32
  | Project_Has string
  | Exe_Has string
  | User_Is string
  | Text_Has string
  | Id_In "i64 list"

datatype fact_clause = Scope_Is string | Identity_Is i64

record predicates =
  id_clauses :: "id_clause list"
  fact_clauses :: "fact_clause list"

definition no_predicates :: predicates where
  "no_predicates = \<lparr>id_clauses = [], fact_clauses = []\<rparr>"

definition push_id :: "id_clause \<Rightarrow> predicates \<Rightarrow> predicates" where
  "push_id c ps = ps\<lparr>id_clauses := id_clauses ps @ [c]\<rparr>"

definition push_fact :: "fact_clause \<Rightarrow> predicates \<Rightarrow> predicates" where
  "push_fact c ps = ps\<lparr>fact_clauses := fact_clauses ps @ [c]\<rparr>"

definition p_visibility :: "visibility \<Rightarrow> predicates \<Rightarrow> predicates" where
  "p_visibility vis ps = (case vis of Vis_Uid uid \<Rightarrow> push_id (Uid_Is uid) ps | Vis_All \<Rightarrow> ps)"

definition p_dimensions :: "string \<Rightarrow> string \<Rightarrow> string \<Rightarrow> predicates \<Rightarrow> predicates" where
  "p_dimensions project exe user ps =
     (let ps1 = (if project \<noteq> [] then push_id (Project_Has project) ps else ps);
          ps2 = (if exe \<noteq> [] then push_id (Exe_Has exe) ps1 else ps1)
      in if user \<noteq> [] then push_id (User_Is user) ps2 else ps2)"

definition p_scope :: "scope \<Rightarrow> predicates \<Rightarrow> predicates" where
  "p_scope s ps =
     (case s of
        Scope_All \<Rightarrow> ps
      | Scope_Loopback \<Rightarrow> push_fact (Scope_Is ''loopback'') ps
      | Scope_External \<Rightarrow> push_fact (Scope_Is ''external'') ps
      | Scope_Unspecified \<Rightarrow> push_fact (Scope_Is ''external'') ps)"

text \<open>\<open>USER_KEY\<close>: \<open>coalesce(i.username, CAST(i.uid AS VARCHAR))\<close>.\<close>

definition user_key :: "identity_record \<Rightarrow> string" where
  "user_key r = (case ir_username r of Some u \<Rightarrow> u | None \<Rightarrow> dec (unat (ir_uid r)))"

fun id_holds :: "(string \<Rightarrow> string) \<Rightarrow> id_row \<Rightarrow> id_clause \<Rightarrow> bool" where
  "id_holds lower i (Uid_Is uid) \<longleftrightarrow> ir_uid (row_rec i) = uid"
| "id_holds lower i (Project_Has s) \<longleftrightarrow> contains (lower (ir_project (row_rec i))) (lower s)"
| "id_holds lower i (Exe_Has s) \<longleftrightarrow> contains (lower (ir_exe (row_rec i))) (lower s)"
| "id_holds lower i (User_Is s) \<longleftrightarrow> user_key (row_rec i) = s"
| "id_holds lower i (Text_Has s) \<longleftrightarrow>
     contains (lower (ir_exe (row_rec i))) (lower s) \<or> contains (lower (ir_project (row_rec i))) (lower s)
     \<or> contains (lower (ir_comm (row_rec i))) (lower s)"
| "id_holds lower i (Id_In ids) \<longleftrightarrow> row_id i \<in> set ids"

fun fact_holds :: "fact_key \<Rightarrow> fact_clause \<Rightarrow> bool" where
  "fact_holds t (Scope_Is s) \<longleftrightarrow> fk_scope t = s"
| "fact_holds t (Identity_Is n) \<longleftrightarrow> fk_identity t = n"

definition ids_hold :: "(string \<Rightarrow> string) \<Rightarrow> predicates \<Rightarrow> id_row \<Rightarrow> bool" where
  "ids_hold lower ps i \<longleftrightarrow> list_all (id_holds lower i) (id_clauses ps)"

definition facts_hold :: "predicates \<Rightarrow> fact_key \<Rightarrow> bool" where
  "facts_hold ps t \<longleftrightarrow> list_all (fact_holds t) (fact_clauses ps)"

definition group_key :: "identity \<Rightarrow> group_by \<Rightarrow> string" where
  "group_key i by =
     (case by of
        Group_Project \<Rightarrow> id_project i
      | Group_Exe \<Rightarrow> id_exe i
      | Group_User \<Rightarrow> if id_username i = [] then dec (unat (id_uid i)) else id_username i
      | Group_Identity \<Rightarrow> []
      | Group_Unspecified \<Rightarrow> [])"

definition scope_from_sql :: "string \<Rightarrow> scope" where
  "scope_from_sql s = (if s = ''loopback'' then Scope_Loopback else Scope_External)"

definition range_s :: "time_range option \<Rightarrow> query_error + i64 \<times> i64" where
  "range_s r =
     (case r of
        None \<Rightarrow> Inl (E_BadRequest ''a time range is required'')
      | Some r \<Rightarrow>
          let from = from_unix_ms r div 1000; to = to_unix_ms r div 1000
          in if to \<le> from
             then Inl (E_BadRequest ''the time range is empty: from must be before to'')
             else Inr (from, to))"

definition tier_for_span :: "i64 \<Rightarrow> tier" where
  "tier_for_span span_s =
     (let HOUR = 3600
      in if span_s \<le> 3 * HOUR then Tier_Minute
         else if span_s \<le> 48 * HOUR then Tier_Hour
         else if span_s \<le> 92 * 24 * HOUR then Tier_Day
         else Tier_Month)"


section \<open>The verbs\<close>

text \<open>
  What a query needs of its surroundings: \<open>lower\<close>, and which of its statements the engine fails.
\<close>

record query_env =
  qe_lower :: "string \<Rightarrow> string"
  qe_wm_fails :: "tier \<Rightarrow> bool"
  qe_ids_fail :: bool
  qe_rows_fail :: bool

text \<open>The bounds are timestamps of wrapped products, as in \<open>Store\<close>.\<close>

definition select_between :: "i64 \<Rightarrow> i64 \<Rightarrow> fact_table \<Rightarrow> fact_table" where
  "select_between lo hi t =
     filter (\<lambda>(k, _). micros lo \<le> fk_bucket k * 1000000 \<and> fk_bucket k * 1000000 < micros hi) t"

definition unrolled :: "query_env \<Rightarrow> store \<Rightarrow> tier \<Rightarrow> query_error + i64" where
  "unrolled env st t =
     (case watermark (qe_wm_fails env t) t st of
        Inl e \<Rightarrow> Inl (E_Internal e)
      | Inr w \<Rightarrow> Inr (case w of None \<Rightarrow> 0 | Some w \<Rightarrow> w))"

definition sources :: "query_env \<Rightarrow> store \<Rightarrow> tier \<Rightarrow> query_error + (tier \<times> i64) list" where
  "sources env st tier =
     (case tier of
        Tier_Hour \<Rightarrow>
          (case unrolled env st Tier_Hour of Inl e \<Rightarrow> Inl e
           | Inr h \<Rightarrow> Inr [(Tier_Hour, 0), (Tier_Minute, h)])
      | Tier_Day \<Rightarrow>
          (case unrolled env st Tier_Day of Inl e \<Rightarrow> Inl e
           | Inr d \<Rightarrow> Inr [(Tier_Day, 0), (Tier_Minute, d)])
      | Tier_Month \<Rightarrow>
          (case unrolled env st Tier_Month of Inl e \<Rightarrow> Inl e
           | Inr m \<Rightarrow> (case unrolled env st Tier_Day of Inl e \<Rightarrow> Inl e
                      | Inr d \<Rightarrow> Inr [(Tier_Month, 0), (Tier_Day, m), (Tier_Minute, d)]))
      | _ \<Rightarrow> Inr [(Tier_Minute, 0)])"

definition stitched :: "query_env \<Rightarrow> store \<Rightarrow> tier \<Rightarrow> i64 \<Rightarrow> i64 \<Rightarrow> query_error + fact_table" where
  "stitched env st tier from to =
     (case sources env st tier of
        Inl e \<Rightarrow> Inl e
      | Inr ss \<Rightarrow> Inr (concat (map (\<lambda>(source, lo).
            select_between (max from lo) to (tier_table source (st_db st))) ss)))"

definition identity_of_row :: "id_row \<Rightarrow> identity" where
  "identity_of_row i =
     \<lparr>id_id = row_id i, id_uid = ir_uid (row_rec i), id_unit = ir_unit (row_rec i),
      id_exe = ir_exe (row_rec i), id_project = ir_project (row_rec i),
      id_cmdline = ir_cmdline (row_rec i), id_comm = ir_comm (row_rec i),
      id_username = (case ir_username (row_rec i) of None \<Rightarrow> [] | Some u \<Rightarrow> u),
      id_raw_cmdline = ir_raw_cmdline (row_rec i),
      id_first_seen_ms = row_first_seen i * 1000, id_last_seen_ms = row_last_seen i * 1000\<rparr>"

text \<open>The two orders the identity query is used with.\<close>

definition order_by_id :: "id_row list \<Rightarrow> id_row list" where
  "order_by_id = sort_key row_id"

definition order_by_last_seen :: "id_row list \<Rightarrow> id_row list" where
  "order_by_last_seen = sort_key (\<lambda>i. (- row_last_seen i, row_id i))"

definition select_identities ::
    "query_env \<Rightarrow> predicates \<Rightarrow> (id_row list \<Rightarrow> id_row list) \<Rightarrow> store \<Rightarrow> query_error + identity list" where
  "select_identities env ps order st =
     (if qe_ids_fail env then Inl (E_Internal Db_Fault)
      else Inr (map identity_of_row (order (filter (ids_hold (qe_lower env) ps) (db_identity (st_db st))))))"

definition identities_by_id :: "query_env \<Rightarrow> visibility \<Rightarrow> i64 list \<Rightarrow> store \<Rightarrow> query_error + identity list" where
  "identities_by_id env vis ids st =
     (if ids = [] then Inr []
      else select_identities env (push_id (Id_In ids) (p_visibility vis no_predicates)) order_by_id st)"

text \<open>\<open>to_string\<close> of an \<open>i64\<close>.\<close>

definition dec_int :: "int \<Rightarrow> string" where
  "dec_int n = (if n < 0 then ''-'' @ dec (nat (- n)) else dec (nat n))"

definition q_resolve :: "query_env \<Rightarrow> visibility \<Rightarrow> i64 \<Rightarrow> store \<Rightarrow> query_error + identity" where
  "q_resolve env vis identity_id st =
     (case identities_by_id env vis [identity_id] st of
        Inl e \<Rightarrow> Inl e
      | Inr is \<Rightarrow> if is = [] then Inl (E_NotFound (''no identity '' @ dec_int identity_id))
                 else Inr (last is))"

definition empty_rows :: rows where
  "empty_rows = \<lparr>r_counters = [], r_identities = [], r_tier = Tier_Unspecified, r_demo = False\<rparr>"

definition q_list_identities :: "query_env \<Rightarrow> visibility \<Rightarrow> list_identities \<Rightarrow> store \<Rightarrow> query_error + rows" where
  "q_list_identities env vis q st =
     (let ps = p_dimensions (li_project q) (li_exe q) (li_user q) (p_visibility vis no_predicates);
          ps = (if li_filter q \<noteq> [] then push_id (Text_Has (li_filter q)) ps else ps)
      in case select_identities env ps order_by_last_seen st of
           Inl e \<Rightarrow> Inl e
         | Inr is \<Rightarrow> Inr (empty_rows\<lparr>r_identities := is\<rparr>))"

text \<open>\<open>FROM (traffic) t JOIN identity i ON i.id = t.identity_id WHERE ...\<close>.\<close>

definition joined :: "query_env \<Rightarrow> predicates \<Rightarrow> fact_table \<Rightarrow> store \<Rightarrow> (id_row \<times> fact_key \<times> counts) list" where
  "joined env ps traffic st =
     concat (map (\<lambda>(k, c).
       map (\<lambda>i. (i, k, c))
         (filter (\<lambda>i. row_id i = fk_identity k \<and> ids_hold (qe_lower env) ps i \<and> facts_hold ps k)
           (db_identity (st_db st)))) traffic)"

text \<open>The grouping columns of \<open>top\<close>.\<close>

definition top_key :: "group_by \<Rightarrow> id_row \<Rightarrow> fact_key \<Rightarrow> i64 \<times> string \<times> string" where
  "top_key by i k =
     (case by of
        Group_Project \<Rightarrow> (0, ir_project (row_rec i), fk_scope k)
      | Group_Exe \<Rightarrow> (0, ir_exe (row_rec i), fk_scope k)
      | Group_User \<Rightarrow> (0, user_key (row_rec i), fk_scope k)
      | _ \<Rightarrow> (fk_identity k, [], fk_scope k))"

definition top_groups ::
    "query_env \<Rightarrow> predicates \<Rightarrow> group_by \<Rightarrow> fact_table \<Rightarrow> store \<Rightarrow> ((i64 \<times> string \<times> string) \<times> sums) list" where
  "top_groups env ps by traffic st =
     fold (\<lambda>(k, d). hash_bump k d)
       (map (\<lambda>(i, k, c). (top_key by i k, widen c)) (joined env ps traffic st)) []"

definition rank_sum :: "direction \<Rightarrow> sums \<Rightarrow> int" where
  "rank_sum dir s =
     (case dir of
        Direction_Ingress \<Rightarrow> sum_in s
      | Direction_Egress \<Rightarrow> sum_eg s
      | Direction_Unspecified \<Rightarrow> sum_in s + sum_eg s)"

fun top_rows :: "i64 \<Rightarrow> ((i64 \<times> string \<times> string) \<times> sums) list \<Rightarrow> query_error + counter_row list" where
  "top_rows from [] = Inr []"
| "top_rows from (((n, g, sc), s) # rest) =
     (case cast_ubigint s of
        None \<Rightarrow> Inl (E_Internal Out_Of_Range)
      | Some c \<Rightarrow> (case top_rows from rest of
                     Inl e \<Rightarrow> Inl e
                   | Inr rs \<Rightarrow> Inr (\<lparr>cr_identity_id = n, cr_bucket_ms = from * 1000,
                                   cr_scope = scope_from_sql sc, cr_ingress = ingress c,
                                   cr_egress = egress c, cr_group_key = g\<rparr> # rs)))"

definition take_limit :: "u32 \<Rightarrow> 'a list \<Rightarrow> 'a list" where
  "take_limit limit xs = (if 0 < limit then take (unat limit) xs else xs)"

definition q_top :: "query_env \<Rightarrow> visibility \<Rightarrow> top_identities \<Rightarrow> i64 \<Rightarrow> store \<Rightarrow> query_error + rows" where
  "q_top env vis q now_s st =
     (case range_s (ti_range q) of Inl e \<Rightarrow> Inl e | Inr (from, to) \<Rightarrow>
      let tier = (if ti_tier q = Tier_Unspecified then finest_covering (st_retention st) from now_s
                  else ti_tier q) in
      case stitched env st tier from to of Inl e \<Rightarrow> Inl e | Inr traffic \<Rightarrow>
      let ps = p_scope (ti_scope q)
                 (p_dimensions (ti_project q) (ti_exe q) (ti_user q) (p_visibility vis no_predicates));
          groups = sort_key (\<lambda>(k, s). (- rank_sum (ti_direction q) s, k))
                     (top_groups env ps (ti_group_by q) traffic st) in
      if qe_rows_fail env then Inl (E_Internal Db_Fault)
      else case top_rows from (take_limit (ti_limit q) groups) of Inl e \<Rightarrow> Inl e | Inr counters \<Rightarrow>
      let ids = remdups_adj (sort (filter (\<lambda>n. n \<noteq> 0) (map cr_identity_id counters))) in
      case identities_by_id env vis ids st of Inl e \<Rightarrow> Inl e | Inr is \<Rightarrow>
      Inr \<lparr>r_counters = counters, r_identities = is, r_tier = tier, r_demo = False\<rparr>)"

text \<open>Rows folded into the tier's buckets, in the order of bucket and scope.\<close>

fun fold_buckets ::
    "(i64 \<Rightarrow> (i64 \<times> i64) option) \<Rightarrow> fact_table \<Rightarrow> ((i64 \<times> int) \<times> counts) list
       \<Rightarrow> ((i64 \<times> int) \<times> counts) list option" where
  "fold_buckets bounds [] acc = Some acc"
| "fold_buckets bounds ((k, c) # rest) acc =
     (case bounds (fk_bucket k) of
        None \<Rightarrow> None
      | Some (start, _) \<Rightarrow>
          fold_buckets bounds rest (btree_bump (start, scope_i32 (scope_from_sql (fk_scope k))) c acc))"

definition q_series ::
    "'d chrono \<Rightarrow> query_env \<Rightarrow> visibility \<Rightarrow> series_req \<Rightarrow> i64 \<Rightarrow> store \<Rightarrow> query_error + rows" where
  "q_series ch env vis q now_s st =
     (case range_s (sr_range q) of Inl e \<Rightarrow> Inl e | Inr (from, to) \<Rightarrow>
      case q_resolve env vis (sr_identity_id q) st of Inl e \<Rightarrow> Inl e | Inr identity \<Rightarrow>
      let tier = (if sr_tier q = Tier_Unspecified
                  then max (finest_covering (st_retention st) from now_s) (tier_for_span (to - from))
                  else sr_tier q) in
      case stitched env st tier from to of Inl e \<Rightarrow> Inl e | Inr traffic \<Rightarrow>
      let ps = p_scope (sr_scope q) (push_fact (Identity_Is (id_id identity)) no_predicates) in
      if qe_rows_fail env then Inl (E_Internal Db_Fault)
      else case fold_buckets (zone_bounds ch (st_zone st) tier)
                  (filter (\<lambda>(k, _). facts_hold ps k) traffic) [] of
             None \<Rightarrow> Inl (E_Internal Panicked)
           | Some buckets \<Rightarrow>
               Inr \<lparr>r_counters = map (\<lambda>((start, sc), c).
                      \<lparr>cr_identity_id = id_id identity, cr_bucket_ms = start * 1000,
                       cr_scope = scope_of_i32 sc, cr_ingress = ingress c, cr_egress = egress c,
                       cr_group_key = []\<rparr>) buckets,
                    r_identities = [identity], r_tier = tier, r_demo = False\<rparr>)"

end
