(* ===== verification/Query_Props.thy ===== *)
theory Query_Props
  imports Query Rollup_Props
begin

text \<open>
  What the queries promise: the uid boundary as an interface every verb provides (a verb's answer
  depends only on the part of the store its caller may see), the rows of \<open>top\<close> as the exact ranked
  totals, and the errors of the time range.
\<close>

section \<open>The visible part of a store\<close>

fun may_see :: "visibility \<Rightarrow> id_row \<Rightarrow> bool" where
  "may_see Vis_All i \<longleftrightarrow> True"
| "may_see (Vis_Uid u) i \<longleftrightarrow> ir_uid (row_rec i) = u"

definition visible_rows :: "visibility \<Rightarrow> db \<Rightarrow> id_row list" where
  "visible_rows vis d = filter (may_see vis) (db_identity d)"

definition visible_facts :: "visibility \<Rightarrow> db \<Rightarrow> fact_table \<Rightarrow> fact_table" where
  "visible_facts vis d t = filter (\<lambda>(k, _). \<exists>i \<in> set (visible_rows vis d). row_id i = fk_identity k) t"

definition visible_store :: "visibility \<Rightarrow> store \<Rightarrow> store" where
  "visible_store vis st = update_db (\<lambda>d. d\<lparr>
     db_identity := visible_rows vis d,
     db_minute := visible_facts vis d (db_minute d), db_hour := visible_facts vis d (db_hour d),
     db_day := visible_facts vis d (db_day d), db_month := visible_facts vis d (db_month d)\<rparr>) st"

lemma visible_store_simps [simp]:
  "st_zone (visible_store vis st) = st_zone st"
  "st_retention (visible_store vis st) = st_retention st"
  "db_identity (st_db (visible_store vis st)) = visible_rows vis (st_db st)"
  "db_watermark (st_db (visible_store vis st)) = db_watermark (st_db st)"
  "tier_table t (st_db (visible_store vis st)) = visible_facts vis (st_db st) (tier_table t (st_db st))"
  by (cases t; simp add: visible_store_def update_db_def)+

text \<open>
  The interface of a verb: its answer is the answer on the visible part. Two stores that agree on
  what the caller may see cannot be told apart by such a verb, and such verbs compose.
\<close>

locale uid_scoped =
  fixes verb :: "visibility \<Rightarrow> store \<Rightarrow> 'a"
  assumes confined: "verb vis st = verb vis (visible_store vis st)"
begin

lemma noninterference: "visible_store vis st = visible_store vis st' \<Longrightarrow> verb vis st = verb vis st'"
  by (metis confined)

lemma post: "uid_scoped (\<lambda>vis st. f (verb vis st))"
  by unfold_locales (metis confined)

end

lemma uid_scoped_const: "uid_scoped (\<lambda>vis st. c)"
  by unfold_locales simp

lemma uid_scoped_bind:
  assumes "uid_scoped f" "\<And>x. uid_scoped (g x)"
  shows "uid_scoped (\<lambda>vis st. case f vis st of Inl e \<Rightarrow> Inl e | Inr x \<Rightarrow> g x vis st)"
proof
  fix vis st
  show "(case f vis st of Inl e \<Rightarrow> Inl e | Inr x \<Rightarrow> g x vis st)
      = (case f vis (visible_store vis st) of Inl e \<Rightarrow> Inl e | Inr x \<Rightarrow> g x vis (visible_store vis st))"
    using uid_scoped.confined [OF assms(1), of vis st] uid_scoped.confined [OF assms(2), of _ vis st]
    by (simp split: sum.split)
qed


section \<open>The verbs are confined\<close>

lemma ids_hold_push [simp]: "ids_hold lower (push_id c ps) i \<longleftrightarrow> ids_hold lower ps i \<and> id_holds lower i c"
  by (auto simp: ids_hold_def push_id_def)

lemma ids_hold_push_fact [simp]: "ids_hold lower (push_fact c ps) i = ids_hold lower ps i"
  by (simp add: ids_hold_def push_fact_def)

lemma facts_hold_push [simp]: "facts_hold (push_fact c ps) k \<longleftrightarrow> facts_hold ps k \<and> fact_holds k c"
  by (auto simp: facts_hold_def push_fact_def)

lemma facts_hold_push_id [simp]: "facts_hold (push_id c ps) k = facts_hold ps k"
  by (simp add: facts_hold_def push_id_def)

lemma no_predicates_hold [simp]: "ids_hold lower no_predicates i" "facts_hold no_predicates k"
  by (simp_all add: ids_hold_def facts_hold_def no_predicates_def)

lemma ids_hold_visibility [simp]:
  "ids_hold lower (p_visibility vis ps) i \<longleftrightarrow> ids_hold lower ps i \<and> may_see vis i"
  by (cases vis) (auto simp: p_visibility_def)

lemma ids_hold_scope [simp]: "ids_hold lower (p_scope s ps) i = ids_hold lower ps i"
  by (cases s) (simp_all add: p_scope_def)

lemma ids_hold_dimensions: "ids_hold lower (p_dimensions p e u ps) i \<Longrightarrow> ids_hold lower ps i"
  by (simp add: p_dimensions_def Let_def split: if_splits)

lemmas seen_rows = ids_hold_dimensions [THEN ids_hold_visibility [THEN iffD1], THEN conjunct2]

lemma visible_rows_filter:
  assumes "\<And>i. P i \<Longrightarrow> may_see vis i"
  shows "filter P (visible_rows vis d) = filter P (db_identity d)"
proof -
  have "(P i \<and> may_see vis i) = P i" for i using assms by blast
  then show ?thesis by (simp add: visible_rows_def conj_commute)
qed

lemma select_identities_scoped:
  assumes "\<And>vis i. ids_hold (qe_lower env) (ps vis) i \<Longrightarrow> may_see vis i"
  shows "uid_scoped (\<lambda>vis. select_identities env (ps vis) order)"
  by unfold_locales (simp add: select_identities_def visible_rows_filter [OF assms])

lemma identities_by_id_scoped: "uid_scoped (\<lambda>vis. identities_by_id env vis ids)"
proof (cases "ids = []")
  case False
  then show ?thesis
    using select_identities_scoped [of env "\<lambda>vis. push_id (Id_In ids) (p_visibility vis no_predicates)"]
    by (simp add: identities_by_id_def [abs_def])
qed (simp add: identities_by_id_def [abs_def] uid_scoped_const)

lemma stitched_visible:
  "stitched env (visible_store vis st) tier from to
   = map_sum id (visible_facts vis (st_db st)) (stitched env st tier from to)"
proof -
  have u: "unrolled env (visible_store vis st) = unrolled env st"
    by (rule ext) (simp add: unrolled_def watermark_def)
  have s: "sources env (visible_store vis st) tier = sources env st tier"
    unfolding sources_def u by (rule refl)
  have "select_between lo hi (visible_facts vis d t) = visible_facts vis d (select_between lo hi t)"
    for lo hi d t
    unfolding select_between_def visible_facts_def filter_filter by (rule filter_cong) auto
  moreover have "visible_facts vis d (concat (map f xs)) = concat (map (visible_facts vis d \<circ> f) xs)"
    for d f and xs :: "(tier \<times> i64) list"
    by (induction xs) (simp_all add: visible_facts_def)
  ultimately show ?thesis
    unfolding stitched_def s
    by (auto split: sum.split simp: comp_def case_prod_beta')
qed

lemma concat_map_filter: "(\<And>x. \<not> P x \<Longrightarrow> f x = []) \<Longrightarrow> concat (map f (filter P xs)) = concat (map f xs)"
  by (induction xs) auto

lemma joined_visible:
  assumes "\<And>i. ids_hold (qe_lower env) ps i \<Longrightarrow> may_see vis i"
  shows "joined env ps (visible_facts vis (st_db st) traffic) (visible_store vis st) = joined env ps traffic st"
proof -
  let ?P = "\<lambda>k i. row_id i = fk_identity k \<and> ids_hold (qe_lower env) ps i \<and> facts_hold ps k"
  let ?J = "\<lambda>k. filter (?P k) (db_identity (st_db st))"
  have v: "filter (?P k) (visible_rows vis (st_db st)) = ?J k" for k
    by (rule visible_rows_filter) (simp add: assms)
  show ?thesis
    unfolding joined_def visible_store_simps v visible_facts_def
  proof (rule concat_map_filter)
    fix x assume "\<not> (case x of (k, _) \<Rightarrow> \<exists>i \<in> set (visible_rows vis (st_db st)). row_id i = fk_identity k)"
    then have "?J (fst x) = []"
      using assms by (auto simp: filter_empty_conv visible_rows_def)
    then show "(case x of (k, c) \<Rightarrow> map (\<lambda>i. (i, k, c)) (?J k)) = []" by (cases x) simp
  qed
qed

lemma q_resolve_id:
  assumes "q_resolve env vis n st = Inr identity"
  shows "id_id identity = n \<and> (\<exists>i \<in> set (db_identity (st_db st)). row_id i = n \<and> may_see vis i
    \<and> identity = identity_of_row i)"
proof -
  obtain rs where "identities_by_id env vis [n] st = Inr rs" "rs \<noteq> []" "identity = last rs"
    using assms by (simp add: q_resolve_def split: sum.splits if_splits)
  moreover have "set rs \<subseteq> identity_of_row ` {i \<in> set (db_identity (st_db st)). row_id i = n \<and> may_see vis i}"
    using calculation(1)
    by (auto simp: identities_by_id_def select_identities_def order_by_id_def split: if_splits)
  ultimately have "identity \<in> identity_of_row ` {i \<in> set (db_identity (st_db st)). row_id i = n \<and> may_see vis i}"
    using last_in_set by blast
  then show ?thesis by (auto simp: identity_of_row_def)
qed

text \<open>The four verbs provide the interface.\<close>

lemma q_resolve_scoped: "uid_scoped (\<lambda>vis. q_resolve env vis n)"
  unfolding q_resolve_def
  by (rule uid_scoped_bind [OF identities_by_id_scoped uid_scoped_const])

interpretation resolve_verb: uid_scoped "\<lambda>vis. q_resolve env vis n"
  by (rule q_resolve_scoped)

lemma q_list_scoped: "uid_scoped (\<lambda>vis. q_list_identities env vis q)"
proof -
  have "uid_scoped (\<lambda>vis. select_identities env (if li_filter q \<noteq> []
      then push_id (Text_Has (li_filter q))
        (p_dimensions (li_project q) (li_exe q) (li_user q) (p_visibility vis no_predicates))
      else p_dimensions (li_project q) (li_exe q) (li_user q) (p_visibility vis no_predicates)) order_by_last_seen)"
    by (rule select_identities_scoped) (auto split: if_splits dest: seen_rows)
  from uid_scoped.post [OF this, of "\<lambda>r. case r of Inl e \<Rightarrow> Inl e | Inr rs \<Rightarrow> Inr (empty_rows\<lparr>r_identities := rs\<rparr>)"]
  show ?thesis unfolding q_list_identities_def Let_def .
qed

interpretation list_verb: uid_scoped "\<lambda>vis. q_list_identities env vis q"
  by (rule q_list_scoped)

lemma q_top_scoped: "uid_scoped (\<lambda>vis. q_top env vis q now)"
proof
  fix vis st
  have j: "joined env (p_scope sc (p_dimensions a b c (p_visibility vis no_predicates)))
      (visible_facts vis (st_db st) t) (visible_store vis st)
    = joined env (p_scope sc (p_dimensions a b c (p_visibility vis no_predicates))) t st" for sc a b c t
    by (rule joined_visible) (auto dest: seen_rows)
  have ids: "identities_by_id env vis ids (visible_store vis st) = identities_by_id env vis ids st" for ids
    using uid_scoped.confined [OF identities_by_id_scoped] by metis
  show "q_top env vis q now st = q_top env vis q now (visible_store vis st)"
    unfolding q_top_def Let_def stitched_visible visible_store_simps
    by (intro sum.case_cong refl) (auto simp: top_groups_def j ids split: sum.split)
qed

interpretation top_verb: uid_scoped "\<lambda>vis. q_top env vis q now"
  by (rule q_top_scoped)

lemma q_series_scoped: "uid_scoped (\<lambda>vis. q_series ch env vis q now)"
proof
  fix vis st
  have r: "q_resolve env vis n (visible_store vis st) = q_resolve env vis n st" for n
    using resolve_verb.confined by metis
  have f: "filter (\<lambda>(k, _). facts_hold (p_scope sc (push_fact (Identity_Is (id_id i)) no_predicates)) k)
        (visible_facts vis (st_db st) t)
      = filter (\<lambda>(k, _). facts_hold (p_scope sc (push_fact (Identity_Is (id_id i)) no_predicates)) k) t"
    if i: "q_resolve env vis n st = Inr i" for sc n i t
  proof -
    have "\<exists>w \<in> set (visible_rows vis (st_db st)). row_id w = id_id i"
      using q_resolve_id [OF i] by (auto simp: visible_rows_def)
    moreover have "fk_identity k = id_id i"
      if "facts_hold (p_scope sc (push_fact (Identity_Is (id_id i)) no_predicates)) k" for k
      using that by (cases sc) (simp_all add: p_scope_def)
    ultimately have seen: "(case x of (k, _) \<Rightarrow> \<exists>w \<in> set (visible_rows vis (st_db st)). row_id w = fk_identity k)"
      if "case x of (k, _) \<Rightarrow> facts_hold (p_scope sc (push_fact (Identity_Is (id_id i)) no_predicates)) k" for x
      using that by (cases x) auto
    show ?thesis
      unfolding visible_facts_def filter_filter
      by (rule filter_cong [OF refl], rule iffI, erule conjunct2, rule conjI, erule seen, assumption)
  qed
  show "q_series ch env vis q now st = q_series ch env vis q now (visible_store vis st)"
  proof (cases "q_resolve env vis (sr_identity_id q) st")
    case (Inl e)
    then show ?thesis by (simp add: q_series_def r split: sum.split)
  next
    case (Inr i)
    show ?thesis
      unfolding q_series_def Let_def stitched_visible visible_store_simps r Inr sum.case
      by (auto simp: f [OF Inr] split: sum.split)
  qed
qed

interpretation series_verb: uid_scoped "\<lambda>vis. q_series ch env vis q now"
  by (rule q_series_scoped)


section \<open>Totals\<close>

lemma top_rows_Inr:
  "top_rows lo gs = Inr rs \<Longrightarrow>
   list_all2 (\<lambda>r ((n, g, sc), s). cr_identity_id r = n \<and> cr_group_key r = g \<and> cr_scope r = scope_from_sql sc
     \<and> cr_bucket_ms r = lo * 1000 \<and> uint (cr_ingress r) = sum_in s \<and> uint (cr_egress r) = sum_eg s) rs gs"
proof (induction lo gs arbitrary: rs rule: top_rows.induct)
  case (2 lo n g sc s rest)
  obtain c qs where c: "cast_ubigint s = Some c" and qs: "top_rows lo rest = Inr qs"
    and rs: "rs = \<lparr>cr_identity_id = n, cr_bucket_ms = lo * 1000, cr_scope = scope_from_sql sc,
      cr_ingress = ingress c, cr_egress = egress c, cr_group_key = g\<rparr> # qs"
    using "2.prems" by (auto split: option.splits sum.splits)
  have "uint (ingress c) = sum_in s \<and> uint (egress c) = sum_eg s"
    using cast_ubigint_column [OF c, of Direction_Ingress] cast_ubigint_column [OF c, of Direction_Egress]
    by (simp add: column_def wide_column_def)
  then show ?case using "2.IH" [OF c qs] by (simp add: rs)
qed simp

lemma sum_where_map: "sum_where P f (map (\<lambda>(k, c). (g k, c)) t) = sum_where (\<lambda>k. P (g k)) f t"
  by (induction t) auto

lemma sum_where_btree_bump:
  "sum_where P id (btree_bump k d t) = (if P k then d else 0) + sum_where P id t"
  by (induction k d t rule: btree_bump.induct) (auto simp: ac_simps)

lemma sum_where_btree_fold:
  "sum_where P id (fold (\<lambda>(k, d). btree_bump k d) ds t) = sum_where P id t + sum_where P id ds"
  by (induction ds arbitrary: t) (auto simp: sum_where_btree_bump ac_simps)

definition series_key :: "(i64 \<Rightarrow> (i64 \<times> i64) option) \<Rightarrow> fact_key \<Rightarrow> i64 \<times> int" where
  "series_key bounds k = (start_of bounds (fk_bucket k), scope_i32 (scope_from_sql (fk_scope k)))"

lemma fold_buckets_Some:
  "fold_buckets bounds rs acc = Some buckets \<Longrightarrow>
   buckets = fold (\<lambda>(k, d). btree_bump k d) (map (\<lambda>(k, c). (series_key bounds k, c)) rs) acc"
proof (induction bounds rs acc rule: fold_buckets.induct)
  case (2 bounds k c rest acc)
  then show ?case by (auto simp: series_key_def start_of_def split: option.splits)
qed simp

declare scope_of_i32.simps [simp del]

definition scope_selects :: "scope \<Rightarrow> string \<Rightarrow> bool" where
  "scope_selects sc s \<longleftrightarrow>
     (case sc of Scope_All \<Rightarrow> True | Scope_Loopback \<Rightarrow> s = ''loopback'' | _ \<Rightarrow> s = ''external'')"

lemma facts_hold_scope [simp]: "facts_hold (p_scope sc ps) k \<longleftrightarrow> facts_hold ps k \<and> scope_selects sc (fk_scope k)"
  by (cases sc) (simp_all add: p_scope_def scope_selects_def)

lemma sum_list_pairs: "sum_list (map (\<lambda>(a, b). f a b) xs) = sum_list (map (\<lambda>p. f (fst p) (snd p)) xs)"
  by (simp add: case_prod_unfold)

lemma series_counters_sum:
  "sum_list (map (\<lambda>r. Counts (cr_ingress r) (cr_egress r))
     (filter (\<lambda>r. cr_bucket_ms r = start * 1000 \<and> cr_scope r = sc)
       (map (\<lambda>((start, sc), c). \<lparr>cr_identity_id = n, cr_bucket_ms = start * 1000, cr_scope = scope_of_i32 sc,
          cr_ingress = ingress c, cr_egress = egress c, cr_group_key = []\<rparr>) buckets)))
   = sum_where (\<lambda>(s, v). s = start \<and> scope_of_i32 v = sc) id buckets"
  by (induction buckets) auto


section \<open>Properties\<close>

definition top_predicates :: "visibility \<Rightarrow> top_identities \<Rightarrow> predicates" where
  "top_predicates vis q =
     p_scope (ti_scope q) (p_dimensions (ti_project q) (ti_exe q) (ti_user q) (p_visibility vis no_predicates))"

text \<open>C16. The totals of \<open>top\<close> are exact and ranked: an answer's rows are, in order and up to the limit, the
  groups of the visible rows the filters select, no group twice, largest first by the asked direction;
  each row carries the key and scope of its group and exactly the sum of the group's bytes in both
  columns.\<close>

theorem top_ranks_totals:
  assumes "q_top env vis q now st = Inr rows"
  shows "\<exists>lo hi traffic gs.
    range_s (ti_range q) = Inr (lo, hi) \<and> stitched env st (r_tier rows) lo hi = Inr traffic \<and>
    distinct (map fst gs) \<and>
    sorted_wrt (\<lambda>a b. rank_sum (ti_direction q) (snd b) \<le> rank_sum (ti_direction q) (snd a)) gs \<and>
    (\<forall>key s. (key, s) \<in> set gs \<longleftrightarrow>
       (\<exists>(i, k, c) \<in> set (joined env (top_predicates vis q) traffic st). top_key (ti_group_by q) i k = key) \<and>
       s = sum_list (map (\<lambda>(i, k, c). widen c)
             (filter (\<lambda>(i, k, c). top_key (ti_group_by q) i k = key)
               (joined env (top_predicates vis q) traffic st)))) \<and>
    list_all2 (\<lambda>r ((n, g, sc), s). cr_identity_id r = n \<and> cr_group_key r = g
         \<and> cr_scope r = scope_from_sql sc \<and> cr_bucket_ms r = lo * 1000
         \<and> uint (cr_ingress r) = sum_in s \<and> uint (cr_egress r) = sum_eg s)
      (r_counters rows) (take_limit (ti_limit q) gs)"
proof -
  obtain lo hi traffic where range: "range_s (ti_range q) = Inr (lo, hi)"
    and traffic: "stitched env st (r_tier rows) lo hi = Inr traffic"
    and top: "top_rows lo (take_limit (ti_limit q)
        (sort_key (\<lambda>(k, s). (- rank_sum (ti_direction q) s, k))
          (top_groups env (top_predicates vis q) (ti_group_by q) traffic st))) = Inr (r_counters rows)"
    using assms by (auto simp: q_top_def Let_def top_predicates_def split: sum.splits if_splits)
  let ?J = "joined env (top_predicates vis q) traffic st" and ?key = "top_key (ti_group_by q)"
  let ?G = "top_groups env (top_predicates vis q) (ti_group_by q) traffic st"
  let ?f = "\<lambda>(k :: i64 \<times> string \<times> string, s). (- rank_sum (ti_direction q) s, k)"
  let ?ds = "map (\<lambda>(i, k, c). (?key i k, widen c)) ?J"
  have G: "?G = fold (\<lambda>(k, d). hash_bump k d) ?ds []" by (simp add: top_groups_def)
  have "mset (map fst (sort_key ?f ?G)) = mset (map fst ?G)" by simp
  then have distinct: "distinct (map fst (sort_key ?f ?G))"
    using hash.distinct_fold [of ?ds] unfolding G by (metis mset_eq_imp_distinct_iff)
  have "sorted (map ?f (sort_key ?f ?G))" by simp
  then have ranked: "sorted_wrt (\<lambda>a b. rank_sum (ti_direction q) (snd b) \<le> rank_sum (ti_direction q) (snd a)) (sort_key ?f ?G)"
    unfolding sorted_map by (rule sorted_wrt_mono_rel [rotated]) (auto simp: less_eq_prod_def)
  have sum: "sum_at key ?ds = sum_list (map (\<lambda>(i, k, c). widen c) (filter (\<lambda>(i, k, c). ?key i k = key) ?J))" for key
    by (induction ?J) (auto simp: sum_at_def filter_map comp_def case_prod_unfold)
  have entries: "(key, s) \<in> set (sort_key ?f ?G) \<longleftrightarrow>
      (\<exists>(i, k, c) \<in> set ?J. ?key i k = key) \<and>
      s = sum_list (map (\<lambda>(i, k, c). widen c) (filter (\<lambda>(i, k, c). ?key i k = key) ?J))" for key s
    unfolding set_sort G hash.fold_entry sum by force
  show ?thesis
    using range traffic distinct ranked entries top_rows_Inr [OF top] by blast
qed

text \<open>C34. A series is exact: its rows are in strict order of bucket and scope, all of the identity asked
  for, and the bytes of a bucket and scope are the sum, at the counters' width, of the identity's rows
  of the asked scope whose instant falls in that bucket, whichever tier each of them still lies in.\<close>

theorem series_adds_up:
  assumes "q_series ch env vis q now st = Inr rows"
  shows "\<exists>lo hi traffic.
    range_s (sr_range q) = Inr (lo, hi) \<and> stitched env st (r_tier rows) lo hi = Inr traffic \<and>
    sorted_wrt (<) (map (\<lambda>r. (cr_bucket_ms r, scope_i32 (cr_scope r))) (r_counters rows)) \<and>
    (\<forall>r \<in> set (r_counters rows). cr_identity_id r = sr_identity_id q) \<and>
    (\<forall>start sc.
       sum_list (map (\<lambda>r. Counts (cr_ingress r) (cr_egress r))
         (filter (\<lambda>r. cr_bucket_ms r = start * 1000 \<and> cr_scope r = sc) (r_counters rows)))
       = sum_where (\<lambda>k. fk_identity k = sr_identity_id q \<and> scope_selects (sr_scope q) (fk_scope k)
           \<and> start_of (zone_bounds ch (st_zone st) (r_tier rows)) (fk_bucket k) = start
           \<and> scope_from_sql (fk_scope k) = sc) id traffic)"
proof -
  obtain lo hi traffic identity buckets where range: "range_s (sr_range q) = Inr (lo, hi)"
    and id: "q_resolve env vis (sr_identity_id q) st = Inr identity"
    and traffic: "stitched env st (r_tier rows) lo hi = Inr traffic"
    and fold: "fold_buckets (zone_bounds ch (st_zone st) (r_tier rows))
        (filter (\<lambda>(k, _). facts_hold (p_scope (sr_scope q) (push_fact (Identity_Is (id_id identity)) no_predicates)) k)
          traffic) [] = Some buckets"
    and rows: "r_counters rows = map (\<lambda>((start, sc), c). \<lparr>cr_identity_id = id_id identity,
        cr_bucket_ms = start * 1000, cr_scope = scope_of_i32 sc, cr_ingress = ingress c,
        cr_egress = egress c, cr_group_key = []\<rparr>) buckets"
    using assms by (auto simp: q_series_def Let_def split: sum.splits option.splits if_splits)
  let ?B = "zone_bounds ch (st_zone st) (r_tier rows)"
  have n: "id_id identity = sr_identity_id q" using q_resolve_id [OF id] by simp
  let ?rs = "filter (\<lambda>(k, _). fk_identity k = sr_identity_id q \<and> scope_selects (sr_scope q) (fk_scope k)) traffic"
  let ?ds = "map (\<lambda>(k, c). (series_key ?B k, c)) ?rs"
  have buckets: "buckets = fold (\<lambda>(k, d). btree_bump k d) ?ds []"
    using fold_buckets_Some [OF fold] by (simp add: n)
  have "sorted_keys buckets" unfolding buckets by (rule btree.ok_fold) simp
  then have strict: "sorted_wrt (\<lambda>p q. fst p < fst q) buckets" by (simp add: strict_sorted_iff sorted_wrt_map [symmetric])
  have "scope_i32 (scope_of_i32 (snd k)) = snd k" if "k \<in> fst ` set buckets" for k
    using that unfolding buckets btree.keys_fold by (auto simp: series_key_def)
  then have code: "scope_i32 (scope_of_i32 (snd (fst p))) = snd (fst p)" if "p \<in> set buckets" for p
    using that by blast
  have sorted: "sorted_wrt (<) (map (\<lambda>r. (cr_bucket_ms r, scope_i32 (cr_scope r))) (r_counters rows))"
    unfolding rows sorted_wrt_map
    by (rule sorted_wrt_mono_rel [OF _ strict])
      (simp add: case_prod_unfold code less_prod_def')
  have "sum_where (\<lambda>(s, v). s = start \<and> scope_of_i32 v = sc) id ?ds
      = sum_where (\<lambda>k. fk_identity k = sr_identity_id q \<and> scope_selects (sr_scope q) (fk_scope k)
           \<and> start_of ?B (fk_bucket k) = start \<and> scope_from_sql (fk_scope k) = sc) id traffic" for start sc
    unfolding sum_where_map sum_where_filter by (rule sum_where_cong) (auto simp: series_key_def)
  then have sums: "sum_list (map (\<lambda>r. Counts (cr_ingress r) (cr_egress r))
        (filter (\<lambda>r. cr_bucket_ms r = start * 1000 \<and> cr_scope r = sc) (r_counters rows)))
      = sum_where (\<lambda>k. fk_identity k = sr_identity_id q \<and> scope_selects (sr_scope q) (fk_scope k)
           \<and> start_of ?B (fk_bucket k) = start \<and> scope_from_sql (fk_scope k) = sc) id traffic" for start sc
    unfolding rows series_counters_sum by (simp add: buckets sum_where_btree_fold)
  have "\<forall>r \<in> set (r_counters rows). cr_identity_id r = sr_identity_id q" by (auto simp: rows n)
  with range traffic sorted sums show ?thesis
    by (intro exI [of _ lo] exI [of _ hi] exI [of _ traffic] conjI allI)
qed

definition calm_env :: query_env where
  "calm_env = \<lparr>qe_lower = (\<lambda>s. s), qe_wm_fails = (\<lambda>_. False), qe_ids_fail = False, qe_rows_fail = False\<rparr>"

definition demo_top :: top_identities where
  "demo_top = \<lparr>ti_range = Some \<lparr>from_unix_ms = 1783332000000, to_unix_ms = 1783339200000\<rparr>,
     ti_tier = Tier_Hour, ti_scope = Scope_Unspecified, ti_group_by = Group_Unspecified, ti_limit = 5,
     ti_direction = Direction_Unspecified, ti_project = [], ti_exe = ''node'', ti_user = []\<rparr>"

definition demo_series :: series_req where
  "demo_series = \<lparr>sr_identity_id = 1, sr_tier = Tier_Hour,
     sr_range = Some \<lparr>from_unix_ms = 1783332000000, to_unix_ms = 1783339200000\<rparr>, sr_scope = Scope_All\<rparr>"

lemma top_ranks_totals_witness:
  "\<exists>rows lo hi. q_top calm_env (Vis_Uid 1000) demo_top 1783337400 demo_traffic = Inr rows
    \<and> range_s (ti_range demo_top) = Inr (lo, hi) \<and> map cr_ingress (r_counters rows) = [157]"
proof -
  have "map_sum id (map cr_ingress \<circ> r_counters) (q_top calm_env (Vis_Uid 1000) demo_top 1783337400 demo_traffic)
      = Inr [157]"
    by code_simp
  then obtain rows where rows: "q_top calm_env (Vis_Uid 1000) demo_top 1783337400 demo_traffic = Inr rows"
      "map cr_ingress (r_counters rows) = [157]"
    by (cases "q_top calm_env (Vis_Uid 1000) demo_top 1783337400 demo_traffic") auto
  obtain lo hi where "range_s (ti_range demo_top) = Inr (lo, hi)"
    using top_ranks_totals [OF rows(1)] by (elim exE conjE) (rule that)
  with rows show ?thesis by (intro exI conjI)
qed

lemma series_adds_up_witness:
  "\<exists>rows. q_series gregorian calm_env Vis_All demo_series 1783337400 demo_traffic = Inr rows
    \<and> (\<forall>r \<in> set (r_counters rows). cr_identity_id r = 1)
    \<and> map (\<lambda>r. (cr_bucket_ms r, cr_egress r)) (r_counters rows) = [(1783332000000, 15), (1783335600000, 1)]"
proof -
  have "map_sum id (map (\<lambda>r. (cr_bucket_ms r, cr_egress r)) \<circ> r_counters)
      (q_series gregorian calm_env Vis_All demo_series 1783337400 demo_traffic)
      = Inr [(1783332000000, 15), (1783335600000, 1)]"
    by code_simp
  then obtain rows where rows: "q_series gregorian calm_env Vis_All demo_series 1783337400 demo_traffic = Inr rows"
      "map (\<lambda>r. (cr_bucket_ms r, cr_egress r)) (r_counters rows) = [(1783332000000, 15), (1783335600000, 1)]"
    by (cases "q_series gregorian calm_env Vis_All demo_series 1783337400 demo_traffic") auto
  have "\<forall>r \<in> set (r_counters rows). cr_identity_id r = sr_identity_id demo_series"
    using series_adds_up [OF rows(1)] by (elim exE conjE)
  with rows show ?thesis by (auto simp: demo_series_def)
qed

text \<open>The rows a stitched read selects for an aligned window.\<close>

lemma stitched_view:
  assumes tier: "tier \<in> {Tier_Hour, Tier_Day}" and B: "bucketing bounds"
    and cuts: "bounds lo = Some (lo, e1)" "bounds hi = Some (hi, e2)"
    and range: "0 \<le> lo" "lo \<le> 9223372036854" "0 \<le> hi" "hi \<le> 9223372036854" "wm_of tier st \<le> 9223372036854"
    and run: "stitched env st tier lo hi = Inr traffic"
  shows "sum_where (\<lambda>k. R (snd k)) (column dir) traffic
    = tier_view bounds tier Tier_Minute st dir (\<lambda>k. lo \<le> fk_bucket k \<and> fk_bucket k < hi \<and> R (snd k))"
proof -
  have between: "sum_where P f (select_between a hi t)
      = sum_where (\<lambda>k. a \<le> fk_bucket k \<and> fk_bucket k < hi \<and> P k) f t"
    if "0 \<le> a" "a \<le> 9223372036854" for a P t and f :: "counts \<Rightarrow> int"
    using that range unfolding select_between_def sum_where_filter
    by (intro sum_where_cong) (auto simp: micros_exact)
  have inside: "lo \<le> b \<and> b < hi \<longleftrightarrow> lo \<le> start_of bounds b \<and> start_of bounds b < hi" for b
  proof (cases "bounds b")
    case (Some p)
    then obtain s e where p: "bounds b = Some (s, e)" by (cases p) simp
    then show ?thesis
      using bucketing.equal_or_apart [OF B p cuts(1)] bucketing.equal_or_apart [OF B p cuts(2)]
        bucketing.within [OF B p] bucketing.within [OF B cuts(1)] bucketing.within [OF B cuts(2)]
      by (auto simp: start_of_def)
  qed (simp add: start_of_def)
  have "sources env st tier = Inr [(tier, 0), (Tier_Minute, wm_of tier st)]"
    using tier run by (auto simp: stitched_def sources_def unrolled_def watermark_wm_opt wm_of_opt split: if_splits)
  then have traffic: "traffic = select_between lo hi (tier_table tier (st_db st))
      @ select_between (max lo (wm_of tier st)) hi (db_minute (st_db st))"
    using run range(1) by (simp add: stitched_def)
  have "(max lo (wm_of tier st) \<le> b \<and> b < hi \<and> P) \<longleftrightarrow>
      (wm_of tier st \<le> b \<and> lo \<le> start_of bounds b \<and> start_of bounds b < hi \<and> P)" for b P
    using inside [of b] by auto
  then show ?thesis
    using range by (simp add: traffic between tier_view_def)
qed

text \<open>C15. What a query reads does not depend on how far the rollup has come: for a window whose ends are
  bucket starts, within the tier's retention, the rows an hour or day query reads sum to the same bytes
  before and after a job, per identity and scope and in each column; closed buckets come from the tier's
  own table, the rest from the minutes, and none twice.\<close>

theorem windows_survive_rollup:
  assumes "tier \<in> {Tier_Hour, Tier_Day}" "bucketing (zone_bounds ch (st_zone st) tier)"
    and "store_ok st" "since_epoch (db_minute (st_db st))"
    and "rollup ch f now st = Some (res, st')"
    and "zone_bounds ch (st_zone st) tier lo = Some (lo, e1)" "zone_bounds ch (st_zone st) tier hi = Some (hi, e2)"
    and "0 \<le> lo" "lo \<le> hi" "hi \<le> 9223372036854"
    and "wm_of tier st \<le> 9223372036854" "wm_of tier st' \<le> 9223372036854"
    and "now - (if tier = Tier_Hour then hour_s else day_s) (st_retention st) \<le> lo"
    and "stitched env st tier lo hi = Inr traffic" "stitched env' st' tier lo hi = Inr traffic'"
  shows "sum_where (\<lambda>k. R (snd k)) (column dir) traffic' = sum_where (\<lambda>k. R (snd k)) (column dir) traffic"
proof -
  let ?B = "zone_bounds ch (st_zone st) tier"
  let ?Q = "\<lambda>k. lo \<le> fk_bucket k \<and> fk_bucket k < hi \<and> R (snd k)"
  note view = stitched_view [OF assms(1,2,6,7) assms(8)]
  have "sum_where (\<lambda>k. R (snd k)) (column dir) traffic' = tier_view ?B tier Tier_Minute st' dir ?Q"
    using view [of st' env' traffic' R dir] assms(8-15) by simp
  also have "\<dots> = tier_view ?B tier Tier_Minute st dir ?Q"
    using assms(13) by (intro rollup_keeps_view [OF assms(1-5)]) auto
  also have "\<dots> = sum_where (\<lambda>k. R (snd k)) (column dir) traffic"
    using view [of st env traffic R dir] assms(8-15) by simp
  finally show ?thesis .
qed

lemma windows_survive_rollup_witness:
  "\<exists>st' traffic traffic'. rollup gregorian no_faults 1783337400 demo_traffic = Some (Inr (), st')
    \<and> stitched calm_env demo_traffic Tier_Hour 1783332000 1783339200 = Inr traffic
    \<and> stitched calm_env st' Tier_Hour 1783332000 1783339200 = Inr traffic'
    \<and> sum_where (\<lambda>k. True) (column Direction_Ingress) traffic'
      = sum_where (\<lambda>k. True) (column Direction_Ingress) traffic"
proof -
  have "map_option (\<lambda>(r, s). (r, wm_of Tier_Hour s \<le> 9223372036854)) (rollup gregorian no_faults 1783337400 demo_traffic)
      = Some (Inr (), True)"
    by code_simp
  then obtain st' where run: "rollup gregorian no_faults 1783337400 demo_traffic = Some (Inr (), st')"
      and wm': "wm_of Tier_Hour st' \<le> 9223372036854"
    by auto
  have reads: "\<exists>t. stitched calm_env s Tier_Hour 1783332000 1783339200 = Inr t" for s
    by (simp add: stitched_def sources_def unrolled_def watermark_def calm_env_def)
  obtain t where t: "stitched calm_env demo_traffic Tier_Hour 1783332000 1783339200 = Inr t" using reads by blast
  obtain t' where t': "stitched calm_env st' Tier_Hour 1783332000 1783339200 = Inr t'" using reads by blast
  have wm: "wm_of Tier_Hour demo_traffic \<le> 9223372036854"
    by (simp add: wm_of_def demo_traffic_def demo_store_def empty_db_def)
  have cuts: "zone_bounds gregorian z Tier_Hour 1783332000 = Some (1783332000, 1783335600)"
    "zone_bounds gregorian z Tier_Hour 1783339200 = Some (1783339200, 1783342800)" for z
    by (simp_all add: fixed_bounds_def)
  have young: "1783337400 - hour_s (st_retention demo_traffic) \<le> 1783332000"
    by (simp add: demo_traffic_def demo_store_def default_retention_def)
  show ?thesis
    using windows_survive_rollup [OF _ hour.bucketing_axioms demo_traffic_ok(1,3) run cuts _ _ _ wm wm' _ t t',
        of "\<lambda>_. True" Direction_Ingress] run t t' young by auto
qed

lemma filter_unique:
  assumes "distinct (map f xs)"
  shows "filter (\<lambda>x. f x = n \<and> P x) xs = (case find (\<lambda>x. f x = n \<and> P x) xs of None \<Rightarrow> [] | Some x \<Rightarrow> [x])"
  using assms
proof (induction xs)
  case (Cons x xs)
  have "filter (\<lambda>y. f y = n \<and> P y) xs = []" if "f x = n"
    using Cons.prems that by (auto simp: filter_empty_conv image_iff)
  then show ?case using Cons by auto
qed simp

text \<open>C35. \<open>resolve\<close> finds exactly what its caller may see: on a well-formed store it returns the one row with
  the id if the caller may see it, and otherwise the same error, word for word, whether the identity
  belongs to someone else or does not exist.\<close>

theorem resolve_hides:
  assumes "store_ok st"
  shows "q_resolve env vis n st =
    (if qe_ids_fail env then Inl (E_Internal Db_Fault)
     else case find (\<lambda>w. row_id w = n \<and> may_see vis w) (db_identity (st_db st)) of
            Some w \<Rightarrow> Inr (identity_of_row w)
          | None \<Rightarrow> Inl (E_NotFound (''no identity '' @ dec_int n)))"
proof -
  have "distinct (map row_id (db_identity (st_db st)))"
    using assms by (simp add: store_ok_def db_ok_def identities_ok_def)
  note unique = filter_unique [OF this, of n "may_see vis"]
  have holds: "ids_hold (qe_lower env) (push_id (Id_In [n]) (p_visibility vis no_predicates))
      = (\<lambda>w. row_id w = n \<and> may_see vis w)"
    by (rule ext) auto
  show ?thesis
    unfolding q_resolve_def identities_by_id_def select_identities_def order_by_id_def holds unique
    by (simp split: option.splits)
qed

lemma resolve_hides_witness:
  "q_resolve calm_env (Vis_Uid 7) 1 demo_store = Inl (E_NotFound (''no identity '' @ dec_int 1))"
  using resolve_hides [OF demo_store_ok, of calm_env "Vis_Uid 7" 1]
  by (simp add: demo_store_def demo_record_def calm_env_def)

end
