(* ===== verification/Live.thy ===== *)
theory Live
  imports Protocol
begin

text \<open>
  The live feed (\<open>procflowd/src/live.rs\<close>). A channel of \<open>std::sync::mpsc\<close> is its queue and whether the
  receiver still exists; channels live in one list, senders and receivers are indices into it, so a
  cloned sender is the same index. The hub's mutex makes each operation atomic.
\<close>

section \<open>The wall clock\<close>

text \<open>\<open>now_s\<close> of \<open>lib.rs\<close>, from the nanoseconds since the epoch; a clock before 1970 panics.\<close>

definition now_s :: "int \<Rightarrow> i64 option" where
  "now_s nanos = (if nanos < 0 then None else Some (nanos div 10 ^ 9))"


section \<open>Ticks and channels\<close>

record delta =
  dl_identity_id :: i64
  dl_scope :: scope
  dl_ingress :: u64
  dl_egress :: u64

record tick_msg =
  tk_at_unix_ms :: i64
  tk_interval_ms :: u32
  tk_deltas :: "delta list"

datatype event = Ev_Tick tick_msg | Ev_Stop

record channel =
  ch_queue :: "event list"
  ch_open :: bool

record hub =
  hub_subscribers :: "nat list"
  hub_channels :: "channel list"

definition default_hub :: hub where
  "default_hub = \<lparr>hub_subscribers = [], hub_channels = []\<rparr>"

text \<open>\<open>Sender::send\<close> fails exactly when the receiver is gone; \<open>recv\<close> takes the front.\<close>

definition send :: "nat \<Rightarrow> event \<Rightarrow> channel list \<Rightarrow> bool \<times> channel list" where
  "send tx ev chs =
     (if ch_open (chs ! tx)
      then (True, chs[tx := (chs ! tx)\<lparr>ch_queue := ch_queue (chs ! tx) @ [ev]\<rparr>])
      else (False, chs))"

definition recv :: "nat \<Rightarrow> hub \<Rightarrow> event option \<times> hub" where
  "recv rx h =
     (case ch_queue (hub_channels h ! rx) of
        [] \<Rightarrow> (None, h)
      | ev # rest \<Rightarrow> (Some ev, h\<lparr>hub_channels := (hub_channels h)[rx := (hub_channels h ! rx)\<lparr>ch_queue := rest\<rparr>]\<rparr>))"

definition drop_receiver :: "nat \<Rightarrow> hub \<Rightarrow> hub" where
  "drop_receiver rx h =
     h\<lparr>hub_channels := (hub_channels h)[rx := \<lparr>ch_queue = [], ch_open = False\<rparr>]\<rparr>"

definition subscribe :: "hub \<Rightarrow> (nat \<times> nat) \<times> hub" where
  "subscribe h =
     (let c = length (hub_channels h)
      in ((c, c), \<lparr>hub_subscribers = hub_subscribers h @ [c],
                   hub_channels = hub_channels h @ [\<lparr>ch_queue = [], ch_open = True\<rparr>]\<rparr>))"

text \<open>\<open>retain\<close>: each sender is tried in turn and kept when the send succeeds.\<close>

fun retain_sent :: "event \<Rightarrow> nat list \<Rightarrow> channel list \<Rightarrow> nat list \<times> channel list" where
  "retain_sent ev [] chs = ([], chs)"
| "retain_sent ev (tx # txs) chs =
     (case send tx ev chs of (sent, chs') \<Rightarrow>
      case retain_sent ev txs chs' of (kept, chs'') \<Rightarrow>
        (if sent then tx # kept else kept, chs''))"

definition publish :: "tick_msg \<Rightarrow> hub \<Rightarrow> hub" where
  "publish tick h =
     (case retain_sent (Ev_Tick tick) (hub_subscribers h) (hub_channels h) of
        (kept, chs) \<Rightarrow> \<lparr>hub_subscribers = kept, hub_channels = chs\<rparr>)"


section \<open>Delivery\<close>

definition hub_ok :: "hub \<Rightarrow> bool" where
  "hub_ok h \<longleftrightarrow> distinct (hub_subscribers h) \<and> (\<forall>tx \<in> set (hub_subscribers h). tx < length (hub_channels h))"

lemma hub_ok_default: "hub_ok default_hub"
  by (simp add: hub_ok_def default_hub_def)

lemma hub_ok_subscribe: "hub_ok h \<Longrightarrow> hub_ok (snd (subscribe h))"
  by (auto simp: hub_ok_def subscribe_def Let_def)

lemma retain_sent_spec:
  assumes "distinct txs" "\<forall>tx \<in> set txs. tx < length chs"
  shows "retain_sent ev txs chs =
    (filter (\<lambda>tx. ch_open (chs ! tx)) txs,
     map (\<lambda>(i, c). if i \<in> set txs \<and> ch_open c then c\<lparr>ch_queue := ch_queue c @ [ev]\<rparr> else c)
       (zip [0..<length chs] chs))"
  using assms
proof (induction ev txs chs rule: retain_sent.induct)
  case (1 ev chs)
  show ?case by (simp add: case_prod_unfold)
next
  case (2 ev tx txs chs)
  obtain sent chs' where s: "send tx ev chs = (sent, chs')" by force
  have chs': "length chs' = length chs" "\<And>i. i \<noteq> tx \<Longrightarrow> chs' ! i = chs ! i" "sent = ch_open (chs ! tx)"
      "chs' ! tx = (if ch_open (chs ! tx) then (chs ! tx)\<lparr>ch_queue := ch_queue (chs ! tx) @ [ev]\<rparr> else chs ! tx)"
    using s "2.prems" by (auto simp: send_def split: if_splits)
  have IH: "retain_sent ev txs chs' = (filter (\<lambda>tx. ch_open (chs' ! tx)) txs,
     map (\<lambda>(i, c). if i \<in> set txs \<and> ch_open c then c\<lparr>ch_queue := ch_queue c @ [ev]\<rparr> else c)
       (zip [0..<length chs'] chs'))"
    by (rule "2.IH" [OF s [symmetric]]) (use "2.prems" chs'(1) in auto)
  have "filter (\<lambda>tx. ch_open (chs' ! tx)) txs = filter (\<lambda>tx. ch_open (chs ! tx)) txs"
    using "2.prems"(1) by (intro filter_cong) (metis chs'(2) distinct.simps(2))+
  moreover have "map (\<lambda>(i, c). if i \<in> set txs \<and> ch_open c then c\<lparr>ch_queue := ch_queue c @ [ev]\<rparr> else c)
        (zip [0..<length chs'] chs')
      = map (\<lambda>(i, c). if i \<in> set (tx # txs) \<and> ch_open c then c\<lparr>ch_queue := ch_queue c @ [ev]\<rparr> else c)
        (zip [0..<length chs] chs)"
  proof (rule nth_equalityI)
    fix i assume "i < length (map (\<lambda>(i, c). if i \<in> set txs \<and> ch_open c then c\<lparr>ch_queue := ch_queue c @ [ev]\<rparr> else c)
        (zip [0..<length chs'] chs'))"
    then show "map (\<lambda>(i, c). if i \<in> set txs \<and> ch_open c then c\<lparr>ch_queue := ch_queue c @ [ev]\<rparr> else c)
        (zip [0..<length chs'] chs') ! i
      = map (\<lambda>(i, c). if i \<in> set (tx # txs) \<and> ch_open c then c\<lparr>ch_queue := ch_queue c @ [ev]\<rparr> else c)
        (zip [0..<length chs] chs) ! i"
      using chs' "2.prems"(1) by (cases "i = tx") auto
  qed (simp add: chs'(1))
  ultimately show ?case by (simp add: s IH chs'(3))
qed

lemma publish_spec:
  assumes "hub_ok h"
  shows "hub_subscribers (publish tick h) = filter (\<lambda>tx. ch_open (hub_channels h ! tx)) (hub_subscribers h)"
    and "length (hub_channels (publish tick h)) = length (hub_channels h)"
    and "i < length (hub_channels h) \<Longrightarrow> hub_channels (publish tick h) ! i =
      (if i \<in> set (hub_subscribers h) \<and> ch_open (hub_channels h ! i)
       then (hub_channels h ! i)\<lparr>ch_queue := ch_queue (hub_channels h ! i) @ [Ev_Tick tick]\<rparr>
       else hub_channels h ! i)"
  using retain_sent_spec [of "hub_subscribers h" "hub_channels h" "Ev_Tick tick"] assms
  by (auto simp: publish_def hub_ok_def)

lemma hub_ok_publish: "hub_ok h \<Longrightarrow> hub_ok (publish tick h)"
  using publish_spec(1,2) [of h tick] by (auto simp: hub_ok_def)


section \<open>Runs of the hub\<close>

text \<open>
  What the threads do to the hub, in any interleaving. A receiver reads from the front of its queue
  and goes away when its connection ends; a connection's reader may send its own stop at any time.
\<close>

datatype hub_op = Op_Subscribe | Op_Publish tick_msg | Op_Stop nat | Op_Recv nat | Op_Hang_Up nat

fun hub_step :: "hub_op \<Rightarrow> hub \<Rightarrow> hub" where
  "hub_step Op_Subscribe h = snd (subscribe h)"
| "hub_step (Op_Publish t) h = publish t h"
| "hub_step (Op_Stop c) h = h\<lparr>hub_channels := snd (send c Ev_Stop (hub_channels h))\<rparr>"
| "hub_step (Op_Recv c) h = snd (recv c h)"
| "hub_step (Op_Hang_Up c) h = drop_receiver c h"

definition hub_run :: "hub_op list \<Rightarrow> hub \<Rightarrow> hub" where
  "hub_run ops = fold hub_step ops"

text \<open>What a subscriber of channel \<open>c\<close> should have been given by a run, and what it has taken out.\<close>

fun delivered :: "nat \<Rightarrow> hub_op list \<Rightarrow> event list" where
  "delivered c [] = []"
| "delivered c (op # ops) =
     (case op of Op_Publish t \<Rightarrow> Ev_Tick t # delivered c ops
      | Op_Stop c' \<Rightarrow> (if c' = c then Ev_Stop # delivered c ops else delivered c ops)
      | _ \<Rightarrow> delivered c ops)"

fun taken :: "nat \<Rightarrow> hub_op list \<Rightarrow> hub \<Rightarrow> event list" where
  "taken c [] h = []"
| "taken c (op # ops) h =
     (if op = Op_Recv c then (case fst (recv c h) of None \<Rightarrow> [] | Some ev \<Rightarrow> [ev]) else [])
       @ taken c ops (hub_step op h)"

definition live_at :: "nat \<Rightarrow> hub \<Rightarrow> bool" where
  "live_at c h \<longleftrightarrow> c < length (hub_channels h) \<and> ch_open (hub_channels h ! c) \<and> c \<in> set (hub_subscribers h)"

lemma hub_ok_step: "hub_ok h \<Longrightarrow> hub_ok (hub_step op h)"
proof (cases op)
  case (Op_Stop c)
  then show "hub_ok h \<Longrightarrow> hub_ok (hub_step op h)" by (auto simp: hub_ok_def send_def)
next
  case (Op_Recv c)
  then show "hub_ok h \<Longrightarrow> hub_ok (hub_step op h)" by (auto simp: hub_ok_def recv_def split: list.split)
next
  case (Op_Hang_Up c)
  then show "hub_ok h \<Longrightarrow> hub_ok (hub_step op h)" by (auto simp: hub_ok_def drop_receiver_def)
qed (simp_all add: hub_ok_subscribe hub_ok_publish)

lemma hub_ok_run: "hub_ok h \<Longrightarrow> hub_ok (hub_run ops h)"
  by (induction ops arbitrary: h) (auto simp: hub_run_def hub_ok_step)

lemma hub_step_live:
  assumes "hub_ok h" "live_at c h" "op \<noteq> Op_Hang_Up c"
  shows "live_at c (hub_step op h) \<and>
    (if op = Op_Recv c then (case fst (recv c h) of None \<Rightarrow> [] | Some ev \<Rightarrow> [ev]) else [])
      @ ch_queue (hub_channels (hub_step op h) ! c)
    = ch_queue (hub_channels h ! c) @ delivered c [op]"
proof (cases op)
  case Op_Subscribe
  then show ?thesis using assms by (simp add: live_at_def subscribe_def nth_append Let_def)
next
  case (Op_Publish t)
  then show ?thesis using assms publish_spec [OF assms(1), where tick = t] by (simp add: live_at_def)
next
  case (Op_Stop c')
  then show ?thesis using assms by (cases "c' = c") (auto simp: live_at_def send_def)
next
  case (Op_Recv c')
  then show ?thesis
    using assms by (cases "c' = c") (auto simp: live_at_def recv_def split: list.split)
next
  case (Op_Hang_Up c')
  then show ?thesis using assms by (auto simp: live_at_def drop_receiver_def)
qed

text \<open>C33. The hub loses, repeats and reorders nothing: whatever the other connections do in between, a
  subscriber that has not hung up has taken out, followed by what still waits in its queue, exactly the
  ticks published since and its own stops, in order.\<close>

theorem hub_fans_out:
  assumes "hub_ok h" "live_at c h" "Op_Hang_Up c \<notin> set ops"
  shows "taken c ops h @ ch_queue (hub_channels (hub_run ops h) ! c)
    = ch_queue (hub_channels h ! c) @ delivered c ops"
  using assms
proof (induction ops arbitrary: h)
  case Nil
  then show ?case by (simp add: hub_run_def)
next
  case (Cons op ops)
  have step: "live_at c (hub_step op h)"
    "(if op = Op_Recv c then (case fst (recv c h) of None \<Rightarrow> [] | Some ev \<Rightarrow> [ev]) else [])
      @ ch_queue (hub_channels (hub_step op h) ! c)
    = ch_queue (hub_channels h ! c) @ delivered c [op]"
    using hub_step_live [of h c op] Cons.prems by auto
  have IH: "taken c ops (hub_step op h) @ ch_queue (hub_channels (hub_run ops (hub_step op h)) ! c)
      = ch_queue (hub_channels (hub_step op h) ! c) @ delivered c ops"
    using Cons.IH [OF hub_ok_step step(1)] Cons.prems by simp
  have del: "delivered c (op # ops) = delivered c [op] @ delivered c ops"
    by (cases op) auto
  have "taken c (op # ops) h @ ch_queue (hub_channels (hub_run (op # ops) h) ! c)
      = (if op = Op_Recv c then (case fst (recv c h) of None \<Rightarrow> [] | Some ev \<Rightarrow> [ev]) else [])
        @ ch_queue (hub_channels (hub_step op h) ! c) @ delivered c ops"
    using IH by (simp add: hub_run_def)
  also have "\<dots> = ch_queue (hub_channels h ! c) @ delivered c (op # ops)"
    unfolding del append_assoc [symmetric] step(2) by simp
  finally show ?case .
qed

definition demo_tick :: "i64 \<Rightarrow> delta list \<Rightarrow> tick_msg" where
  "demo_tick at ds = \<lparr>tk_at_unix_ms = at, tk_interval_ms = 1000, tk_deltas = ds\<rparr>"

definition demo_hub :: hub where
  "demo_hub = snd (subscribe (snd (subscribe default_hub)))"

lemma hub_fans_out_witness:
  "let ops = [Op_Publish (demo_tick 1 []), Op_Hang_Up 1, Op_Recv 0, Op_Publish (demo_tick 2 []), Op_Stop 0]
   in taken 0 ops demo_hub @ ch_queue (hub_channels (hub_run ops demo_hub) ! 0)
     = [Ev_Tick (demo_tick 1 []), Ev_Tick (demo_tick 2 []), Ev_Stop]
    \<and> hub_subscribers (hub_run ops demo_hub) = [0]"
proof -
  have "hub_ok demo_hub" by (simp add: demo_hub_def hub_ok_subscribe hub_ok_default)
  moreover have "live_at 0 demo_hub" by (simp add: demo_hub_def live_at_def subscribe_def default_hub_def)
  moreover have "hub_subscribers (hub_run [Op_Publish (demo_tick 1 []), Op_Hang_Up 1, Op_Recv 0,
      Op_Publish (demo_tick 2 []), Op_Stop 0] demo_hub) = [0]"
    by code_simp
  moreover have "ch_queue (hub_channels demo_hub ! 0) = []"
    by (simp add: demo_hub_def subscribe_def default_hub_def)
  ultimately show ?thesis
    using hub_fans_out [of demo_hub 0 "[Op_Publish (demo_tick 1 []), Op_Hang_Up 1, Op_Recv 0,
      Op_Publish (demo_tick 2 []), Op_Stop 0]"] by simp
qed

text \<open>A publish forgets the subscribers that hung up and only those, and keeps the hub well formed.\<close>

theorem hub_forgets_hung_up:
  assumes "hub_ok h"
  shows "hub_subscribers (publish tick h) = filter (\<lambda>tx. ch_open (hub_channels h ! tx)) (hub_subscribers h)
    \<and> hub_ok (publish tick h)"
  using publish_spec(1) [OF assms] hub_ok_publish [OF assms] by blast

lemma hub_forgets_hung_up_witness:
  "hub_subscribers (publish (demo_tick 1 []) (drop_receiver 0 demo_hub)) = [1]"
proof -
  have "hub_ok (drop_receiver 0 demo_hub)"
    by (simp add: hub_ok_def demo_hub_def drop_receiver_def subscribe_def default_hub_def)
  from hub_forgets_hung_up [OF this] show ?thesis
    by (simp add: demo_hub_def drop_receiver_def subscribe_def default_hub_def)
qed

end
