(* ===== verification/Server.thy ===== *)
theory Server
  imports Query_Props Live
begin

text \<open>
  The IPC server (\<open>procflowd/src/server.rs\<close>): one request per connection, answered under the caller's
  visibility, and the \<open>Watch\<close> stream, one chunk per collector poll. A panic is the result \<open>None\<close>; one
  under the store's lock leaves the mutex poisoned.
\<close>

section \<open>Snapshot requests\<close>

record server =
  sv_store :: store
  sv_poisoned :: bool
  sv_live :: "hub option"
  sv_demo :: bool

text \<open>The surroundings of a request: the clock, the engine, and the engine's error texts.\<close>

record request_env =
  re_nanos :: int
  re_query :: query_env
  re_text :: "db_error \<Rightarrow> string"

definition CARGO_PKG_VERSION :: string where "CARGO_PKG_VERSION = ''0.1.0''"

definition error_response :: "u64 \<Rightarrow> error_code \<Rightarrow> string \<Rightarrow> response" where
  "error_response rid code message = \<lparr>rs_id = rid, rs_body = Some (Resp_Error code message)\<rparr>"

definition with_store :: "(store \<Rightarrow> query_error + 'a) \<Rightarrow> server \<Rightarrow> (query_error + 'a) option \<times> server" where
  "with_store f sv =
     (if sv_poisoned sv then (None, sv)
      else let r = f (sv_store sv)
           in if r = Inl (E_Internal Panicked) then (None, sv\<lparr>sv_poisoned := True\<rparr>) else (Some r, sv))"

definition unsupported_text :: "u32 \<Rightarrow> string" where
  "unsupported_text proto =
     ''daemon supports protocol '' @ dec (unat PROTO_VERSION) @ ''..='' @ dec (unat PROTO_VERSION)
       @ '', client sent '' @ dec (unat proto)"

definition hello_response :: "u64 \<Rightarrow> server \<Rightarrow> response" where
  "hello_response rid sv = \<lparr>rs_id = rid, rs_body = Some (Resp_HelloOk
     \<lparr>ho_version = CARGO_PKG_VERSION, ho_proto_min = PROTO_VERSION, ho_proto_max = PROTO_VERSION,
      ho_collector_active = (sv_live sv \<noteq> None), ho_demo = sv_demo sv\<rparr>)\<rparr>"

definition answer :: "request_env \<Rightarrow> u64 \<Rightarrow> bool \<Rightarrow> query_error + rows \<Rightarrow> response" where
  "answer env rid demo result =
     (case result of
        Inr rows \<Rightarrow> \<lparr>rs_id = rid, rs_body = Some (Resp_Ok (rows\<lparr>r_demo := demo\<rparr>))\<rparr>
      | Inl e \<Rightarrow> error_response rid (query_error_code e) (query_error_text (re_text env) e))"

text \<open>The match on the request's body: which verb runs on the store.\<close>

definition verb :: "'d chrono \<Rightarrow> request_env \<Rightarrow> i64 \<Rightarrow> request_body \<Rightarrow> visibility \<Rightarrow> store \<Rightarrow> query_error + rows" where
  "verb ch env now body vis st =
     (case body of
        TopIdentities q \<Rightarrow> q_top (re_query env) vis q now st
      | Series q \<Rightarrow> q_series ch (re_query env) vis q now st
      | ListIdentities q \<Rightarrow> q_list_identities (re_query env) vis q st
      | Resolve n \<Rightarrow>
          (case q_resolve (re_query env) vis n st of
             Inl e \<Rightarrow> Inl e
           | Inr identity \<Rightarrow> Inr (empty_rows\<lparr>r_identities := [identity]\<rparr>))
      | _ \<Rightarrow> Inl (E_BadRequest ''no stream on this connection''))"

definition respond :: "'d chrono \<Rightarrow> request_env \<Rightarrow> request \<Rightarrow> visibility \<Rightarrow> server \<Rightarrow> response option \<times> server" where
  "respond ch env req vis sv =
     (if rq_proto req \<noteq> PROTO_VERSION
      then (Some (error_response (rq_id req) Unsupported_Protocol (unsupported_text (rq_proto req))), sv)
      else case now_s (re_nanos env) of
        None \<Rightarrow> (None, sv)
      | Some now \<Rightarrow>
          let reply = map_prod (map_option (answer env (rq_id req) (sv_demo sv))) (\<lambda>s. s)
          in case rq_body req of
               None \<Rightarrow> reply (Some (Inl (E_BadRequest ''request has no body'')), sv)
             | Some Hello \<Rightarrow> (Some (hello_response (rq_id req) sv), sv)
             | Some (Watch _) \<Rightarrow> reply (Some (Inl (E_BadRequest ''no stream on this connection'')), sv)
             | Some (Cancel _) \<Rightarrow> reply (Some (Inl (E_BadRequest ''no stream on this connection'')), sv)
             | Some body \<Rightarrow> reply (with_store (verb ch env now body vis) sv))"


section \<open>Watch streams\<close>

record watch_view =
  wv_vis :: visibility
  wv_watch :: watch_req
  wv_known :: "(i64 \<times> identity option) list"
  wv_sent :: "i64 list"

definition WatchView_new :: "watch_req \<Rightarrow> visibility \<Rightarrow> watch_view" where
  "WatchView_new watch vis = \<lparr>wv_vis = vis, wv_watch = watch, wv_known = [], wv_sent = []\<rparr>"

text \<open>\<open>extend\<close>: later entries replace earlier ones.\<close>

definition map_extend :: "('k \<times> 'v) list \<Rightarrow> ('k \<times> 'v) list \<Rightarrow> ('k \<times> 'v) list" where
  "map_extend kvs m = fold (\<lambda>(k, v). AList.update k v) kvs m"

definition unknown_ids :: "watch_view \<Rightarrow> tick_msg \<Rightarrow> i64 list" where
  "unknown_ids view tick =
     remdups_adj (sort (filter (\<lambda>n. map_of (wv_known view) n = None) (map dl_identity_id (tk_deltas tick))))"

definition learn :: "query_env \<Rightarrow> server \<Rightarrow> tick_msg \<Rightarrow> watch_view \<Rightarrow> (query_error + unit) option \<times> watch_view" where
  "learn qe sv tick view =
     (let unknown = unknown_ids view tick in
      if unknown = [] then (Some (Inr ()), view)
      else if sv_poisoned sv then (None, view)
      else case identities_by_id qe (wv_vis view) unknown (sv_store sv) of
             Inl e \<Rightarrow> (Some (Inl e), view)
           | Inr visible \<Rightarrow>
               (Some (Inr ()), view\<lparr>wv_known :=
                  map_extend (map (\<lambda>i. (id_id i, Some i)) visible)
                    (map_extend (map (\<lambda>n. (n, None)) unknown) (wv_known view))\<rparr>))"

definition grouped :: "group_by \<Rightarrow> bool" where
  "grouped by \<longleftrightarrow> by \<notin> {Group_Identity, Group_Unspecified}"

text \<open>The increments of the loop over the deltas.\<close>

fun visible_deltas :: "watch_view \<Rightarrow> delta list \<Rightarrow> ((i64 \<times> string \<times> int) \<times> counts) list" where
  "visible_deltas view [] = []"
| "visible_deltas view (d # ds) =
     (case map_of (wv_known view) (dl_identity_id d) of
        Some (Some identity) \<Rightarrow>
          if scope_matches (w_scope (wv_watch view)) (dl_scope d)
          then ((if grouped (w_group_by (wv_watch view)) then 0 else id_id identity,
                 group_key identity (w_group_by (wv_watch view)), scope_i32 (dl_scope d)),
                Counts (dl_ingress d) (dl_egress d)) # visible_deltas view ds
          else visible_deltas view ds
      | _ \<Rightarrow> visible_deltas view ds)"

definition counter_of :: "i64 \<Rightarrow> (i64 \<times> string \<times> int) \<times> counts \<Rightarrow> counter_row" where
  "counter_of at_ms = (\<lambda>((n, g, sc), c).
     \<lparr>cr_identity_id = n, cr_bucket_ms = at_ms, cr_scope = scope_of_i32 sc, cr_ingress = ingress c,
      cr_egress = egress c, cr_group_key = g\<rparr>)"

text \<open>\<open>filter\<close> with \<open>sent.insert\<close>, then \<open>known[&id].clone()\<close>.\<close>

fun first_sent :: "(i64 \<times> identity option) list \<Rightarrow> counter_row list \<Rightarrow> i64 list \<Rightarrow> identity list \<times> i64 list" where
  "first_sent known [] sent = ([], sent)"
| "first_sent known (c # cs) sent =
     (if cr_identity_id c \<noteq> 0 \<and> cr_identity_id c \<notin> set sent
      then case first_sent known cs (cr_identity_id c # sent) of (found, sent') \<Rightarrow>
             (case map_of known (cr_identity_id c) of Some (Some i) \<Rightarrow> (i # found, sent') | _ \<Rightarrow> (found, sent'))
      else first_sent known cs sent)"

definition chunk :: "query_env \<Rightarrow> server \<Rightarrow> tick_msg \<Rightarrow> watch_view \<Rightarrow> (query_error + rows \<times> u32) option \<times> watch_view" where
  "chunk qe sv tick view =
     (case learn qe sv tick view of
        (None, view) \<Rightarrow> (None, view)
      | (Some (Inl e), view) \<Rightarrow> (Some (Inl e), view)
      | (Some (Inr _), view) \<Rightarrow>
          let sums = fold (\<lambda>(k, c). btree_bump k c) (visible_deltas view (tk_deltas tick)) [];
              counters = take_limit (w_limit (wv_watch view))
                (sort_key (\<lambda>c. - uint (cr_ingress c + cr_egress c)) (map (counter_of (tk_at_unix_ms tick)) sums));
              (identities, sent) = first_sent (wv_known view) counters (wv_sent view)
          in (Some (Inr (empty_rows\<lparr>r_counters := counters, r_identities := identities\<rparr>, tk_interval_ms tick)),
              view\<lparr>wv_sent := sent\<rparr>))"

text \<open>
  The stream loop. Each event comes with the server as it is when the event is handled; the list ends
  when the channel does. The flag says that the thread did not panic.
\<close>

type_synonym feed = "(request_env \<times> server \<times> event) list"

fun stream :: "(response \<Rightarrow> u8 list) \<Rightarrow> u64 \<Rightarrow> watch_view \<Rightarrow> feed \<Rightarrow> writer \<Rightarrow> bool \<times> writer" where
  "stream encode rid view [] out = (True, out)"
| "stream encode rid view ((env, sv, ev) # rest) out =
     (case (case ev of
              Ev_Tick tick \<Rightarrow>
                (case chunk (re_query env) sv tick view of
                   (None, view) \<Rightarrow> (None, view)
                 | (Some (Inr (rows, ms)), view) \<Rightarrow>
                     (Some (\<lparr>rs_id = rid, rs_body = Some (Resp_Chunk rows ms)\<rparr>, True), view)
                 | (Some (Inl e), view) \<Rightarrow>
                     (Some (error_response rid (query_error_code e) (query_error_text (re_text env) e), False), view))
            | Ev_Stop \<Rightarrow> (Some (\<lparr>rs_id = rid, rs_body = Some Resp_End\<rparr>, False), view)) of
        (None, _) \<Rightarrow> (False, out)
      | (Some (response, streaming), view) \<Rightarrow>
          (case write_msg encode response out of
             (Inl _, out) \<Rightarrow> (True, out)
           | (Inr _, out) \<Rightarrow> if streaming then stream encode rid view rest out else (True, out)))"

text \<open>The reader of a streaming connection: frames until a cancel or an error, then a stop.\<close>

lemma read_msg_shorter: "read_msg decode bs = (Inr m, rest) \<Longrightarrow> length rest < length bs"
  by (auto simp: read_msg_def read_exact_def Let_def split: sum.splits prod.splits if_splits option.splits)

function await_cancel :: "(u8 list \<Rightarrow> request option) \<Rightarrow> u8 list \<Rightarrow> u8 list" where
  "await_cancel decode bs =
     (case read_msg decode bs of
        (Inl _, rest) \<Rightarrow> rest
      | (Inr req, rest) \<Rightarrow>
          (case rq_body req of Some (Cancel _) \<Rightarrow> rest | _ \<Rightarrow> await_cancel decode rest))"
  by pat_completeness auto
termination
  by (relation "measure (\<lambda>(_, bs). length bs)") (auto dest!: sym [of "(_, _)"] read_msg_shorter)

text \<open>\<open>cloned\<close> is what duplicating the socket for the reader, and clearing its timeout, come to.\<close>

definition watch :: "(response \<Rightarrow> u8 list) \<Rightarrow> u64 \<Rightarrow> watch_req \<Rightarrow> visibility \<Rightarrow> io_error + unit \<Rightarrow> feed \<Rightarrow> writer \<Rightarrow> server
    \<Rightarrow> (io_error + unit) option \<times> writer \<times> server" where
  "watch encode rid w vis cloned feed out sv =
     (case sv_live sv of
        None \<Rightarrow>
          (case write_msg encode (error_response rid Unavailable ''the collector is not running'') out of
             (r, out) \<Rightarrow> (Some r, out, sv))
      | Some h \<Rightarrow>
          (case subscribe h of ((stop, events), h) \<Rightarrow>
           case cloned of Inl e \<Rightarrow> (Some (Inl e), out, sv\<lparr>sv_live := Some (drop_receiver events h)\<rparr>) | Inr _ \<Rightarrow>
           case stream encode rid (WatchView_new w vis) feed out of (alive, out) \<Rightarrow>
             (if alive then Some (Inr ()) else None, out, sv\<lparr>sv_live := Some (drop_receiver events h)\<rparr>)))"


section \<open>Connections\<close>

text \<open>
  A connection: the peer's uid as the kernel gives it (\<open>peer_uid\<close>), whether the timeouts could be set
  and a stream's reader given its socket, the bytes that arrive, where the answer goes, and, for a stream, what its channel yields.
\<close>

record connection =
  cn_peer :: "io_error + u32"
  cn_timeouts :: "io_error + unit"
  cn_clone :: "io_error + unit"
  cn_in :: "u8 list"
  cn_out :: writer
  cn_feed :: feed

definition handle :: "'d chrono \<Rightarrow> request_env \<Rightarrow> (u8 list \<Rightarrow> request option) \<Rightarrow> (response \<Rightarrow> u8 list)
    \<Rightarrow> connection \<Rightarrow> server \<Rightarrow> (io_error + unit) option \<times> writer \<times> server" where
  "handle ch env decode encode cn sv =
     (case cn_peer cn of Inl e \<Rightarrow> (Some (Inl e), cn_out cn, sv) | Inr uid \<Rightarrow>
      let vis = for_peer uid in
      case cn_timeouts cn of Inl e \<Rightarrow> (Some (Inl e), cn_out cn, sv) | Inr _ \<Rightarrow>
      case fst (read_msg decode (cn_in cn)) of Inl e \<Rightarrow> (Some (Inl e), cn_out cn, sv) | Inr req \<Rightarrow>
      let snapshot = (case respond ch env req vis sv of
                        (None, sv) \<Rightarrow> (None, cn_out cn, sv)
                      | (Some r, sv) \<Rightarrow>
                          (case write_msg encode r (cn_out cn) of (res, out) \<Rightarrow> (Some res, out, sv)))
      in case rq_body req of
           Some (Watch w) \<Rightarrow>
             if rq_proto req = PROTO_VERSION
             then watch encode (rq_id req) w vis (cn_clone cn) (cn_feed cn) (cn_out cn) sv
             else snapshot
         | _ \<Rightarrow> snapshot)"

text \<open>The accept loop; a failed accept or a failed connection is reported and the loop goes on.\<close>

fun serve :: "'d chrono \<Rightarrow> (u8 list \<Rightarrow> request option) \<Rightarrow> (response \<Rightarrow> u8 list)
    \<Rightarrow> (request_env \<times> (io_error + connection)) list \<Rightarrow> server \<Rightarrow> writer list \<times> server" where
  "serve ch decode encode [] sv = ([], sv)"
| "serve ch decode encode ((env, incoming) # rest) sv =
     (case incoming of
        Inl _ \<Rightarrow> serve ch decode encode rest sv
      | Inr cn \<Rightarrow>
          (case handle ch env decode encode cn sv of (_, out, sv) \<Rightarrow>
           case serve ch decode encode rest sv of (outs, sv) \<Rightarrow> (out # outs, sv)))"


section \<open>What a caller may learn\<close>

declare scope_of_i32.simps [simp del]

lemma verb_scoped: "uid_scoped (verb ch env now body)"
proof (cases body)
  case (TopIdentities q)
  then show ?thesis by (simp add: verb_def [abs_def] q_top_scoped)
next
  case (Series q)
  then show ?thesis by (simp add: verb_def [abs_def] q_series_scoped)
next
  case (ListIdentities q)
  then show ?thesis by (simp add: verb_def [abs_def] q_list_scoped)
next
  case (Resolve n)
  then show ?thesis
    using uid_scoped_bind [OF q_resolve_scoped [of "re_query env" n] uid_scoped_const [of "Inr (empty_rows\<lparr>r_identities := [i]\<rparr>)" for i]]
    by (simp add: verb_def [abs_def])
qed (simp_all add: verb_def [abs_def] uid_scoped_const)

interpretation verb: uid_scoped "verb ch env now body"
  by (rule verb_scoped)

text \<open>C4. The uid boundary holds end to end: two servers whose stores agree on the rows and traffic of the
  identities a caller may see give that caller the same response to every request, errors included,
  so nothing another user's processes did can be learned from an answer.\<close>

theorem respond_noninterference:
  assumes "visible_store vis (sv_store sv) = visible_store vis (sv_store sv')"
    and "sv_poisoned sv = sv_poisoned sv'" "sv_demo sv = sv_demo sv'"
    and "(sv_live sv = None) = (sv_live sv' = None)"
  shows "fst (respond ch env req vis sv) = fst (respond ch env req vis sv')"
proof -
  have "verb ch env now body vis (sv_store sv) = verb ch env now body vis (sv_store sv')" for now body
    by (rule verb.noninterference [OF assms(1)])
  then show ?thesis
    using assms(2-)
    by (auto simp: respond_def hello_response_def with_store_def Let_def split: option.split request_body.split)
qed

definition demo_server :: server where
  "demo_server = \<lparr>sv_store = demo_traffic, sv_poisoned = False, sv_live = Some default_hub, sv_demo = False\<rparr>"

definition calm :: request_env where
  "calm = \<lparr>re_nanos = 1783337400000000000, re_query = calm_env, re_text = (\<lambda>_. [])\<rparr>"

lemma respond_noninterference_witness:
  "fst (respond gregorian calm \<lparr>rq_proto = 1, rq_id = 9, rq_body = Some (TopIdentities demo_top)\<rparr> (Vis_Uid 7) demo_server)
   = fst (respond gregorian calm \<lparr>rq_proto = 1, rq_id = 9, rq_body = Some (TopIdentities demo_top)\<rparr> (Vis_Uid 7)
       (demo_server\<lparr>sv_store := demo_store\<lparr>st_db := (st_db demo_store)\<lparr>db_identity := []\<rparr>\<rparr>\<rparr>))"
  by (rule respond_noninterference)
    (simp_all add: demo_server_def visible_store_def visible_rows_def visible_facts_def update_db_def
      demo_traffic_def demo_store_def demo_record_def empty_db_def)

text \<open>
  The code a failed request must carry, said of the request and the store: a missing or empty range is the
  client's mistake, an identity the caller cannot see is not found, everything else is the engine's failure.
\<close>

definition bad_range :: "time_range option \<Rightarrow> bool" where
  "bad_range r \<longleftrightarrow> (case r of None \<Rightarrow> True | Some r \<Rightarrow> to_unix_ms r div 1000 \<le> from_unix_ms r div 1000)"

definition hidden :: "visibility \<Rightarrow> i64 \<Rightarrow> store \<Rightarrow> bool" where
  "hidden vis n st \<longleftrightarrow> (\<forall>w \<in> set (db_identity (st_db st)). row_id w = n \<longrightarrow> \<not> may_see vis w)"

fun cause :: "query_env \<Rightarrow> visibility \<Rightarrow> store \<Rightarrow> request_body \<Rightarrow> error_code" where
  "cause qe vis st (TopIdentities q) = (if bad_range (ti_range q) then Bad_Request else Internal)"
| "cause qe vis st (Series q) =
     (if bad_range (sr_range q) then Bad_Request
      else if hidden vis (sr_identity_id q) st \<and> \<not> qe_ids_fail qe then Not_Found else Internal)"
| "cause qe vis st (ListIdentities q) = Internal"
| "cause qe vis st (Resolve n) = (if qe_ids_fail qe then Internal else Not_Found)"
| "cause qe vis st _ = Bad_Request"

lemma range_error: "range_s r = Inl e \<Longrightarrow> bad_range r \<and> (\<exists>m. e = E_BadRequest m)"
  by (auto simp: range_s_def bad_range_def Let_def split: option.splits if_splits)

lemma range_fine: "range_s r = Inr p \<Longrightarrow> \<not> bad_range r"
  by (auto simp: range_s_def bad_range_def Let_def split: option.splits if_splits)

lemma unrolled_error: "unrolled env st t = Inl e \<Longrightarrow> \<exists>d. e = E_Internal d"
  by (auto simp: unrolled_def split: sum.splits)

lemma stitched_error: "stitched env st tier lo hi = Inl e \<Longrightarrow> \<exists>d. e = E_Internal d"
  by (auto simp: stitched_def sources_def dest: unrolled_error split: sum.splits tier.splits)

lemma identities_error: "identities_by_id env vis ids st = Inl e \<Longrightarrow> qe_ids_fail env \<and> (\<exists>d. e = E_Internal d)"
  by (auto simp: identities_by_id_def select_identities_def split: if_splits)

lemma resolved_found:
  assumes "identities_by_id env vis [n] st = Inr is" shows "\<not> qe_ids_fail env \<and> (is = [] \<longleftrightarrow> hidden vis n st)"
proof -
  have holds: "ids_hold (qe_lower env) (push_id (Id_In [n]) (p_visibility vis no_predicates))
      = (\<lambda>w. row_id w = n \<and> may_see vis w)"
    by (rule ext) auto
  have empty: "sort_key row_id rows = [] \<longleftrightarrow> rows = []" for rows by (metis length_sort length_0_conv)
  show ?thesis
    using assms
    by (auto simp: identities_by_id_def select_identities_def order_by_id_def holds empty hidden_def filter_empty_conv
        split: if_splits)
qed

lemma resolve_error:
  "q_resolve env vis n st = Inl e \<Longrightarrow>
    (if qe_ids_fail env then \<exists>d. e = E_Internal d else hidden vis n st \<and> (\<exists>m. e = E_NotFound m))"
  by (auto simp: q_resolve_def dest: identities_error resolved_found split: sum.splits if_splits)

lemma resolve_fine: "q_resolve env vis n st = Inr i \<Longrightarrow> \<not> hidden vis n st"
  by (auto simp: q_resolve_def dest: resolved_found split: sum.splits if_splits)

lemma list_error: "q_list_identities env vis q st = Inl e \<Longrightarrow> \<exists>d. e = E_Internal d"
  by (auto simp: q_list_identities_def Let_def select_identities_def split: sum.splits if_splits)

lemma top_rows_error: "top_rows lo gs = Inl e \<Longrightarrow> \<exists>d. e = E_Internal d"
  by (induction lo gs rule: top_rows.induct) (auto split: option.splits sum.splits)

lemma top_error:
  "q_top env vis q now st = Inl e \<Longrightarrow>
    (if bad_range (ti_range q) then \<exists>m. e = E_BadRequest m else \<exists>d. e = E_Internal d)"
  unfolding q_top_def Let_def
  by (auto dest: range_error range_fine stitched_error top_rows_error identities_error split: sum.splits if_splits)

lemma series_error:
  assumes "q_series ch env vis q now st = Inl e"
  shows "if bad_range (sr_range q) then \<exists>m. e = E_BadRequest m
     else if hidden vis (sr_identity_id q) st \<and> \<not> qe_ids_fail env then \<exists>m. e = E_NotFound m
     else \<exists>d. e = E_Internal d"
proof (cases "range_s (sr_range q)")
  case (Inl e')
  then show ?thesis using assms range_error [OF Inl] by (simp add: q_series_def)
next
  case (Inr p)
  show ?thesis
  proof (cases "q_resolve env vis (sr_identity_id q) st")
    case (Inl e')
    then show ?thesis using assms range_fine [OF Inr] resolve_error [OF Inl]
      by (cases p) (auto simp: q_series_def Inr split: if_splits)
  next
    case (Inr i)
    have "\<exists>d. e = E_Internal d"
      using assms \<open>range_s (sr_range q) = Inr p\<close> Inr unfolding q_series_def Let_def
      by (auto dest: stitched_error split: prod.splits sum.splits if_splits option.splits)
    then show ?thesis
      using range_fine [OF \<open>range_s (sr_range q) = Inr p\<close>] resolve_fine [OF Inr] by simp
  qed
qed

lemma verb_error:
  assumes "verb ch env now body vis st = Inl e"
  shows "query_error_code e = cause (re_query env) vis st body"
proof (cases body)
  case (TopIdentities q)
  then have "q_top (re_query env) vis q now st = Inl e" using assms by (simp add: verb_def)
  from top_error [OF this] show ?thesis by (auto simp: TopIdentities split: if_splits)
next
  case (Series q)
  then have "q_series ch (re_query env) vis q now st = Inl e" using assms by (simp add: verb_def)
  from series_error [OF this] show ?thesis by (auto simp: Series split: if_splits)
next
  case (ListIdentities q)
  then have "q_list_identities (re_query env) vis q st = Inl e" using assms by (simp add: verb_def)
  from list_error [OF this] show ?thesis by (auto simp: ListIdentities)
next
  case (Resolve n)
  then have "q_resolve (re_query env) vis n st = Inl e" using assms by (simp add: verb_def split: sum.splits)
  from resolve_error [OF this] show ?thesis by (auto simp: Resolve split: if_splits)
qed (use assms in \<open>auto simp: verb_def\<close>)

lemma respond_some:
  assumes "respond ch env req vis sv = (Some r, sv')" "rq_proto req = PROTO_VERSION"
  obtains (bare) "rq_body req = None" "sv' = sv"
      "r = error_response (rq_id req) Bad_Request ''request has no body''"
    | (hello) "rq_body req = Some Hello" "sv' = sv" "r = hello_response (rq_id req) sv"
    | (verb) now body where "rq_body req = Some body" "now_s (re_nanos env) = Some now" "sv' = sv"
      "r = answer env (rq_id req) (sv_demo sv) (verb ch env now body vis (sv_store sv))"
proof -
  obtain now where now: "now_s (re_nanos env) = Some now"
    using assms by (auto simp: respond_def split: option.splits)
  show thesis
  proof (cases "rq_body req")
    case None
    with assms now show ?thesis by (intro bare) (auto simp: respond_def answer_def)
  next
    case (Some body)
    let ?run = "map_prod (map_option (answer env (rq_id req) (sv_demo sv))) (\<lambda>s. s)"
    have ran: thesis if "?run (with_store (verb ch env now body vis) sv) = (Some r, sv')"
      using that by (intro verb [OF Some now]) (auto simp: with_store_def Let_def split: if_splits)
    have idle: thesis if "?run (Some (verb ch env now body vis (sv_store sv)), sv) = (Some r, sv')"
      using that by (intro verb [OF Some now]) auto
    have R: "respond ch env req vis sv = (case body of
        Hello \<Rightarrow> (Some (hello_response (rq_id req) sv), sv)
      | Watch w \<Rightarrow> ?run (Some (verb ch env now body vis (sv_store sv)), sv)
      | Cancel n \<Rightarrow> ?run (Some (verb ch env now body vis (sv_store sv)), sv)
      | _ \<Rightarrow> ?run (with_store (verb ch env now body vis) sv))"
      using now Some assms(2) by (cases body) (simp_all add: respond_def verb_def)
    show ?thesis
    proof (cases body)
      case Hello
      then show ?thesis using assms(1) Some by (intro hello) (auto simp: R)
    qed (use assms(1) ran idle in \<open>simp_all only: R request_body.case\<close>)
  qed
qed

text \<open>C30. A response is tied to its request: it carries the request's id; another protocol version gets the
  version error whatever the body is; a successful answer is the verb's rows for this caller, marked
  with the server's demo flag; an error reply carries the code of its cause, a missing or empty range being
  a bad request, an identity the caller cannot see not found, and an engine failure internal; and answering
  changes nothing in the server unless the thread panics.\<close>

theorem respond_contract:
  assumes "respond ch env req vis sv = (Some r, sv')"
  shows "rs_id r = rq_id req \<and> sv' = sv \<and>
    (rq_proto req \<noteq> PROTO_VERSION \<longrightarrow>
       rs_body r = Some (Resp_Error Unsupported_Protocol (unsupported_text (rq_proto req)))) \<and>
    (\<forall>rows. rs_body r = Some (Resp_Ok rows) \<longrightarrow>
       r_demo rows = sv_demo sv \<and>
       (\<exists>now body rows'. now_s (re_nanos env) = Some now \<and> rq_body req = Some body
          \<and> verb ch env now body vis (sv_store sv) = Inr rows' \<and> rows = rows'\<lparr>r_demo := sv_demo sv\<rparr>)) \<and>
    (\<forall>code text. rs_body r = Some (Resp_Error code text) \<and> rq_proto req = PROTO_VERSION \<longrightarrow>
       code = (case rq_body req of None \<Rightarrow> Bad_Request | Some body \<Rightarrow> cause (re_query env) vis (sv_store sv) body)) \<and>
    (\<forall>n. rq_proto req = PROTO_VERSION \<and> rq_body req = Some (Resolve n) \<and> hidden vis n (sv_store sv) \<and> \<not> qe_ids_fail (re_query env) \<longrightarrow>
       (\<exists>text. rs_body r = Some (Resp_Error Not_Found text)))"
proof (cases "rq_proto req = PROTO_VERSION")
  case False
  then show ?thesis using assms by (auto simp: respond_def error_response_def)
next
  case True
  with assms show ?thesis
  proof (cases rule: respond_some)
    case (verb now body)
    have found: "\<exists>e. verb ch env now body vis (sv_store sv) = Inl e"
      if "body = Resolve n" "hidden vis n (sv_store sv)" for n
      using that resolve_fine [of "re_query env" vis n "sv_store sv"]
      by (cases "q_resolve (re_query env) vis n (sv_store sv)") (auto simp: verb_def)
    show ?thesis
    proof (cases "verb ch env now body vis (sv_store sv)")
      case (Inl e)
      then show ?thesis
        using verb_error [OF Inl] verb True by (auto simp: answer_def error_response_def)
    next
      case (Inr rows)
      then show ?thesis using verb True found by (auto simp: answer_def)
    qed
  qed (simp_all add: True error_response_def hello_response_def)
qed

text \<open>Somebody else's identity is not found, and another protocol version is refused.\<close>

lemma respond_contract_witness:
  "(\<exists>r text. respond gregorian calm \<lparr>rq_proto = 1, rq_id = 9, rq_body = Some (Resolve 1)\<rparr> (Vis_Uid 7) demo_server
        = (Some r, demo_server) \<and> rs_body r = Some (Resp_Error Not_Found text))
   \<and> (\<exists>r. respond gregorian calm \<lparr>rq_proto = 2, rq_id = 9, rq_body = Some Hello\<rparr> (Vis_Uid 7) demo_server
        = (Some r, demo_server) \<and> rs_body r = Some (Resp_Error Unsupported_Protocol (unsupported_text 2)))"
proof
  have "snd (respond gregorian calm \<lparr>rq_proto = 1, rq_id = 9, rq_body = Some (Resolve 1)\<rparr> (Vis_Uid 7) demo_server) = demo_server"
    "fst (respond gregorian calm \<lparr>rq_proto = 1, rq_id = 9, rq_body = Some (Resolve 1)\<rparr> (Vis_Uid 7) demo_server) \<noteq> None"
    by code_simp+
  then obtain r where r: "respond gregorian calm \<lparr>rq_proto = 1, rq_id = 9, rq_body = Some (Resolve 1)\<rparr> (Vis_Uid 7) demo_server
        = (Some r, demo_server)"
    by (metis option.exhaust prod.collapse)
  have "hidden (Vis_Uid 7) 1 (sv_store demo_server)" "\<not> qe_ids_fail (re_query calm)"
    by (simp_all add: hidden_def demo_server_def demo_traffic_def demo_store_def demo_record_def calm_def calm_env_def)
  with respond_contract [OF r] r
  show "\<exists>r text. respond gregorian calm \<lparr>rq_proto = 1, rq_id = 9, rq_body = Some (Resolve 1)\<rparr> (Vis_Uid 7) demo_server
        = (Some r, demo_server) \<and> rs_body r = Some (Resp_Error Not_Found text)"
    by (auto simp: PROTO_VERSION_def)
next
  obtain r where r: "respond gregorian calm \<lparr>rq_proto = 2, rq_id = 9, rq_body = Some Hello\<rparr> (Vis_Uid 7) demo_server
        = (Some r, demo_server)"
    by (simp add: respond_def PROTO_VERSION_def)
  with respond_contract [OF r]
  show "\<exists>r. respond gregorian calm \<lparr>rq_proto = 2, rq_id = 9, rq_body = Some Hello\<rparr> (Vis_Uid 7) demo_server
        = (Some r, demo_server) \<and> rs_body r = Some (Resp_Error Unsupported_Protocol (unsupported_text 2))"
    by (simp add: PROTO_VERSION_def)
qed


section \<open>Labels\<close>

text \<open>C32. A live delta is grouped as the stored rows are: for every identity whose recorded user name is not
  the empty string, the label \<open>group_key\<close> gives the identity a client is sent is the key \<open>top\<close> groups its
  rows on.\<close>

theorem group_key_is_sql_key:
  assumes "ir_username (row_rec i) \<noteq> Some []"
  shows "group_key (identity_of_row i) by_key = fst (snd (top_key by_key i k))"
  using assms by (cases by_key) (auto simp: group_key_def identity_of_row_def top_key_def user_key_def split: option.split)

lemma group_key_is_sql_key_witness:
  "group_key (identity_of_row \<lparr>row_id = 1, row_rec = demo_record, row_first_seen = 0, row_last_seen = 0\<rparr>) Group_User
   = fst (snd (top_key Group_User \<lparr>row_id = 1, row_rec = demo_record, row_first_seen = 0, row_last_seen = 0\<rparr>
       (0, 1, ''external'')))"
  by (rule group_key_is_sql_key) (simp add: demo_record_def)


section \<open>What a stream tells its client\<close>

text \<open>The chunks of a run of ticks, up to the first error.\<close>

fun chunks :: "watch_view \<Rightarrow> (query_env \<times> server \<times> tick_msg) list \<Rightarrow> rows list \<times> watch_view" where
  "chunks view [] = ([], view)"
| "chunks view ((qe, sv, t) # rest) =
     (case chunk qe sv t view of
        (Some (Inr (rows, _)), view) \<Rightarrow> (case chunks view rest of (rs, view) \<Rightarrow> (rows # rs, view))
      | (_, view) \<Rightarrow> ([], view))"

definition allowed :: "visibility \<Rightarrow> identity \<Rightarrow> bool" where
  "allowed vis i \<longleftrightarrow> (case vis of Vis_All \<Rightarrow> True | Vis_Uid u \<Rightarrow> id_uid i = u)"

definition known_ok :: "visibility \<Rightarrow> (i64 \<times> identity option) list \<Rightarrow> bool" where
  "known_ok vis known \<longleftrightarrow> (\<forall>n i. map_of known n = Some (Some i) \<longrightarrow> id_id i = n \<and> allowed vis i)"

lemma map_extend_Cons [simp]: "map_extend ((k, v) # kvs) m = map_extend kvs (AList.update k v m)"
  by (simp add: map_extend_def)

lemma map_extend_Nil [simp]: "map_extend [] m = m"
  by (simp add: map_extend_def)

lemma map_extend_found:
  "map_of (map_extend (map (\<lambda>i. (id_id i, Some i)) found) m) n = Some v \<Longrightarrow>
     map_of m n = Some v \<or> (\<exists>i \<in> set found. id_id i = n \<and> v = Some i)"
  by (induction found arbitrary: m) (fastforce simp: update_conv' split: if_splits)+

lemma map_extend_none:
  "map_of (map_extend (map (\<lambda>n. (n, None)) ids) m) n = (if n \<in> set ids then Some None else map_of m n)"
  by (induction ids arbitrary: m) (auto simp: update_conv')

lemma visible_identities:
  assumes "identities_by_id qe vis ids st = Inr found" "i \<in> set found"
  shows "id_id i \<in> set ids \<and> allowed vis i
    \<and> (\<exists>w \<in> set (db_identity (st_db st)). may_see vis w \<and> i = identity_of_row w)"
  using assms
  by (cases vis) (auto simp: identities_by_id_def select_identities_def order_by_id_def allowed_def
      identity_of_row_def split: if_splits)

lemma learn_ok:
  assumes "learn qe sv t view = (r, view')" "known_ok (wv_vis view) (wv_known view)"
  shows "known_ok (wv_vis view) (wv_known view') \<and> wv_vis view' = wv_vis view \<and> wv_watch view' = wv_watch view
    \<and> wv_sent view' = wv_sent view"
proof -
  let ?known = "\<lambda>found. map_extend (map (\<lambda>i. (id_id i, Some i)) found)
      (map_extend (map (\<lambda>n. (n, None)) (unknown_ids view t)) (wv_known view))"
  have "known_ok (wv_vis view) (?known found)"
    if "identities_by_id qe (wv_vis view) (unknown_ids view t) (sv_store sv) = Inr found" for found
    unfolding known_ok_def
  proof (intro allI impI)
    fix n i
    assume "map_of (?known found) n = Some (Some i)"
    from map_extend_found [OF this] show "id_id i = n \<and> allowed (wv_vis view) i"
      using visible_identities [OF that, of i] assms(2)
      by (auto simp: map_extend_none known_ok_def split: if_splits)
  qed
  then show ?thesis
    using assms by (auto simp: learn_def Let_def split: if_splits sum.splits)
qed

lemma first_sent_ok:
  assumes "first_sent known cs sent = (found, sent')" "known_ok vis known"
    and "\<forall>c \<in> set cs. cr_identity_id c = 0 \<or> (\<exists>i. map_of known (cr_identity_id c) = Some (Some i))"
  shows "set sent' = set sent \<union> id_id ` set found
    \<and> distinct (map id_id found) \<and> id_id ` set found \<inter> set sent = {}
    \<and> (\<forall>c \<in> set cs. cr_identity_id c = 0 \<or> cr_identity_id c \<in> set sent')
    \<and> (\<forall>i \<in> set found. allowed vis i)"
  using assms
proof (induction known cs sent arbitrary: found sent' rule: first_sent.induct)
  case (2 known c cs sent)
  show ?case
  proof (cases "cr_identity_id c \<noteq> 0 \<and> cr_identity_id c \<notin> set sent")
    case True
    then obtain i where i: "map_of known (cr_identity_id c) = Some (Some i)" using "2.prems"(3) by auto
    then have id: "id_id i = cr_identity_id c" "allowed vis i"
      using "2.prems"(2) by (simp_all add: known_ok_def)
    obtain found0 where rest: "first_sent known cs (cr_identity_id c # sent) = (found0, sent')" "found = i # found0"
      using "2.prems"(1) True i by (auto split: prod.splits)
    from "2.IH"(1) [OF True rest(1) "2.prems"(2)] "2.prems"(3) True show ?thesis
      by (auto simp: rest(2) id)
  next
    case False
    with "2.prems"(1) have "first_sent known cs sent = (found, sent')" by auto
    from "2.IH"(2) [OF False this "2.prems"(2)] "2.prems"(3) False show ?thesis by auto
  qed
qed simp

lemma visible_deltas_known:
  "(k, c) \<in> set (visible_deltas view ds) \<Longrightarrow>
     \<exists>d i. d \<in> set ds \<and> map_of (wv_known view) (dl_identity_id d) = Some (Some i) \<and>
       fst k = (if grouped (w_group_by (wv_watch view)) then 0 else id_id i)"
  by (induction ds) (auto split: option.splits if_splits)

lemma set_take_limit: "set (take_limit n xs) \<subseteq> set xs"
  by (auto simp: take_limit_def dest: in_set_takeD)

definition told :: "rows \<Rightarrow> i64 list" where
  "told rows = map id_id (r_identities rows)"

definition told_all :: "rows list \<Rightarrow> i64 list" where
  "told_all rs = concat (map told rs)"

lemma told_all_simps [simp]: "told_all [] = []" "told_all (r # rs) = told r @ told_all rs"
  by (simp_all add: told_all_def)

lemma chunk_ok:
  assumes "chunk qe sv t view = (Some (Inr (rows, ms)), view')" "known_ok (wv_vis view) (wv_known view)"
  shows "known_ok (wv_vis view') (wv_known view') \<and> wv_vis view' = wv_vis view
    \<and> set (wv_sent view') = set (wv_sent view) \<union> set (told rows)
    \<and> distinct (told rows) \<and> set (told rows) \<inter> set (wv_sent view) = {}
    \<and> (\<forall>c \<in> set (r_counters rows). cr_identity_id c = 0 \<or> cr_identity_id c \<in> set (wv_sent view'))
    \<and> (\<forall>i \<in> set (r_identities rows). allowed (wv_vis view) i)"
proof -
  obtain v1 where learn: "learn qe sv t view = (Some (Inr ()), v1)"
    using assms(1) by (auto simp: chunk_def split: prod.splits option.splits sum.splits)
  note ok = learn_ok [OF this assms(2)]
  let ?sums = "fold (\<lambda>(k, c). btree_bump k c) (visible_deltas v1 (tk_deltas t)) []"
  let ?all = "map (counter_of (tk_at_unix_ms t)) ?sums"
  let ?cs = "take_limit (w_limit (wv_watch v1)) (sort_key (\<lambda>c. - uint (cr_ingress c + cr_egress c)) ?all)"
  obtain found sent where first: "first_sent (wv_known v1) ?cs (wv_sent v1) = (found, sent)" by force
  have rows: "r_counters rows = ?cs" "r_identities rows = found" "view' = v1\<lparr>wv_sent := sent\<rparr>"
    using assms(1) learn first by (auto simp: chunk_def Let_def empty_rows_def)
  have "cr_identity_id c = 0 \<or> (\<exists>i. map_of (wv_known v1) (cr_identity_id c) = Some (Some i))" if "c \<in> set ?cs" for c
  proof -
    from that obtain k where "k \<in> fst ` set ?sums" and n: "cr_identity_id c = fst k"
      using set_take_limit by (force simp: counter_of_def)
    then obtain d0 where "(k, d0) \<in> set (visible_deltas v1 (tk_deltas t))"
      unfolding btree.keys_fold by auto
    from visible_deltas_known [OF this] obtain i and d :: delta where
        "map_of (wv_known v1) (dl_identity_id d) = Some (Some i)"
        "fst k = (if grouped (w_group_by (wv_watch v1)) then 0 else id_id i)" by blast
    with n ok show ?thesis by (auto simp: known_ok_def split: if_splits)
  qed
  then show ?thesis
    using first_sent_ok [OF first, of "wv_vis view"] ok unfolding rows told_def by auto
qed

lemma chunks_ok:
  assumes "chunks view feed = (rs, view')" "known_ok (wv_vis view) (wv_known view)"
  shows "distinct (told_all rs)
    \<and> set (told_all rs) \<inter> set (wv_sent view) = {}
    \<and> (\<forall>rows \<in> set rs. \<forall>i \<in> set (r_identities rows). allowed (wv_vis view) i)
    \<and> (\<forall>k < length rs. \<forall>c \<in> set (r_counters (rs ! k)). cr_identity_id c = 0 \<or>
          cr_identity_id c \<in> set (wv_sent view) \<union> set (told_all (take (Suc k) rs)))"
  using assms
proof (induction view feed arbitrary: rs view' rule: chunks.induct)
  case (2 view qe sv t rest)
  show ?case
  proof (cases "\<exists>rows ms v. chunk qe sv t view = (Some (Inr (rows, ms)), v)")
    case True
    then obtain rows ms v where c: "chunk qe sv t view = (Some (Inr (rows, ms)), v)" by blast
    obtain rs0 where rest: "chunks v rest = (rs0, view')" "rs = rows # rs0"
      using "2.prems"(1) c by (auto split: prod.splits)
    note ok = chunk_ok [OF c "2.prems"(2)]
    have v: "known_ok (wv_vis v) (wv_known v)" "wv_vis v = wv_vis view" using ok by blast+
    note IH0 = "2.IH" [OF c [symmetric] refl refl refl rest(1) v(1)]
    have IH: "distinct (told_all rs0)"
      "set (told_all rs0) \<inter> set (wv_sent v) = {}"
      "\<forall>rows \<in> set rs0. \<forall>i \<in> set (r_identities rows). allowed (wv_vis view) i"
      "\<And>k c. k < length rs0 \<Longrightarrow> c \<in> set (r_counters (rs0 ! k)) \<Longrightarrow> cr_identity_id c = 0 \<or>
          cr_identity_id c \<in> set (wv_sent v) \<union> set (told_all (take (Suc k) rs0))"
      using IH0 unfolding v(2) by blast+
    have "cr_identity_id c = 0 \<or> cr_identity_id c \<in> set (wv_sent view)
        \<union> set (told_all (take (Suc k) rs))"
      if "k < length rs" "c \<in> set (r_counters (rs ! k))" for k c
      using that ok IH(4) [of "k - 1" c] by (cases k) (auto simp: rest(2))
    moreover have "set (told rows) \<inter> set (told_all rs0) = {}" "set (told_all rs) \<inter> set (wv_sent view) = {}"
      using IH(2) ok by (auto simp: rest(2))
    ultimately show ?thesis using IH(1,3) ok by (simp add: rest(2))
  next
    case False
    then have "rs = []" using "2.prems"(1) by (auto split: prod.splits option.splits sum.splits)
    then show ?thesis by simp
  qed
qed simp

text \<open>C9. A stream introduces each identity exactly once and never a stranger's: in any run of ticks over
  any history of the store, no identity is sent twice, every identity sent is one its caller may see,
  and every counter row that names an identity comes in or after the chunk that introduced it.\<close>

theorem stream_introduces_once:
  assumes "chunks (WatchView_new w vis) feed = (rs, view)"
  shows "distinct (told_all rs)
    \<and> (\<forall>rows \<in> set rs. \<forall>i \<in> set (r_identities rows). allowed vis i)
    \<and> (\<forall>k < length rs. \<forall>c \<in> set (r_counters (rs ! k)). cr_identity_id c \<noteq> 0 \<longrightarrow>
          cr_identity_id c \<in> set (told_all (take (Suc k) rs)))"
  using chunks_ok [OF assms] by (auto simp: WatchView_new_def known_ok_def)

definition demo_deltas :: "delta list" where
  "demo_deltas = [\<lparr>dl_identity_id = 1, dl_scope = Scope_External, dl_ingress = 30, dl_egress = 4\<rparr>,
     \<lparr>dl_identity_id = 2, dl_scope = Scope_External, dl_ingress = 900, dl_egress = 0\<rparr>,
     \<lparr>dl_identity_id = 1, dl_scope = Scope_Loopback, dl_ingress = 5, dl_egress = 5\<rparr>]"

definition demo_watch :: watch_req where
  "demo_watch = \<lparr>w_scope = Scope_All, w_group_by = Group_Unspecified, w_limit = 0\<rparr>"

lemma stream_introduces_once_witness:
  "let rs = fst (chunks (WatchView_new demo_watch (Vis_Uid 1000))
       [(calm_env, demo_server, demo_tick 5 demo_deltas), (calm_env, demo_server, demo_tick 6 demo_deltas)])
   in told_all rs = [1] \<and> map (map cr_ingress \<circ> r_counters) rs = [[30, 5], [30, 5]] \<and> distinct (told_all rs)"
proof -
  let ?feed = "[(calm_env, demo_server, demo_tick 5 demo_deltas), (calm_env, demo_server, demo_tick 6 demo_deltas)]"
  obtain rs view where run: "chunks (WatchView_new demo_watch (Vis_Uid 1000)) ?feed = (rs, view)" by force
  have "told_all (fst (chunks (WatchView_new demo_watch (Vis_Uid 1000)) ?feed)) = [1]"
    "map (map cr_ingress \<circ> r_counters) (fst (chunks (WatchView_new demo_watch (Vis_Uid 1000)) ?feed)) = [[30, 5], [30, 5]]"
    by code_simp+
  then show ?thesis using stream_introduces_once [OF run] by (simp add: run)
qed

text \<open>Which identities a caller may see in a store, and a cache that agrees with it.\<close>

definition sees :: "visibility \<Rightarrow> store \<Rightarrow> i64 \<Rightarrow> bool" where
  "sees vis st n \<longleftrightarrow> (\<exists>w \<in> set (db_identity (st_db st)). row_id w = n \<and> may_see vis w)"

definition current :: "store \<Rightarrow> watch_view \<Rightarrow> bool" where
  "current st view \<longleftrightarrow> known_ok (wv_vis view) (wv_known view) \<and>
     (\<forall>n v. map_of (wv_known view) n = Some v \<longrightarrow> (v \<noteq> None) = sees (wv_vis view) st n)"

lemma map_extend_keeps:
  "(\<exists>i \<in> set found. id_id i = n) \<Longrightarrow> \<exists>i. map_of (map_extend (map (\<lambda>i. (id_id i, Some i)) found) m) n = Some (Some i)"
proof (induction found arbitrary: m)
  case (Cons i found)
  then show ?case
  proof (cases "\<exists>i \<in> set found. id_id i = n")
    case False
    have "map_of (map_extend (map (\<lambda>i. (id_id i, Some i)) found) k) n = map_of k n" for k
      using False by (induction found arbitrary: k) (auto simp: update_conv')
    then show ?thesis using Cons.prems False by (auto simp: update_conv')
  qed simp
qed simp

lemma learn_current:
  assumes "learn qe sv t view = (Some (Inr ()), view')" "current (sv_store sv) view"
  shows "current (sv_store sv) view' \<and> (\<forall>d \<in> set (tk_deltas t). map_of (wv_known view') (dl_identity_id d) \<noteq> None)"
proof (cases "unknown_ids view t = []")
  case True
  then have "set (unknown_ids view t) = {}" by simp
  then have "map_of (wv_known view) (dl_identity_id d) \<noteq> None" if "d \<in> set (tk_deltas t)" for d
    using that by (auto simp: unknown_ids_def)
  then show ?thesis using assms True by (auto simp: learn_def)
next
  case False
  let ?ids = "unknown_ids view t" and ?vis = "wv_vis view" and ?st = "sv_store sv"
  obtain found where found: "identities_by_id qe ?vis ?ids ?st = Inr found"
    and view': "view' = view\<lparr>wv_known := map_extend (map (\<lambda>i. (id_id i, Some i)) found)
        (map_extend (map (\<lambda>n. (n, None)) ?ids) (wv_known view))\<rparr>"
    using assms(1) False by (auto simp: learn_def Let_def split: if_splits sum.splits)
  have ids: "n \<in> set ?ids \<longleftrightarrow> map_of (wv_known view) n = None \<and> n \<in> dl_identity_id ` set (tk_deltas t)" for n
    by (auto simp: unknown_ids_def)
  have all: "\<exists>i \<in> set found. id_id i = n" if "n \<in> set ?ids" "sees ?vis ?st n" for n
    using found that by (cases ?vis) (force simp: identities_by_id_def select_identities_def order_by_id_def
        sees_def identity_of_row_def split: if_splits)+
  have seen: "sees ?vis ?st (id_id i) \<and> id_id i \<in> set ?ids" if "i \<in> set found" for i
    using visible_identities [OF found that] by (force simp: sees_def identity_of_row_def)
  let ?known = "map_of (wv_known view')"
  have "(v \<noteq> None) = sees ?vis ?st n" if v: "?known n = Some v" for n v
  proof (cases "\<exists>i \<in> set found. id_id i = n")
    case True
    have "v \<noteq> None"
      using v map_extend_keeps [OF True, of "map_extend (map (\<lambda>n. (n, None)) ?ids) (wv_known view)"] by (auto simp: view')
    then show ?thesis using True seen by blast
  next
    case False
    then have old: "map_of (map_extend (map (\<lambda>n. (n, None)) ?ids) (wv_known view)) n = Some v"
      using v map_extend_found [of found _ n v] by (auto simp: view')
    show ?thesis
    proof (cases "n \<in> set ?ids")
      case True
      then show ?thesis using old all False by (auto simp: map_extend_none)
    next
      case out: False
      then show ?thesis using old assms(2) by (simp add: map_extend_none current_def)
    qed
  qed
  moreover have "?known (dl_identity_id d) \<noteq> None" if d: "d \<in> set (tk_deltas t)" for d
  proof (cases "\<exists>i \<in> set found. id_id i = dl_identity_id d")
    case True
    then show ?thesis using map_extend_keeps [OF True] by (auto simp: view')
  next
    case False
    have "map_of (map_extend (map (\<lambda>i. (id_id i, Some i)) found) k) (dl_identity_id d) = map_of k (dl_identity_id d)" for k
      using False by (induction found arbitrary: k) (auto simp: update_conv')
    then show ?thesis using ids d by (auto simp: view' map_extend_none)
  qed
  ultimately show ?thesis
    using learn_ok [OF assms(1)] assms(2) by (simp add: current_def)
qed

lemma visible_deltas_sum:
  assumes "current st view" "\<forall>d \<in> set ds. map_of (wv_known view) (dl_identity_id d) \<noteq> None"
  shows "sum_where (\<lambda>(n, g, s). (grouped (w_group_by (wv_watch view)) \<or> n = m) \<and> scope_of_i32 s = sc) (\<lambda>c. c) (visible_deltas view ds)
    = sum_list (map (\<lambda>d. Counts (dl_ingress d) (dl_egress d))
        (filter (\<lambda>d. sees (wv_vis view) st (dl_identity_id d) \<and> scope_matches (w_scope (wv_watch view)) (dl_scope d)
           \<and> (grouped (w_group_by (wv_watch view)) \<or> dl_identity_id d = m) \<and> dl_scope d = sc) ds))"
  using assms(2)
proof (induction ds)
  case (Cons d ds)
  then obtain v where v: "map_of (wv_known view) (dl_identity_id d) = Some v" by auto
  have "(v \<noteq> None) = sees (wv_vis view) st (dl_identity_id d)"
    "v = Some i \<Longrightarrow> id_id i = dl_identity_id d" for i
    using assms(1) v by (auto simp: current_def known_ok_def)
  then show ?case using Cons v by (cases v) auto
qed simp

lemma counters_sum:
  "sum_list (map (\<lambda>r. Counts (cr_ingress r) (cr_egress r))
      (filter (\<lambda>r. (g \<or> cr_identity_id r = n) \<and> cr_scope r = sc) (map (counter_of at_ms) sums)))
   = sum_where (\<lambda>(m, _, s). (g \<or> m = n) \<and> scope_of_i32 s = sc) id sums"
  by (induction sums) (auto simp: counter_of_def)

text \<open>C31. A chunk adds up: with a cache that agrees with the store, the counters of an unlimited stream hold,
  per scope and, when the rows are per identity, per identity, exactly the bytes of the poll's deltas
  that are in the asked scope and belong to identities the caller may see; and the cache still agrees.\<close>

theorem chunk_adds_up:
  assumes "chunk qe sv t view = (Some (Inr (rows, ms)), view')" "current (sv_store sv) view"
    and "w_limit (wv_watch view) = 0"
  shows "ms = tk_interval_ms t \<and> current (sv_store sv) view' \<and>
    sum_list (map (\<lambda>r. Counts (cr_ingress r) (cr_egress r))
      (filter (\<lambda>r. (grouped (w_group_by (wv_watch view)) \<or> cr_identity_id r = n) \<and> cr_scope r = sc) (r_counters rows)))
    = sum_list (map (\<lambda>d. Counts (dl_ingress d) (dl_egress d))
        (filter (\<lambda>d. sees (wv_vis view) (sv_store sv) (dl_identity_id d)
           \<and> scope_matches (w_scope (wv_watch view)) (dl_scope d)
           \<and> (grouped (w_group_by (wv_watch view)) \<or> dl_identity_id d = n) \<and> dl_scope d = sc) (tk_deltas t)))"
proof -
  obtain v1 where learn: "learn qe sv t view = (Some (Inr ()), v1)"
    using assms(1) by (auto simp: chunk_def split: prod.splits option.splits sum.splits)
  note cur = learn_current [OF this assms(2)]
  have v1: "wv_watch v1 = wv_watch view" "wv_vis v1 = wv_vis view"
    using learn_ok [OF learn] assms(2) by (simp_all add: current_def)
  let ?sums = "fold (\<lambda>(k, c). btree_bump k c) (visible_deltas v1 (tk_deltas t)) []"
  let ?P = "\<lambda>r. (grouped (w_group_by (wv_watch view)) \<or> cr_identity_id r = n) \<and> cr_scope r = sc"
  let ?C = "\<lambda>r. Counts (cr_ingress r) (cr_egress r)"
  let ?Q = "\<lambda>(m, g, s). (grouped (w_group_by (wv_watch view)) \<or> m = n) \<and> scope_of_i32 s = sc"
  have rows: "r_counters rows = sort_key (\<lambda>c. - uint (cr_ingress c + cr_egress c)) (map (counter_of (tk_at_unix_ms t)) ?sums)"
      "ms = tk_interval_ms t" "wv_known view' = wv_known v1" "wv_vis view' = wv_vis v1"
    using assms(1,3) learn by (auto simp: chunk_def Let_def empty_rows_def take_limit_def v1 split: prod.splits)
  have "sum_list (map ?C (filter ?P (r_counters rows))) = sum_mset (image_mset ?C (filter_mset ?P (mset (r_counters rows))))"
    by (simp flip: mset_filter mset_map add: sum_mset_sum_list)
  also have "\<dots> = sum_list (map ?C (filter ?P (map (counter_of (tk_at_unix_ms t)) ?sums)))"
    by (simp add: rows(1) flip: mset_filter mset_map add: sum_mset_sum_list)
  also have "\<dots> = sum_where ?Q id ?sums" by (rule counters_sum)
  also have "\<dots> = sum_where ?Q id (visible_deltas v1 (tk_deltas t))"
    by (simp add: sum_where_btree_fold)
  finally show ?thesis
    using visible_deltas_sum [of "sv_store sv" v1 "tk_deltas t" n sc] cur rows
    by (simp add: v1 current_def id_def)
qed

lemma chunk_adds_up_witness:
  "\<exists>rows view'. chunk calm_env demo_server (demo_tick 5 demo_deltas) (WatchView_new demo_watch (Vis_Uid 1000))
      = (Some (Inr (rows, 1000)), view')
    \<and> sum_list (map (\<lambda>r. Counts (cr_ingress r) (cr_egress r))
        (filter (\<lambda>r. cr_identity_id r = 1 \<and> cr_scope r = Scope_External) (r_counters rows))) = Counts 30 4"
proof -
  have "case fst (chunk calm_env demo_server (demo_tick 5 demo_deltas) (WatchView_new demo_watch (Vis_Uid 1000))) of
      Some (Inr (_, ms)) \<Rightarrow> ms = 1000 | _ \<Rightarrow> False"
    by code_simp
  then obtain rows view' where run: "chunk calm_env demo_server (demo_tick 5 demo_deltas) (WatchView_new demo_watch (Vis_Uid 1000))
      = (Some (Inr (rows, 1000)), view')"
    by (cases "chunk calm_env demo_server (demo_tick 5 demo_deltas) (WatchView_new demo_watch (Vis_Uid 1000))")
      (auto split: option.splits sum.splits)
  have "current (sv_store demo_server) (WatchView_new demo_watch (Vis_Uid 1000))"
    by (simp add: current_def known_ok_def WatchView_new_def)
  from chunk_adds_up [OF run this, of 1 Scope_External] run show ?thesis
    by (auto simp: WatchView_new_def demo_watch_def grouped_def sees_def demo_server_def demo_traffic_def
        update_db_def demo_store_def demo_record_def demo_deltas_def demo_tick_def scope_matches_def)
qed

end
