(* ===== verification/Collector.thy ===== *)
theory Collector
  imports Kernel Store Live
begin

text \<open>
  The collector (\<open>procflowd/src/collector.rs\<close>): the drain loop that reads and clears the kernel's
  counters, resolves processes to identities, keeps the current minute in memory, publishes each poll
  to the hub and flushes closed minutes to the store. The kernel keeps running between any two steps:
  what it does between the read and the removal of a key is a trace of hooks of \<open>Kernel\<close>.
\<close>

section \<open>Starting\<close>

definition default_object_path :: string where
  "default_object_path = ''crates/procflow-ebpf/target/bpfel-unknown-none/release/procflow-ebpf''"

definition object_path :: "string option \<Rightarrow> string" where
  "object_path env = (case env of Some p \<Rightarrow> p | None \<Rightarrow> default_object_path)"

text \<open>
  What the loader (the \<open>aya\<close> crate) answers: whether the object at a path loads and the kernel's BTF
  reads, and for each program and map whether it is there, of the right kind, loads and attaches.
\<close>

record loader =
  ld_object :: "string \<Rightarrow> bool"
  ld_btf :: bool
  ld_program :: "string \<Rightarrow> bool"
  ld_kind :: "string \<Rightarrow> bool"
  ld_load :: "string \<Rightarrow> bool"
  ld_attach :: "string \<Rightarrow> bool"
  ld_map :: "string \<Rightarrow> bool"
  ld_map_kind :: "string \<Rightarrow> bool"
  ld_spawn :: bool

definition attach_hook :: "loader \<Rightarrow> string \<Rightarrow> string \<Rightarrow> string + unit" where
  "attach_hook ld kind name =
     (if \<not> ld_program ld name then Inl (''program '' @ name @ '' missing from object'')
      else if \<not> ld_kind ld name then Inl (''unexpected program type'')
      else if \<not> ld_load ld name then Inl (''loading '' @ kind @ '' '' @ name)
      else if \<not> ld_attach ld name then Inl (''attaching '' @ kind @ '' '' @ name)
      else Inr ())"

fun attach_each :: "loader \<Rightarrow> string \<Rightarrow> string list \<Rightarrow> string + unit" where
  "attach_each ld kind [] = Inr ()"
| "attach_each ld kind (name # names) =
     (case attach_hook ld kind name of Inl e \<Rightarrow> Inl e | Inr _ \<Rightarrow> attach_each ld kind names)"

definition take_map :: "loader \<Rightarrow> string \<Rightarrow> string + unit" where
  "take_map ld name =
     (if \<not> ld_map ld name then Inl (name @ '' map missing'')
      else if \<not> ld_map_kind ld name then Inl (''unexpected map type'') else Inr ())"

fun take_maps :: "loader \<Rightarrow> string list \<Rightarrow> string + unit" where
  "take_maps ld [] = Inr ()"
| "take_maps ld (name # names) = (case take_map ld name of Inl e \<Rightarrow> Inl e | Inr _ \<Rightarrow> take_maps ld names)"

definition fexit_hooks :: "string list" where
  "fexit_hooks = [''tcp_sendmsg'', ''udp_sendmsg'', ''udpv6_sendmsg'', ''udp_recvmsg'', ''udpv6_recvmsg'']"

definition collector_start :: "string option \<Rightarrow> loader \<Rightarrow> string + unit" where
  "collector_start env ld =
     (let path = object_path env in
      if \<not> ld_object ld path then Inl (''loading BPF object '' @ path)
      else if \<not> ld_btf ld then Inl (''reading kernel BTF from /sys/kernel/btf/vmlinux'')
      else case attach_each ld ''fentry'' [''tcp_cleanup_rbuf''] of Inl e \<Rightarrow> Inl e | Inr _ \<Rightarrow>
      case attach_each ld ''fexit'' fexit_hooks of Inl e \<Rightarrow> Inl e | Inr _ \<Rightarrow>
      case take_maps ld [''TRAFFIC'', ''NEW_PIDS'', ''PID_META''] of Inl e \<Rightarrow> Inl e | Inr _ \<Rightarrow>
      if \<not> ld_spawn ld then Inl ''spawning the drain thread'' else Inr ())"


section \<open>The drain\<close>

type_synonym acc_key = "i64 \<times> i64 \<times> u8"

text \<open>The thread's state, with the maps, the store and the hub it shares.\<close>

record drain =
  dr_store :: store
  dr_hub :: hub
  dr_last_drain :: int
  dr_maps :: bpf_maps
  dr_cache :: "(u32 \<times> i64) list"
  dr_acc :: "(acc_key \<times> counts) list"

definition drain_new :: "store \<Rightarrow> hub \<Rightarrow> int \<Rightarrow> bpf_maps \<Rightarrow> drain" where
  "drain_new st h now m =
     \<lparr>dr_store = st, dr_hub = h, dr_last_drain = now, dr_maps = m, dr_cache = [], dr_acc = []\<rparr>"

text \<open>
  One pass's surroundings: the processes as \<open>/proc\<close> shows them and those alive at its end; the wall
  clock in seconds and the monotonic one in nanoseconds at each reading; what fails; and the hooks
  that fire between the read of a key and its removal.
\<close>

record tick_env =
  te_fs :: file_system
  te_proc :: "u32 \<Rightarrow> proc_dir"
  te_alive :: "u32 \<Rightarrow> bool"
  te_instant :: int
  te_now_bucket :: i64
  te_now_publish :: i64
  te_now_flush :: i64
  te_now_upsert :: i64
  te_get_ok :: "traffic_key \<Rightarrow> bool"
  te_remove_ok :: "traffic_key \<Rightarrow> bool"
  te_race :: "traffic_key \<Rightarrow> (hook \<times> call) list"
  te_upsert_fails :: "u32 \<Rightarrow> bool"
  te_minute_fails :: "acc_key \<Rightarrow> bool"
  te_evict_ok :: "u32 \<Rightarrow> bool"

definition current_minute :: "i64 \<Rightarrow> i64" where
  "current_minute now = now - now mod 60"

definition record_for :: "tick_env \<Rightarrow> u32 \<Rightarrow> bpf_maps \<Rightarrow> identity_record" where
  "record_for env tgid m =
     (case from_proc (te_fs env) (te_proc env tgid) of
        Inr r \<Rightarrow> r
      | Inl _ \<Rightarrow> (case map_of (PID_META m) tgid of
                   Some meta \<Rightarrow> from_pid_meta (te_fs env) meta
                 | None \<Rightarrow> fully_unresolved))"

definition resolve :: "tick_env \<Rightarrow> u32 \<Rightarrow> drain \<Rightarrow> i64 option \<times> drain" where
  "resolve env tgid d =
     (case map_of (dr_cache d) tgid of
        Some i \<Rightarrow> (Some i, d)
      | None \<Rightarrow>
          (case upsert_identity (te_upsert_fails env tgid) (te_now_upsert env)
                  (record_for env tgid (dr_maps d)) (dr_store d) of
             (Inr i, st) \<Rightarrow> (Some i, d\<lparr>dr_store := st, dr_cache := AList.update tgid i (dr_cache d)\<rparr>)
           | (Inl _, st) \<Rightarrow> (None, d\<lparr>dr_store := st\<rparr>)))"

definition fresh_tgids :: "u8 list list \<Rightarrow> u32 list" where
  "fresh_tgids items = map (\<lambda>item. from_le_bytes (take 4 item)) (filter (\<lambda>item. 4 \<le> length item) items)"

definition drain_new_pids :: "tick_env \<Rightarrow> drain \<Rightarrow> drain" where
  "drain_new_pids env d =
     fold (\<lambda>tgid d. snd (resolve env tgid d)) (fresh_tgids (NEW_PIDS (dr_maps d)))
       (d\<lparr>dr_maps := (dr_maps d)\<lparr>NEW_PIDS := []\<rparr>\<rparr>)"

text \<open>The bytes of a key in its direction's column.\<close>

definition dir_counts :: "u8 \<Rightarrow> u64 \<Rightarrow> counts" where
  "dir_counts dir b =
     (if dir = DIR_INGRESS then Counts b 0 else if dir = DIR_EGRESS then Counts 0 b else 0)"

type_synonym polled = "((i64 \<times> u8) \<times> counts) list"

text \<open>The body of the loop over the keys.\<close>

definition drain_key :: "tick_env \<Rightarrow> traffic_key \<Rightarrow> polled \<times> drain \<Rightarrow> polled \<times> drain" where
  "drain_key env key = (\<lambda>(polled, d).
     case (if te_get_ok env key then map_of (TRAFFIC (dr_maps d)) key else None) of
       None \<Rightarrow> (polled, d)
     | Some per_cpu \<Rightarrow>
         let bytes = sum_list per_cpu;
             m = trace (te_race env key) (dr_maps d);
             removed = te_remove_ok env key;
             d = d\<lparr>dr_maps := (if removed then m\<lparr>TRAFFIC := AList.delete key (TRAFFIC m)\<rparr> else m)\<rparr>
         in if \<not> removed \<or> bytes = 0 then (polled, d)
            else (case resolve env (tk_tgid key) d of
                    (None, d) \<Rightarrow> (polled, d)
                  | (Some i, d) \<Rightarrow>
                      (hash_bump (i, tk_scope key) (dir_counts (tk_dir key) bytes) polled, d)))"

definition delta_of :: "(i64 \<times> u8) \<times> counts \<Rightarrow> delta" where
  "delta_of = (\<lambda>((i, sc), c).
     \<lparr>dl_identity_id = i, dl_scope = (if sc = SCOPE_LOOPBACK then Scope_Loopback else Scope_External),
      dl_ingress = ingress c, dl_egress = egress c\<rparr>)"

definition drain_traffic :: "tick_env \<Rightarrow> drain \<Rightarrow> drain" where
  "drain_traffic env d =
     (let keys = map fst (TRAFFIC (dr_maps d));
          interval = te_instant env - dr_last_drain d;
          bucket = current_minute (te_now_bucket env);
          (polled, d) = fold (drain_key env) keys ([], d\<lparr>dr_last_drain := te_instant env\<rparr>);
          acc = fold (\<lambda>((i, sc), c). hash_bump (bucket, i, sc) c) polled (dr_acc d);
          tick = \<lparr>tk_at_unix_ms = te_now_publish env * 1000, tk_interval_ms = of_int (interval div 10 ^ 6),
                  tk_deltas = map delta_of polled\<rparr>
      in d\<lparr>dr_acc := acc, dr_hub := publish tick (dr_hub d)\<rparr>)"

definition scope_str :: "u8 \<Rightarrow> string" where
  "scope_str sc = (if sc = SCOPE_LOOPBACK then ''loopback'' else ''external'')"

fun flush_each :: "tick_env \<Rightarrow> acc_key list \<Rightarrow> drain \<Rightarrow> (db_error + unit) \<times> drain" where
  "flush_each env [] d = (Inr (), d)"
| "flush_each env (key # keys) d =
     (case key of (bucket, i, sc) \<Rightarrow>
      let c = get_or_zero (dr_acc d) key; d = d\<lparr>dr_acc := AList.delete key (dr_acc d)\<rparr> in
      case record_minute (te_minute_fails env key) bucket i (scope_str sc) (ingress c) (egress c) (dr_store d) of
        (Inl e, st) \<Rightarrow> (Inl e, d\<lparr>dr_store := st\<rparr>)
      | (Inr _, st) \<Rightarrow> flush_each env keys (d\<lparr>dr_store := st\<rparr>))"

definition flush_closed_minutes :: "tick_env \<Rightarrow> drain \<Rightarrow> (db_error + unit) \<times> drain" where
  "flush_closed_minutes env d =
     (let open_bucket = current_minute (te_now_flush env);
          closed = filter (\<lambda>(bucket, _). bucket < open_bucket) (map fst (dr_acc d))
      in if closed = [] then (Inr (), d) else flush_each env closed d)"

definition evict :: "tick_env \<Rightarrow> u32 \<Rightarrow> drain \<Rightarrow> drain" where
  "evict env tgid d =
     d\<lparr>dr_maps := (if te_evict_ok env tgid
          then (dr_maps d)\<lparr>PID_META := AList.delete tgid (PID_META (dr_maps d))\<rparr> else dr_maps d),
       dr_cache := AList.delete tgid (dr_cache d)\<rparr>"

definition gc_dead_tgids :: "tick_env \<Rightarrow> drain \<Rightarrow> drain" where
  "gc_dead_tgids env d =
     fold (evict env) (filter (\<lambda>tgid. \<not> te_alive env tgid) (map fst (PID_META (dr_maps d)))) d"

definition tick :: "tick_env \<Rightarrow> drain \<Rightarrow> (db_error + unit) \<times> drain" where
  "tick env d =
     (case flush_closed_minutes env (drain_traffic env (drain_new_pids env d)) of
        (Inl e, d) \<Rightarrow> (Inl e, d)
      | (Inr _, d) \<Rightarrow> (Inr (), gc_dead_tgids env d))"

text \<open>The loop reports a failed pass and goes on; between passes the kernel runs.\<close>

fun run :: "((hook \<times> call) list \<times> tick_env) list \<Rightarrow> drain \<Rightarrow> drain" where
  "run [] d = d"
| "run ((es, env) # rest) d =
     run rest (snd (tick env (d\<lparr>dr_maps := trace es (dr_maps d)\<rparr>)))"

end
