(* ===== verification/Collector_Props.thy ===== *)
theory Collector_Props
  imports Collector
begin

text \<open>
  What the collector keeps: its invariant through every pass, faults and races included, and the
  account of bytes, which a pass without faults moves from the kernel's counters through the
  current-minute accumulator into the store without losing or repeating any.
\<close>

section \<open>The account\<close>

text \<open>Counter pairs can be subtracted, so that accounts can be compared after cancelling.\<close>

instantiation counts :: ab_group_add
begin

definition uminus_counts :: "counts \<Rightarrow> counts" where
  "uminus_counts a = Counts (- ingress a) (- egress a)"

definition minus_counts :: "counts \<Rightarrow> counts \<Rightarrow> counts" where
  "minus_counts a b = Counts (ingress a - ingress b) (egress a - egress b)"

instance
  by standard (simp_all add: uminus_counts_def minus_counts_def plus_counts_def zero_counts_def)

end

definition traffic_total :: "(traffic_key \<times> u64 list) list \<Rightarrow> counts" where
  "traffic_total t = sum_list (map (\<lambda>(k, cs). dir_counts (tk_dir k) (sum_list cs)) t)"

abbreviation table_total :: "('k \<times> counts) list \<Rightarrow> counts" where
  "table_total t \<equiv> sum_list (map snd t)"

definition account :: "drain \<Rightarrow> counts" where
  "account d = traffic_total (TRAFFIC (dr_maps d)) + table_total (dr_acc d)
     + table_total (db_minute (st_db (dr_store d)))"

lemma dir_counts_add: "dir_counts dir (a + b) = dir_counts dir a + dir_counts dir b"
  by (simp add: dir_counts_def)

lemma dir_counts_zero [simp]: "dir_counts dir 0 = 0"
  by (simp add: dir_counts_def zero_counts_def)

lemma traffic_total_append: "traffic_total (t @ u) = traffic_total t + traffic_total u"
  by (simp add: traffic_total_def)

lemma delete_total:
  fixes f :: "'k \<Rightarrow> 'v \<Rightarrow> counts"
  assumes "distinct (map fst t)" "map_of t k = Some v"
  shows "sum_list (map (\<lambda>(k, v). f k v) (AList.delete k t)) + f k v = sum_list (map (\<lambda>(k, v). f k v) t)"
  using assms
proof (induction t)
  case (Cons p t)
  have "AList.delete k t = t" if "k \<notin> fst ` set t" using that by (simp add: delete_id)
  then show ?case using Cons by (cases p) (auto simp: ac_simps)
qed simp

lemma update_total:
  fixes f :: "'k \<Rightarrow> 'v \<Rightarrow> counts"
  assumes "distinct (map fst t)" "map_of t k = Some v"
  shows "sum_list (map (\<lambda>(k, v). f k v) (AList.update k w t)) + f k v
       = sum_list (map (\<lambda>(k, v). f k v) t) + f k w"
  using assms by (induction t) (auto simp: map_of_eq_None_iff ac_simps)

lemma bump_cpu_total:
  assumes "distinct (map fst t)" "list_all (\<lambda>(k, cs). length cs = n) t" "i < n"
  shows "traffic_total (bump_cpu i n k b t) = traffic_total t + dir_counts (tk_dir k) b"
proof (cases "map_of t k")
  case None
  have "sum_list (replicate m 0) = (0 :: u64)" for m by (induction m) simp_all
  then have "sum_list ((replicate n 0)[i := b]) = b"
    using sum_list_bump_at [of i "replicate n 0" b] assms(3) by simp
  with None show ?thesis by (simp add: bump_cpu_def traffic_total_def)
next
  case (Some cs)
  then have "length cs = n" using assms(2) map_of_SomeD [OF Some] by (auto simp: list_all_iff)
  then have "sum_list (cs[i := cs ! i + b]) = sum_list cs + b"
    using assms(3) by (simp add: sum_list_bump_at)
  then have "traffic_total (AList.update k (cs[i := cs ! i + b]) t) + dir_counts (tk_dir k) (sum_list cs)
      = traffic_total t + dir_counts (tk_dir k) b + dir_counts (tk_dir k) (sum_list cs)"
    using update_total [OF assms(1) Some, of "\<lambda>k cs. dir_counts (tk_dir k) (sum_list cs)" "cs[i := cs ! i + b]"]
    by (simp add: traffic_total_def dir_counts_add ac_simps)
  then show ?thesis by (simp add: bump_cpu_def Some)
qed

text \<open>What hooks add to the kernel's counters: the credits of the kernel model.\<close>

lemma fire_total:
  assumes "maps_ok n m" "on_cpus n e"
  shows "traffic_total (TRAFFIC (fire e m))
    = traffic_total (TRAFFIC m) + sum_list (map (\<lambda>(k, b). dir_counts (tk_dir k) b) (accepted slot_payload m e))"
  using accepted_short [of slot_payload m e] assms
  by (auto simp: fire_traffic maps_ok_def on_cpus_def bump_cpu_total)

definition credited :: "bpf_maps \<Rightarrow> (hook \<times> call) list \<Rightarrow> counts" where
  "credited m es = sum_list (map (\<lambda>(k, b). dir_counts (tk_dir k) b) (credits slot_payload m es))"

lemma trace_total:
  "maps_ok n m \<Longrightarrow> \<forall>e \<in> set es. on_cpus n e \<Longrightarrow>
     traffic_total (TRAFFIC (trace es m)) = traffic_total (TRAFFIC m) + credited m es"
proof (induction es arbitrary: m)
  case (Cons e es)
  then have "traffic_total (TRAFFIC (trace es (fire e m))) = traffic_total (TRAFFIC (fire e m)) + credited (fire e m) es"
    by (simp add: maps_ok_fire)
  with Cons.prems show ?case by (simp add: trace_def fire_total credited_def add.assoc)
qed (simp add: trace_def credited_def)


section \<open>The invariant\<close>

definition drain_ok :: "nat \<Rightarrow> drain \<Rightarrow> bool" where
  "drain_ok n d \<longleftrightarrow>
     store_ok (dr_store d) \<and> hub_ok (dr_hub d) \<and> maps_ok n (dr_maps d) \<and>
     snd ` set (dr_cache d) \<subseteq> identity_ids (st_db (dr_store d)) \<and>
     distinct (map fst (dr_acc d)) \<and>
     (\<forall>k \<in> fst ` set (dr_acc d). fst (snd k) \<in> identity_ids (st_db (dr_store d)))"

definition on_machine :: "nat \<Rightarrow> tick_env \<Rightarrow> bool" where
  "on_machine n env \<longleftrightarrow> (\<forall>k. \<forall>e \<in> set (te_race env k). on_cpus n e)"

lemma upsert_identity_frame:
  assumes "upsert_identity f now r st = (res, st')"
  shows "tier_table t (st_db st') = tier_table t (st_db st)"
    and "identity_ids (st_db st) \<subseteq> identity_ids (st_db st')"
    and "res = Inr i \<Longrightarrow> i \<in> identity_ids (st_db st')"
  using assms upsert_identity_ids [OF assms]
  by (auto elim!: upsert_identity_cases simp: identity_ids_def image_iff) (cases t; force)+

lemma resolve_cases:
  assumes "resolve env tgid d = (r, d')"
  obtains (cached) i where "map_of (dr_cache d) tgid = Some i" "r = Some i" "d' = d"
  | (found) i st where "map_of (dr_cache d) tgid = None" "r = Some i" "\<not> te_upsert_fails env tgid"
      "upsert_identity False (te_now_upsert env) (record_for env tgid (dr_maps d)) (dr_store d) = (Inr i, st)"
      "d' = d\<lparr>dr_store := st, dr_cache := AList.update tgid i (dr_cache d)\<rparr>"
  | (failed) "map_of (dr_cache d) tgid = None" "r = None" "te_upsert_fails env tgid" "d' = d"
proof (cases "te_upsert_fails env tgid")
  case True
  then show ?thesis
    using assms that(1,3) by (auto simp: resolve_def upsert_identity_def Let_def split: option.splits)
next
  case False
  then have "\<not> (\<exists>e st. upsert_identity False now r st0 = (Inl e, st))" for now r st0
    by (auto elim!: upsert_identity_cases)
  then show ?thesis
    using assms that(1,2) False
    by (auto simp: resolve_def split: option.splits prod.splits sum.splits)
qed

lemma resolve_frame:
  assumes "resolve env tgid d = (r, d')"
  shows "dr_maps d' = dr_maps d \<and> dr_acc d' = dr_acc d \<and> dr_hub d' = dr_hub d \<and> dr_last_drain d' = dr_last_drain d
    \<and> tier_table t (st_db (dr_store d')) = tier_table t (st_db (dr_store d))
    \<and> identity_ids (st_db (dr_store d)) \<subseteq> identity_ids (st_db (dr_store d'))"
  using assms
proof (cases rule: resolve_cases)
  case (found i st)
  then show ?thesis using upsert_identity_frame(1,2) [OF found(4)] by simp
qed simp_all

lemma drain_ok_store:
  assumes "drain_ok n d" "store_ok st" "identity_ids (st_db (dr_store d)) \<subseteq> identity_ids (st_db st)"
  shows "drain_ok n (d\<lparr>dr_store := st\<rparr>)"
  using assms by (fastforce simp: drain_ok_def)

lemma update_values: "snd ` set (AList.update k v t) \<subseteq> insert v (snd ` set t)"
  by (induction t) auto

lemma delete_subset: "set (AList.delete k t) \<subseteq> set t"
  by (induction t) auto

lemma resolve_ok:
  assumes "resolve env tgid d = (r, d')" "drain_ok n d"
  shows "drain_ok n d' \<and> (\<forall>i. r = Some i \<longrightarrow> i \<in> identity_ids (st_db (dr_store d')))"
  using assms(1)
proof (cases rule: resolve_cases)
  case (cached i)
  then show ?thesis using assms(2) map_of_SomeD [of "dr_cache d" tgid i] by (force simp: drain_ok_def)
next
  case (found i st)
  note fr = upsert_identity_frame [OF found(4)]
  have "drain_ok n (d\<lparr>dr_store := st\<rparr>)"
    using drain_ok_store [OF assms(2)] upsert_identity_ok [OF _ found(4)] fr(2) assms(2) by (simp add: drain_ok_def)
  moreover have "snd ` set (AList.update tgid i (dr_cache d)) \<subseteq> insert i (snd ` set (dr_cache d))"
    by (rule update_values)
  ultimately show ?thesis using found(2,5) fr(3) [of i] by (auto simp: drain_ok_def)
qed (use assms(2) in simp_all)

lemma drain_new_pids_frame:
  "let d' = drain_new_pids env d in dr_maps d' = (dr_maps d)\<lparr>NEW_PIDS := []\<rparr> \<and> dr_acc d' = dr_acc d \<and> dr_hub d' = dr_hub d
    \<and> tier_table t (st_db (dr_store d')) = tier_table t (st_db (dr_store d))"
proof -
  have "dr_maps (fold (\<lambda>tgid d. snd (resolve env tgid d)) ts d) = dr_maps d
      \<and> dr_acc (fold (\<lambda>tgid d. snd (resolve env tgid d)) ts d) = dr_acc d
      \<and> dr_hub (fold (\<lambda>tgid d. snd (resolve env tgid d)) ts d) = dr_hub d
      \<and> tier_table t (st_db (dr_store (fold (\<lambda>tgid d. snd (resolve env tgid d)) ts d))) = tier_table t (st_db (dr_store d))" for ts d
    by (induction ts arbitrary: d) (use resolve_frame in \<open>auto simp: prod_eq_iff\<close>)
  then show ?thesis by (simp add: drain_new_pids_def Let_def)
qed

lemma drain_new_pids_ok:
  assumes "drain_ok n d"
  shows "drain_ok n (drain_new_pids env d)"
proof -
  have "drain_ok n d \<Longrightarrow> drain_ok n (fold (\<lambda>tgid d. snd (resolve env tgid d)) ts d)" for ts d
    by (induction ts arbitrary: d) (use resolve_ok in \<open>auto simp: prod_eq_iff\<close>)
  moreover have "drain_ok n (d\<lparr>dr_maps := (dr_maps d)\<lparr>NEW_PIDS := []\<rparr>\<rparr>)"
    using assms by (simp add: drain_ok_def maps_ok_def)
  ultimately show ?thesis by (simp add: drain_new_pids_def)
qed

lemma drain_key_cases:
  assumes "drain_key env key (polled, d) = (polled', d')"
  obtains (skip) "polled' = polled" "d' = d"
  | (raced) cs where "map_of (TRAFFIC (dr_maps d)) key = Some cs" "polled' = polled" "\<not> te_remove_ok env key"
      "d' = d\<lparr>dr_maps := trace (te_race env key) (dr_maps d)\<rparr>"
  | (empty) cs m where "map_of (TRAFFIC (dr_maps d)) key = Some cs" "sum_list cs = 0" "polled' = polled"
      "m = trace (te_race env key) (dr_maps d)"
      "d' = d\<lparr>dr_maps := m\<lparr>TRAFFIC := AList.delete key (TRAFFIC m)\<rparr>\<rparr>"
  | (resolved) cs m r d1 where "map_of (TRAFFIC (dr_maps d)) key = Some cs" "sum_list cs \<noteq> 0"
      "m = trace (te_race env key) (dr_maps d)"
      "resolve env (tk_tgid key) (d\<lparr>dr_maps := m\<lparr>TRAFFIC := AList.delete key (TRAFFIC m)\<rparr>\<rparr>) = (r, d1)" "d' = d1"
      "polled' = (case r of None \<Rightarrow> polled
         | Some i \<Rightarrow> hash_bump (i, tk_scope key) (dir_counts (tk_dir key) (sum_list cs)) polled)"
proof (cases "if te_get_ok env key then map_of (TRAFFIC (dr_maps d)) key else None")
  case None
  then show ?thesis using assms that(1) by (simp add: drain_key_def)
next
  case (Some cs)
  then have get: "map_of (TRAFFIC (dr_maps d)) key = Some cs" by (simp split: if_splits)
  let ?m = "trace (te_race env key) (dr_maps d)"
  let ?d = "d\<lparr>dr_maps := ?m\<lparr>TRAFFIC := AList.delete key (TRAFFIC ?m)\<rparr>\<rparr>"
  obtain r d1 where r: "resolve env (tk_tgid key) ?d = (r, d1)" by force
  show ?thesis
  proof (cases "te_remove_ok env key")
    case False
    then show ?thesis using assms that(2) [OF get] Some by (simp add: drain_key_def Let_def)
  next
    case removed: True
    show ?thesis
    proof (cases "sum_list cs = 0")
      case True
      then show ?thesis using assms that(3) [OF get True] Some removed by (simp add: drain_key_def Let_def)
    next
      case False
      then show ?thesis
        using assms that(4) [OF get False refl r] Some removed r
        by (simp add: drain_key_def Let_def split: option.splits)
    qed
  qed
qed

lemma drain_ok_maps:
  "drain_ok n d \<Longrightarrow> maps_ok n m \<Longrightarrow> drain_ok n (d\<lparr>dr_maps := m\<rparr>)"
  by (simp add: drain_ok_def)

lemma maps_ok_delete: "maps_ok n m \<Longrightarrow> maps_ok n (m\<lparr>TRAFFIC := AList.delete key (TRAFFIC m)\<rparr>)"
  using delete_subset [of key "TRAFFIC m"] by (auto simp: maps_ok_def list_all_iff distinct_delete)

definition polled_ok :: "polled \<Rightarrow> drain \<Rightarrow> bool" where
  "polled_ok polled d \<longleftrightarrow> (\<forall>k \<in> fst ` set polled. fst k \<in> identity_ids (st_db (dr_store d)))"

lemma drain_key_ok:
  assumes "drain_key env key (polled, d) = (polled', d')" "drain_ok n d" "on_machine n env" "polled_ok polled d"
  shows "drain_ok n d' \<and> polled_ok polled' d' \<and> dr_acc d' = dr_acc d \<and> dr_hub d' = dr_hub d
    \<and> tier_table t (st_db (dr_store d')) = tier_table t (st_db (dr_store d))"
proof -
  let ?m = "trace (te_race env key) (dr_maps d)"
  have m: "maps_ok n ?m" "maps_ok n (?m\<lparr>TRAFFIC := AList.delete key (TRAFFIC ?m)\<rparr>)"
    using assms(2,3) by (auto simp: drain_ok_def on_machine_def intro!: maps_ok_trace maps_ok_delete)
  show ?thesis
    using assms(1)
  proof (cases rule: drain_key_cases)
    case (resolved cs m' r d1)
    note ok = resolve_ok [OF resolved(4)] resolve_frame [OF resolved(4), of t]
    have "drain_ok n (d\<lparr>dr_maps := ?m\<lparr>TRAFFIC := AList.delete key (TRAFFIC ?m)\<rparr>\<rparr>)"
      by (rule drain_ok_maps [OF assms(2) m(2)])
    with ok(1) [of n] ok(2) assms(4) show ?thesis
      by (cases r) (auto simp: resolved(3,5,6) polled_ok_def hash_bump_keys)
  qed (use assms(2,4) m drain_ok_maps in \<open>auto simp: polled_ok_def\<close>)
qed

lemma drain_keys_ok:
  assumes "fold (drain_key env) keys (polled, d) = (polled', d')" "drain_ok n d" "on_machine n env" "polled_ok polled d"
  shows "drain_ok n d' \<and> polled_ok polled' d' \<and> dr_acc d' = dr_acc d \<and> dr_hub d' = dr_hub d
    \<and> tier_table t (st_db (dr_store d')) = tier_table t (st_db (dr_store d))"
  using assms
proof (induction keys arbitrary: polled d)
  case (Cons key keys)
  obtain p1 d1 where k: "drain_key env key (polled, d) = (p1, d1)" by force
  note ok = drain_key_ok [OF k Cons.prems(2-4), of t]
  show ?case using Cons.IH [of p1 d1] Cons.prems(1,3) k ok by simp
qed simp

lemma acc_fold:
  "fold (\<lambda>((i, sc), c). hash_bump (b, i, sc) c) polled acc
     = fold (\<lambda>(k, c). hash_bump k c) (map (\<lambda>((i, sc), c). ((b, i, sc), c)) polled) acc"
  by (induction polled arbitrary: acc) auto

lemma drain_traffic_ok:
  assumes "drain_ok n d" "on_machine n env"
  shows "drain_ok n (drain_traffic env d)"
proof -
  obtain polled d1 where run: "fold (drain_key env) (map fst (TRAFFIC (dr_maps d))) ([], d\<lparr>dr_last_drain := te_instant env\<rparr>)
      = (polled, d1)" by force
  have d0: "drain_ok n (d\<lparr>dr_last_drain := te_instant env\<rparr>)" using assms(1) by (simp add: drain_ok_def)
  have "polled_ok [] (d\<lparr>dr_last_drain := te_instant env\<rparr>)" by (simp add: polled_ok_def)
  note ok = drain_keys_ok [OF run d0 assms(2) this, of Tier_Minute]
  let ?b = "current_minute (te_now_bucket env)"
  let ?acc = "fold (\<lambda>((i, sc), c). hash_bump (?b, i, sc) c) polled (dr_acc d1)"
  have "distinct (map fst ?acc)"
    using ok unfolding acc_fold by (intro hash.ok_fold) (auto simp: drain_ok_def)
  moreover have "i \<in> identity_ids (st_db (dr_store d1))" if "(b, i, sc) \<in> fst ` set ?acc" for b i sc
  proof -
    have "(b, i, sc) \<in> fst ` set (dr_acc d1) \<or> (i, sc) \<in> fst ` set polled"
      using that unfolding acc_fold hash.keys_fold by force
    then show ?thesis using ok by (force simp: drain_ok_def polled_ok_def)
  qed
  then have "\<forall>k \<in> fst ` set ?acc. fst (snd k) \<in> identity_ids (st_db (dr_store d1))"
    by (intro ballI) (metis prod.collapse)
  ultimately show ?thesis
    using ok hub_ok_publish by (auto simp: drain_traffic_def Let_def run drain_ok_def polled_ok_def)
qed

lemma flush_each_ok:
  assumes "flush_each env keys d = (res, d')" "drain_ok n d"
  shows "drain_ok n d' \<and> dr_maps d' = dr_maps d \<and> dr_hub d' = dr_hub d"
  using assms
proof (induction keys arbitrary: d)
  case (Cons key keys)
  obtain b i sc where key: "key = (b, i, sc)" by (cases key)
  let ?c = "get_or_zero (dr_acc d) key" and ?d = "d\<lparr>dr_acc := AList.delete key (dr_acc d)\<rparr>"
  obtain r st where rec: "record_minute (te_minute_fails env key) b i (scope_str sc) (ingress ?c) (egress ?c) (dr_store d) = (r, st)"
    by force
  have ids: "identity_ids (st_db st) = identity_ids (st_db (dr_store d))"
    using rec by (auto elim!: record_minute_cases)
  have st: "store_ok st" using record_minute_ok [OF _ rec] Cons.prems(2) by (simp add: drain_ok_def)
  have d: "drain_ok n ?d"
    using Cons.prems(2) delete_subset [of key "dr_acc d"] by (fastforce simp: drain_ok_def distinct_delete)
  have d2: "drain_ok n (?d\<lparr>dr_store := st\<rparr>)"
    by (rule drain_ok_store [OF d st]) (simp add: ids)
  show ?case
  proof (cases r)
    case (Inl e)
    then show ?thesis using Cons.prems(1) rec d2 by (auto simp: key Let_def)
  next
    case (Inr u)
    then have "flush_each env keys (?d\<lparr>dr_store := st\<rparr>) = (res, d')"
      using Cons.prems(1) rec by (simp add: key Let_def)
    from Cons.IH [OF this d2] show ?thesis by simp
  qed
qed simp

lemma flush_ok:
  assumes "flush_closed_minutes env d = (res, d')" "drain_ok n d"
  shows "drain_ok n d' \<and> dr_maps d' = dr_maps d \<and> dr_hub d' = dr_hub d"
  using assms flush_each_ok by (fastforce simp: flush_closed_minutes_def Let_def split: if_splits)

lemma evict_ok: "drain_ok n d \<Longrightarrow> drain_ok n (evict env t d)"
  using delete_subset [of t "dr_cache d"] by (fastforce simp: drain_ok_def evict_def maps_ok_def)

lemma gc_ok: "drain_ok n d \<Longrightarrow> drain_ok n (gc_dead_tgids env d)"
proof -
  have "drain_ok n d \<Longrightarrow> drain_ok n (fold (evict env) ts d)" for ts
    by (induction ts arbitrary: d) (simp_all add: evict_ok)
  then show "drain_ok n d \<Longrightarrow> drain_ok n (gc_dead_tgids env d)" by (simp add: gc_dead_tgids_def)
qed

lemma tick_ok:
  assumes "drain_ok n d" "on_machine n env" "tick env d = (res, d')"
  shows "drain_ok n d'"
proof -
  have "drain_ok n (drain_traffic env (drain_new_pids env d))"
    by (rule drain_traffic_ok [OF drain_new_pids_ok [OF assms(1)] assms(2)])
  then show ?thesis
    using assms(3) flush_ok [of env "drain_traffic env (drain_new_pids env d)"] gc_ok
    by (fastforce simp: tick_def split: prod.splits sum.splits)
qed


section \<open>Nothing is lost\<close>

definition quiet :: "tick_env \<Rightarrow> bool" where
  "quiet env \<longleftrightarrow> (\<forall>k. te_race env k = []) \<and> (\<forall>t. \<not> te_upsert_fails env t)"

lemma traffic_total_delete:
  assumes "distinct (map fst t)" "map_of t k = Some cs"
  shows "traffic_total (AList.delete k t) + dir_counts (tk_dir k) (sum_list cs) = traffic_total t"
  using delete_total [OF assms, of "\<lambda>k cs. dir_counts (tk_dir k) (sum_list cs)"] by (simp add: traffic_total_def)

lemma table_total_delete:
  assumes "distinct (map fst t)"
  shows "table_total (AList.delete k t) + get_or_zero t k = table_total t"
proof (cases "map_of t k")
  case None
  then have "AList.delete k t = t" by (simp add: delete_id map_of_eq_None_iff)
  with None show ?thesis by (simp add: get_or_zero_def)
next
  case (Some c)
  then show ?thesis
    using delete_total [OF assms Some, of "\<lambda>_ c. c"] by (simp add: get_or_zero_def case_prod_unfold)
qed

lemma upsert_fact_total:
  assumes "distinct (map fst t)" "upsert_fact ids k c t = Inr t'"
  shows "table_total t' = table_total t + c"
proof (cases "map_of t k")
  case None
  then show ?thesis using assms(2) by (auto simp: upsert_fact_def split: if_splits)
next
  case (Some c0)
  then have t': "t' = AList.update k (c0 + c) t"
    using assms(2) by (auto simp: upsert_fact_def checked_add_def split: if_splits)
  have "table_total (AList.update k (c0 + c) t) + c0 = table_total t + c + c0"
    using update_total [OF assms(1) Some, of "\<lambda>_ c. c" "c0 + c"] by (simp add: case_prod_unfold ac_simps)
  then show ?thesis by (simp add: t')
qed

lemma minute_distinct: "store_ok st \<Longrightarrow> distinct (map fst (db_minute (st_db st)))"
  by (metis store_ok_def db_ok_def fact_ok_def tier_table.simps(4))

lemma record_minute_total:
  assumes "record_minute f b i sc ing eg st = (Inr (), st')" "store_ok st"
  shows "table_total (db_minute (st_db st')) = table_total (db_minute (st_db st)) + Counts ing eg"
  using assms(1)
proof (cases rule: record_minute_cases)
  case (stored t)
  then show ?thesis using upsert_fact_total [OF minute_distinct [OF assms(2)] stored(3)] by simp
qed simp

lemma drain_key_account:
  assumes "drain_key env key (polled, d) = (polled', d')" "quiet env" "distinct (map fst (TRAFFIC (dr_maps d)))"
  shows "table_total polled' + traffic_total (TRAFFIC (dr_maps d')) = table_total polled + traffic_total (TRAFFIC (dr_maps d))
    \<and> distinct (map fst (TRAFFIC (dr_maps d')))"
proof -
  have quiet: "trace (te_race env key) m = m" "\<not> te_upsert_fails env t" for m t
    using assms(2) by (simp_all add: quiet_def trace_def)
  have del: "cs = cs' \<Longrightarrow> map_of (TRAFFIC (dr_maps d)) key = Some cs \<Longrightarrow>
      traffic_total (AList.delete key (TRAFFIC (dr_maps d))) + dir_counts (tk_dir key) (sum_list cs')
      = traffic_total (TRAFFIC (dr_maps d))" for cs cs'
    using traffic_total_delete [OF assms(3)] by blast
  show ?thesis
    using assms(1)
  proof (cases rule: drain_key_cases)
    case (empty cs m)
    then show ?thesis using del [OF refl empty(1)] assms(3) by (simp add: quiet distinct_delete)
  next
    case (resolved cs m r d1)
    have "\<exists>i. r = Some i" using resolved(4) by (cases rule: resolve_cases) (simp_all add: quiet)
    then show ?thesis
      using del [OF refl resolved(1)] resolve_frame [OF resolved(4)] assms(3)
      by (auto simp: resolved(3,5,6) quiet hash.total_bump distinct_delete ac_simps)
  qed (use assms(3) in \<open>simp_all add: quiet\<close>)
qed

lemma drain_keys_account:
  assumes "fold (drain_key env) keys (polled, d) = (polled', d')" "quiet env" "distinct (map fst (TRAFFIC (dr_maps d)))"
  shows "table_total polled' + traffic_total (TRAFFIC (dr_maps d')) = table_total polled + traffic_total (TRAFFIC (dr_maps d))"
  using assms
proof (induction keys arbitrary: polled d)
  case (Cons key keys)
  obtain p1 d1 where k: "drain_key env key (polled, d) = (p1, d1)" by force
  from drain_key_account [OF k Cons.prems(2,3)] Cons.IH [of p1 d1] Cons.prems(1,2) k show ?case by simp
qed simp

lemma deltas_total: "sum_list (map (\<lambda>x. Counts (dl_ingress x) (dl_egress x)) (map delta_of polled)) = table_total polled"
  by (induction polled) (auto simp: delta_of_def)

lemma drain_traffic_account:
  assumes "drain_ok n d" "on_machine n env" "quiet env"
  shows "account (drain_traffic env d) = account d"
proof -
  let ?d0 = "d\<lparr>dr_last_drain := te_instant env\<rparr>"
  obtain polled d1 where run: "fold (drain_key env) (map fst (TRAFFIC (dr_maps d))) ([], ?d0) = (polled, d1)"
    by force
  have d0: "drain_ok n ?d0" "polled_ok [] ?d0" using assms(1) by (simp_all add: drain_ok_def polled_ok_def)
  have "distinct (map fst (TRAFFIC (dr_maps ?d0)))" using assms(1) by (simp add: drain_ok_def maps_ok_def)
  from drain_keys_account [OF run assms(3) this]
  have moved: "table_total polled + traffic_total (TRAFFIC (dr_maps d1)) = traffic_total (TRAFFIC (dr_maps d))" by simp
  let ?acc = "fold (\<lambda>((i, sc), c). hash_bump (current_minute (te_now_bucket env), i, sc) c) polled (dr_acc d1)"
  have "table_total ?acc = table_total (dr_acc d) + table_total polled"
    using drain_keys_ok [OF run d0(1) assms(2) d0(2), of Tier_Minute]
    unfolding acc_fold hash.total_fold by (simp add: case_prod_unfold comp_def)
  then show ?thesis
    using drain_keys_ok [OF run d0(1) assms(2) d0(2), of Tier_Minute]
    by (simp add: account_def drain_traffic_def Let_def run ac_simps flip: moved)
qed

lemma flush_each_account:
  assumes "flush_each env keys d = (Inr (), d')" "drain_ok n d"
  shows "account d' = account d"
  using assms
proof (induction keys arbitrary: d)
  case (Cons key keys)
  obtain b i sc where key: "key = (b, i, sc)" by (cases key)
  let ?c = "get_or_zero (dr_acc d) key" and ?d = "d\<lparr>dr_acc := AList.delete key (dr_acc d)\<rparr>"
  obtain st where rec: "record_minute (te_minute_fails env key) b i (scope_str sc) (ingress ?c) (egress ?c) (dr_store d) = (Inr (), st)"
    and rest: "flush_each env keys (?d\<lparr>dr_store := st\<rparr>) = (Inr (), d')"
    using Cons.prems(1) by (auto simp: key Let_def split: prod.splits sum.splits)
  have "flush_each env [key] d = (Inr (), ?d\<lparr>dr_store := st\<rparr>)" using rec by (simp add: key Let_def)
  from flush_each_ok [OF this Cons.prems(2)] have "account d' = account (?d\<lparr>dr_store := st\<rparr>)"
    using Cons.IH [OF rest] by blast
  moreover have "store_ok (dr_store d)" "distinct (map fst (dr_acc d))" using Cons.prems(2) by (simp_all add: drain_ok_def)
  ultimately show ?case
    using record_minute_total [OF rec] table_total_delete [of "dr_acc d" key]
    by (simp add: account_def ac_simps)
qed simp

lemma gc_account: "account (gc_dead_tgids env d) = account d"
proof -
  have "account (fold (evict env) ts d) = account d" for ts
    by (induction ts arbitrary: d) (simp_all add: account_def evict_def)
  then show ?thesis by (simp add: gc_dead_tgids_def)
qed

lemma tick_account:
  assumes "tick env d = (Inr (), d')" "drain_ok n d" "on_machine n env" "quiet env"
  shows "account d' = account d"
proof -
  let ?d1 = "drain_new_pids env d" and ?d2 = "drain_traffic env (drain_new_pids env d)"
  have ok1: "drain_ok n ?d1" by (rule drain_new_pids_ok [OF assms(2)])
  have ok2: "drain_ok n ?d2" by (rule drain_traffic_ok [OF ok1 assms(3)])
  obtain d3 where f: "flush_closed_minutes env ?d2 = (Inr (), d3)" "d' = gc_dead_tgids env d3"
    using assms(1) by (auto simp: tick_def split: prod.splits sum.splits)
  have "account d3 = account ?d2"
    using f(1) flush_each_account [OF _ ok2] by (auto simp: flush_closed_minutes_def Let_def split: if_splits)
  moreover have "account ?d1 = account d"
    using drain_new_pids_frame [of env d Tier_Minute] by (simp add: account_def Let_def)
  ultimately show ?thesis by (simp add: f(2) gc_account drain_traffic_account [OF ok1 assms(3,4)])
qed


section \<open>Properties\<close>

text \<open>Which passes of a run succeed, and what the hooks add during it.\<close>

fun run_ok :: "((hook \<times> call) list \<times> tick_env) list \<Rightarrow> drain \<Rightarrow> bool" where
  "run_ok [] d \<longleftrightarrow> True"
| "run_ok ((es, env) # rest) d \<longleftrightarrow>
     (let d = d\<lparr>dr_maps := trace es (dr_maps d)\<rparr>
      in fst (tick env d) = Inr () \<and> run_ok rest (snd (tick env d)))"

fun run_credited :: "((hook \<times> call) list \<times> tick_env) list \<Rightarrow> drain \<Rightarrow> counts" where
  "run_credited [] d = 0"
| "run_credited ((es, env) # rest) d =
     credited (dr_maps d) es + run_credited rest (snd (tick env (d\<lparr>dr_maps := trace es (dr_maps d)\<rparr>)))"

text \<open>C36. The collector keeps its invariant through every run, whatever fails and whatever the kernel does
  between its steps: the store and the hub stay well formed, the counter map keeps one entry per key
  with one counter per CPU, every cached and every accumulated identity exists in the store, and the
  accumulator has one entry per minute, identity and scope.\<close>

theorem collector_invariant:
  assumes "drain_ok n d" "\<forall>(es, env) \<in> set steps. (\<forall>e \<in> set es. on_cpus n e) \<and> on_machine n env"
  shows "drain_ok n (run steps d)"
  using assms
proof (induction steps arbitrary: d)
  case (Cons s steps)
  obtain es env where s: "s = (es, env)" by force
  have "drain_ok n (d\<lparr>dr_maps := trace es (dr_maps d)\<rparr>)"
    using Cons.prems by (intro drain_ok_maps) (auto simp: s drain_ok_def intro: maps_ok_trace)
  from tick_ok [OF this, of env] Cons.prems Cons.IH show ?case
    by (simp add: s prod_eq_iff)
qed simp

text \<open>C3. Bytes are conserved from the kernel to the database: over any run in which no statement fails and no
  hook fires between the read and the removal of the same poll, what the counters, the accumulator and
  the minute table hold together grows by exactly the bytes the hooks add (those the maps accept, as the hooks read them), column by
  column at the counters' width.\<close>

theorem collector_conserves:
  assumes "drain_ok n d" "\<forall>(es, env) \<in> set steps. (\<forall>e \<in> set es. on_cpus n e) \<and> quiet env" "run_ok steps d"
  shows "account (run steps d) = account d + run_credited steps d"
  using assms
proof (induction steps arbitrary: d)
  case (Cons s steps)
  obtain es env where s: "s = (es, env)" by force
  let ?d = "d\<lparr>dr_maps := trace es (dr_maps d)\<rparr>"
  obtain d' where t: "tick env ?d = (Inr (), d')" using Cons.prems(3) by (cases "tick env ?d") (simp add: s Let_def)
  have es: "\<forall>e \<in> set es. on_cpus n e" and env: "quiet env" "on_machine n env"
    using Cons.prems(2) by (auto simp: s quiet_def on_machine_def)
  have m: "maps_ok n (dr_maps d)" using Cons.prems(1) by (simp add: drain_ok_def)
  have ok: "drain_ok n ?d" using Cons.prems(1) maps_ok_trace [OF m es] by (rule drain_ok_maps)
  have "account (run steps d') = account d' + run_credited steps d'"
    using Cons.IH [OF tick_ok [OF ok env(2) t]] Cons.prems(2,3) t by (simp add: s Let_def)
  moreover have "account d' = account ?d" by (rule tick_account [OF t ok env(2,1)])
  moreover have "account ?d = account d + credited (dr_maps d) es"
    using trace_total [OF m es] by (simp add: account_def ac_simps)
  ultimately show ?case using t by (simp add: s ac_simps)
qed simp

definition calm_tick :: "i64 \<Rightarrow> tick_env" where
  "calm_tick now = \<lparr>
     te_fs = \<lparr>fs_exists = (\<lambda>_. False), fs_passwd = None\<rparr>,
     te_proc = (\<lambda>_. \<lparr>pd_exe = None, pd_cwd = None, pd_comm = None, pd_cmdline = None, pd_status = None, pd_cgroup = None\<rparr>),
     te_alive = (\<lambda>_. True), te_instant = now * 10 ^ 9, te_now_bucket = now, te_now_publish = now,
     te_now_flush = now, te_now_upsert = now, te_get_ok = (\<lambda>_. True), te_remove_ok = (\<lambda>_. True),
     te_race = (\<lambda>_. []), te_upsert_fails = (\<lambda>_. False), te_minute_fails = (\<lambda>_. False),
     te_evict_ok = (\<lambda>_. True)\<rparr>"

definition demo_drain :: drain where
  "demo_drain = drain_new demo_store default_hub 0 empty_maps"

lemma demo_drain_ok: "drain_ok 2 demo_drain"
  using demo_store_ok
  by (simp add: drain_ok_def demo_drain_def drain_new_def hub_ok_default maps_ok_def empty_maps_def)

definition demo_steps :: "((hook \<times> call) list \<times> tick_env) list" where
  "demo_steps = [([(Tcp_sendmsg, demo_call 0 5 100), (Udp_recvmsg, demo_call 1 6 11)], calm_tick 1783337400),
     ([(Tcp_sendmsg, demo_call 1 5 40)], calm_tick 1783337461)]"

lemma demo_steps_fine:
  "\<forall>(es, env) \<in> set demo_steps. (\<forall>e \<in> set es. on_cpus 2 e) \<and> quiet env \<and> on_machine 2 env"
  by (simp add: demo_steps_def quiet_def on_machine_def calm_tick_def on_cpus_def demo_call_def)

lemma collector_invariant_witness: "drain_ok 2 (run demo_steps demo_drain)"
  by (rule collector_invariant [OF demo_drain_ok]) (use demo_steps_fine in auto)

lemma collector_conserves_witness:
  "account (run demo_steps demo_drain) = account demo_drain + run_credited demo_steps demo_drain
    \<and> table_total (db_minute (st_db (dr_store (run demo_steps demo_drain)))) = Counts 11 100"
proof -
  have "run_ok demo_steps demo_drain" by code_simp
  moreover have "table_total (db_minute (st_db (dr_store (run demo_steps demo_drain)))) = Counts 11 100" by code_simp
  ultimately show ?thesis
    using collector_conserves [OF demo_drain_ok, of demo_steps] demo_steps_fine by auto
qed


section \<open>Flushing\<close>

definition cell_of :: "acc_key \<Rightarrow> fact_key" where
  "cell_of = (\<lambda>(b, i, sc). (stamp b, i, scope_str sc))"

lemma sum_where_delete:
  fixes f :: "'v \<Rightarrow> int"
  assumes "distinct (map fst t)" "map_of t k = Some c"
  shows "sum_where P f (AList.delete k t) + (if P k then f c else 0) = sum_where P f t"
  using assms
proof (induction t)
  case (Cons p t)
  have "AList.delete k t = t" if "k \<notin> fst ` set t" using that by (simp add: delete_id)
  then show ?case using Cons by (cases p) (auto simp: ac_simps)
qed simp

lemma flush_each_sum:
  assumes "flush_each env keys d = (Inr (), d')" "drain_ok n d" "distinct keys" "set keys \<subseteq> fst ` set (dr_acc d)"
  shows "dr_acc d' = filter (\<lambda>(k, _). k \<notin> set keys) (dr_acc d) \<and>
    sum_where P (column dir) (db_minute (st_db (dr_store d')))
    = sum_where P (column dir) (db_minute (st_db (dr_store d)))
      + sum_where (\<lambda>k. k \<in> set keys \<and> P (cell_of k)) (column dir) (dr_acc d)"
  using assms
proof (induction keys arbitrary: d)
  case Nil
  then show ?case by (simp add: sum_where_def case_prod_unfold)
next
  case (Cons key keys)
  obtain b i sc where key: "key = (b, i, sc)" by (cases key)
  let ?c = "get_or_zero (dr_acc d) key" and ?d = "d\<lparr>dr_acc := AList.delete key (dr_acc d)\<rparr>"
  obtain st where rec: "record_minute (te_minute_fails env key) b i (scope_str sc) (ingress ?c) (egress ?c) (dr_store d) = (Inr (), st)"
    and rest: "flush_each env keys (?d\<lparr>dr_store := st\<rparr>) = (Inr (), d')"
    using Cons.prems(1) by (auto simp: key Let_def split: prod.splits sum.splits)
  have one: "flush_each env [key] d = (Inr (), ?d\<lparr>dr_store := st\<rparr>)" using rec by (simp add: key Let_def)
  have acc: "distinct (map fst (dr_acc d))" using Cons.prems(2) by (simp add: drain_ok_def)
  have del: "AList.delete key (dr_acc d) = filter (\<lambda>(k, _). k \<noteq> key) (dr_acc d)"
    unfolding AList.delete_eq by (rule filter_cong) auto
  obtain c where c: "map_of (dr_acc d) key = Some c"
    using Cons.prems(4) by (metis domD dom_map_of_conv_image_fst list.set_intros(1) subsetD)
  have "set keys \<subseteq> fst ` set (AList.delete key (dr_acc d))"
    using Cons.prems(3,4) by (force simp: del)
  then have IH: "dr_acc d' = filter (\<lambda>(k, _). k \<notin> set keys) (AList.delete key (dr_acc d)) \<and>
    sum_where P (column dir) (db_minute (st_db (dr_store d')))
    = sum_where P (column dir) (db_minute (st_db st))
      + sum_where (\<lambda>k. k \<in> set keys \<and> P (cell_of k)) (column dir) (AList.delete key (dr_acc d))"
    using Cons.IH [OF rest] flush_each_ok [OF one Cons.prems(2)] Cons.prems(3) by simp
  have t: "fact_ok (identity_ids (st_db (dr_store d))) (db_minute (st_db (dr_store d)))"
    using Cons.prems(2) by (metis drain_ok_def store_ok_def db_ok_def tier_table.simps(4))
  have "sum_where P (column dir) (db_minute (st_db st)) = sum_where P (column dir) (db_minute (st_db (dr_store d)))
      + (if P (cell_of key) then column dir c else 0)"
    using rec
  proof (cases rule: record_minute_cases)
    case (stored u)
    show ?thesis
      using upsert_fact_sum [OF t stored(3), of P dir] c by (simp add: stored(4) key cell_of_def get_or_zero_def)
  qed simp
  moreover have "sum_where (\<lambda>k. k \<in> set keys \<and> P (cell_of k)) (column dir) (AList.delete key (dr_acc d))
      + (if P (cell_of key) then column dir c else 0)
      = sum_where (\<lambda>k. k \<in> set (key # keys) \<and> P (cell_of k)) (column dir) (dr_acc d)"
  proof -
    have "sum_where (\<lambda>k. k \<in> set keys \<and> P (cell_of k)) (column dir) (AList.delete key (dr_acc d))
        = sum_where (\<lambda>k. k \<in> set (key # keys) \<and> P (cell_of k)) (column dir) (AList.delete key (dr_acc d))"
      by (rule sum_where_cong) (auto simp: del)
    then show ?thesis
      using sum_where_delete [OF acc c, of "\<lambda>k. k \<in> set (key # keys) \<and> P (cell_of k)" "column dir"] by simp
  qed
  ultimately show ?case
    using IH by (auto simp: del case_prod_unfold conj_commute)
qed

lemma flush_closed_sums:
  assumes "flush_closed_minutes env d = (Inr (), d')" "drain_ok n d"
  shows "dr_acc d' = filter (\<lambda>((b, _), _). current_minute (te_now_flush env) \<le> b) (dr_acc d) \<and>
    sum_where P (column dir) (db_minute (st_db (dr_store d')))
    = sum_where P (column dir) (db_minute (st_db (dr_store d)))
      + sum_where (\<lambda>k. fst k < current_minute (te_now_flush env) \<and> P (cell_of k)) (column dir) (dr_acc d)"
proof -
  let ?o = "current_minute (te_now_flush env)"
  let ?keys = "filter (\<lambda>(b, _). b < ?o) (map fst (dr_acc d))"
  have mem: "k \<in> set ?keys \<longleftrightarrow> fst k < ?o" if "(k, c) \<in> set (dr_acc d)" for k c
    using that by (force simp: case_prod_unfold)
  have "distinct ?keys" using assms(2) by (simp add: drain_ok_def)
  moreover have "flush_each env ?keys d = (Inr (), d')"
    using assms(1) by (auto simp: flush_closed_minutes_def Let_def split: if_splits)
  ultimately have sums: "dr_acc d' = filter (\<lambda>(k, _). k \<notin> set ?keys) (dr_acc d) \<and>
    sum_where P (column dir) (db_minute (st_db (dr_store d')))
    = sum_where P (column dir) (db_minute (st_db (dr_store d)))
      + sum_where (\<lambda>k. k \<in> set ?keys \<and> P (cell_of k)) (column dir) (dr_acc d)"
    by (intro flush_each_sum [OF _ assms(2)]) auto
  have "fst p \<notin> set ?keys \<longleftrightarrow> ?o \<le> fst (fst p)" if "p \<in> set (dr_acc d)" for p
    using mem [of "fst p" "snd p"] that by (simp add: not_less)
  then have "filter (\<lambda>(k, _). k \<notin> set ?keys) (dr_acc d) = filter (\<lambda>((b, _), _). ?o \<le> b) (dr_acc d)"
    unfolding case_prod_unfold by (rule filter_cong [OF refl])
  moreover have "sum_where (\<lambda>k. k \<in> set ?keys \<and> P (cell_of k)) (column dir) (dr_acc d)
      = sum_where (\<lambda>k. fst k < ?o \<and> P (cell_of k)) (column dir) (dr_acc d)"
    by (rule sum_where_cong) (force simp: case_prod_unfold)
  ultimately show ?thesis using sums by simp
qed

text \<open>A flush moves closed minutes exactly once: when it succeeds, every sum over the minute table has
  grown by exactly the accumulated bytes of the closed minutes in the selected cells, without wrapping,
  and the accumulator keeps precisely the entries of the open minute and later.\<close>

theorem flush_moves_closed_minutes:
  assumes "flush_closed_minutes env d = (Inr (), d')" "drain_ok n d"
  shows "dr_acc d' = filter (\<lambda>((b, _), _). current_minute (te_now_flush env) \<le> b) (dr_acc d) \<and>
    sum_where P (column dir) (db_minute (st_db (dr_store d')))
    = sum_where P (column dir) (db_minute (st_db (dr_store d)))
      + sum_where (\<lambda>k. fst k < current_minute (te_now_flush env) \<and> P (cell_of k)) (column dir) (dr_acc d)"
  by (rule flush_closed_sums [OF assms])

lemma flush_moves_closed_minutes_witness:
  "let d = demo_drain\<lparr>dr_acc := [((1783337400, 1, 1), Counts 5 6), ((1783337460, 1, 0), Counts 7 8)]\<rparr>
   in dr_acc (snd (flush_closed_minutes (calm_tick 1783337465) d)) = [((1783337460, 1, 0), Counts 7 8)]"
proof -
  let ?d = "demo_drain\<lparr>dr_acc := [((1783337400, 1, 1), Counts 5 6), ((1783337460, 1, 0), Counts 7 8)]\<rparr>"
  have "fst (flush_closed_minutes (calm_tick 1783337465) ?d) = Inr ()" by code_simp
  then have run: "flush_closed_minutes (calm_tick 1783337465) ?d = (Inr (), snd (flush_closed_minutes (calm_tick 1783337465) ?d))"
    by (simp add: prod_eq_iff)
  have "drain_ok 2 ?d"
    using demo_drain_ok by (simp add: drain_ok_def) (simp add: demo_drain_def drain_new_def demo_store_def identity_ids_def)
  from flush_moves_closed_minutes [OF run this] show ?thesis
    by (simp add: current_minute_def calm_tick_def)
qed


section \<open>Where bytes can be lost\<close>

text \<open>
  Bytes the kernel counts between the read and the removal of a key are in no account afterwards: the
  removal takes the whole entry, and what was read is what is folded in.
\<close>

lemma raced_bytes_vanish:
  "let es = [(Tcp_sendmsg, demo_call 0 5 100)];
       env = (calm_tick 1783337400)\<lparr>te_race := (\<lambda>_. [(Tcp_sendmsg, demo_call 1 5 9)])\<rparr>;
       d = demo_drain\<lparr>dr_maps := trace es (dr_maps demo_drain)\<rparr>
   in account d = Counts 0 100 \<and> credited (dr_maps d) [(Tcp_sendmsg, demo_call 1 5 9)] = Counts 0 9
    \<and> account (drain_traffic env d) = Counts 0 100"
  by code_simp

text \<open>An upsert that fails after the removal loses what was read.\<close>

lemma failed_upsert_loses_bytes:
  "let d = demo_drain\<lparr>dr_maps := trace [(Tcp_sendmsg, demo_call 0 5 100)] (dr_maps demo_drain)\<rparr>
   in account d = Counts 0 100
    \<and> account (drain_traffic ((calm_tick 1783337400)\<lparr>te_upsert_fails := (\<lambda>_. True)\<rparr>) d) = 0"
  by code_simp

text \<open>A flush that fails has already taken the entry out of the accumulator.\<close>

lemma failed_flush_loses_minute:
  "let d = demo_drain\<lparr>dr_acc := [((1783337400, 1, 1), Counts 5 6)]\<rparr>;
       env = (calm_tick 1783337465)\<lparr>te_minute_fails := (\<lambda>_. True)\<rparr>
   in fst (flush_closed_minutes env d) = Inl Db_Fault \<and> account d = Counts 5 6
    \<and> account (snd (flush_closed_minutes env d)) = 0"
  by code_simp

end
