(* ===== verification/Collector_Live.thy ===== *)
theory Collector_Live
  imports Collector_Props
begin

text \<open>
  What the collector is for: every byte the kernel has counted is in the minute table a minute later. A pass
  that reads and removes every counter leaves the counter map empty, and the first pass of a later minute
  flushes what the earlier ones accumulated.
\<close>

section \<open>A pass empties the counters\<close>

definition reads_all :: "tick_env \<Rightarrow> bool" where
  "reads_all env \<longleftrightarrow> quiet env \<and> (\<forall>k. te_get_ok env k \<and> te_remove_ok env k)"

lemma quiet_on_machine: "quiet env \<Longrightarrow> on_machine n env"
  by (simp add: quiet_def on_machine_def)

lemma delete_keys: "fst ` set (AList.delete k t) = fst ` set t - {k}"
  by (induction t) auto

lemma drain_key_keys:
  assumes "drain_key env key (polled, d) = (polled', d')" "reads_all env"
  shows "fst ` set (TRAFFIC (dr_maps d')) = fst ` set (TRAFFIC (dr_maps d)) - {key}"
proof (cases "map_of (TRAFFIC (dr_maps d)) key")
  case None
  then have "key \<notin> fst ` set (TRAFFIC (dr_maps d))" by (simp add: map_of_eq_None_iff)
  moreover have "d' = d" using assms(1) None by (simp add: drain_key_def split: if_splits)
  ultimately show ?thesis by simp
next
  case (Some cs)
  have quiet: "trace (te_race env key) m = m" "te_get_ok env key" "te_remove_ok env key" for m
    using assms(2) by (simp_all add: reads_all_def quiet_def trace_def)
  have "TRAFFIC (dr_maps d') = AList.delete key (TRAFFIC (dr_maps d))"
    using assms(1) resolve_frame
    by (fastforce simp: drain_key_def Some quiet Let_def split: if_splits prod.splits option.splits)
  then show ?thesis by (simp only: delete_keys)
qed

lemma drain_keys_keys:
  assumes "fold (drain_key env) keys (polled, d) = (polled', d')" "reads_all env"
  shows "fst ` set (TRAFFIC (dr_maps d')) = fst ` set (TRAFFIC (dr_maps d)) - set keys"
  using assms(1)
proof (induction keys arbitrary: polled d)
  case (Cons key keys)
  obtain p1 d1 where k: "drain_key env key (polled, d) = (p1, d1)" by force
  from Cons.IH [of p1 d1] Cons.prems k drain_key_keys [OF k assms(2)] show ?case by auto
qed simp

lemma drain_traffic_empties:
  assumes "reads_all env"
  shows "TRAFFIC (dr_maps (drain_traffic env d)) = []"
proof -
  obtain polled d1 where run: "fold (drain_key env) (map fst (TRAFFIC (dr_maps d))) ([], d\<lparr>dr_last_drain := te_instant env\<rparr>) = (polled, d1)"
    by force
  from drain_keys_keys [OF run assms] have "TRAFFIC (dr_maps d1) = []" by simp
  then show ?thesis by (simp add: drain_traffic_def Let_def run)
qed

lemma drain_traffic_buckets:
  assumes "drain_ok n d" "quiet env"
  shows "fst ` fst ` set (dr_acc (drain_traffic env d)) \<subseteq> insert (current_minute (te_now_bucket env)) (fst ` fst ` set (dr_acc d))"
proof -
  let ?d0 = "d\<lparr>dr_last_drain := te_instant env\<rparr>"
  obtain polled d1 where run: "fold (drain_key env) (map fst (TRAFFIC (dr_maps d))) ([], ?d0) = (polled, d1)" by force
  have "drain_ok n ?d0" "polled_ok [] ?d0" using assms(1) by (simp_all add: drain_ok_def polled_ok_def)
  from drain_keys_ok [OF run this(1) quiet_on_machine [OF assms(2)] this(2)]
  have "dr_acc d1 = dr_acc d" by simp
  then have "dr_acc (drain_traffic env d) = fold (\<lambda>(k, c). hash_bump k c)
      (map (\<lambda>((i, sc), c). ((current_minute (te_now_bucket env), i, sc), c)) polled) (dr_acc d)"
    by (simp add: drain_traffic_def Let_def run acc_fold)
  then have "fst ` set (dr_acc (drain_traffic env d)) = fst ` set (dr_acc d)
      \<union> fst ` set (map (\<lambda>((i, sc), c). ((current_minute (te_now_bucket env), i, sc), c)) polled)"
    by (simp only: hash.keys_fold)
  then show ?thesis by (auto simp: image_Un image_image split: prod.splits)
qed

lemma drain_traffic_idle:
  "TRAFFIC (dr_maps d) = [] \<Longrightarrow> dr_acc (drain_traffic env d) = dr_acc d"
  by (simp add: drain_traffic_def Let_def)

lemma flush_each_maps: "dr_maps (snd (flush_each env keys d)) = dr_maps d"
  by (induction env keys d rule: flush_each.induct) (auto simp: Let_def split: prod.splits sum.splits)

lemma gc_frame:
  "TRAFFIC (dr_maps (gc_dead_tgids env d)) = TRAFFIC (dr_maps d) \<and> dr_acc (gc_dead_tgids env d) = dr_acc d"
proof -
  have "TRAFFIC (dr_maps (fold (evict env) ts d)) = TRAFFIC (dr_maps d) \<and> dr_acc (fold (evict env) ts d) = dr_acc d" for ts
    by (induction ts arbitrary: d) (simp_all add: evict_def)
  then show ?thesis by (simp add: gc_dead_tgids_def)
qed

text \<open>A pass that succeeds: the state the drain leaves, then the flush.\<close>

lemma tick_stages:
  assumes "tick env d = (Inr (), d')" "drain_ok n d" "quiet env"
  shows "TRAFFIC (dr_maps d') = TRAFFIC (dr_maps (drain_traffic env (drain_new_pids env d))) \<and>
    dr_acc d' = filter (\<lambda>((b, _), _). current_minute (te_now_flush env) \<le> b) (dr_acc (drain_traffic env (drain_new_pids env d)))"
proof -
  let ?d2 = "drain_traffic env (drain_new_pids env d)"
  have ok: "drain_ok n ?d2" by (rule drain_traffic_ok [OF drain_new_pids_ok [OF assms(2)] quiet_on_machine [OF assms(3)]])
  obtain d3 where f: "flush_closed_minutes env ?d2 = (Inr (), d3)" "d' = gc_dead_tgids env d3"
    using assms(1) by (auto simp: tick_def split: prod.splits sum.splits)
  have "dr_maps d3 = dr_maps ?d2"
    using f(1) flush_each_maps by (auto simp: flush_closed_minutes_def Let_def split: if_splits) (metis snd_conv)
  with flush_closed_sums [OF f(1) ok] show ?thesis by (simp add: f(2) gc_frame)
qed


section \<open>Delivery\<close>

text \<open>C5. Traffic reaches the store: when two passes succeed that read and remove every counter, no hook
  firing between them, and the second is in a later minute than the first and than anything still
  accumulated, then the counter map and the accumulator are empty afterwards and the minute table holds
  every byte that counters, accumulator and minute table held before the first pass.\<close>

theorem traffic_reaches_the_store:
  assumes "drain_ok n d" "reads_all env1" "reads_all env2"
    and "tick env1 d = (Inr (), d1)" "tick env2 d1 = (Inr (), d2)"
    and "current_minute (te_now_bucket env1) < current_minute (te_now_flush env2)"
    and "\<forall>b \<in> fst ` fst ` set (dr_acc d). b < current_minute (te_now_flush env2)"
  shows "TRAFFIC (dr_maps d2) = [] \<and> dr_acc d2 = [] \<and> table_total (db_minute (st_db (dr_store d2))) = account d"
proof -
  let ?M = "current_minute (te_now_flush env2)"
  have quiet: "quiet env1" "quiet env2" using assms(2,3) by (simp_all add: reads_all_def)
  note machine = quiet_on_machine [OF quiet(1)] quiet_on_machine [OF quiet(2)]
  have ok1: "drain_ok n d1" by (rule tick_ok [OF assms(1) machine(1) assms(4)])
  have frame: "dr_maps (drain_new_pids env d) = (dr_maps d)\<lparr>NEW_PIDS := []\<rparr>" "dr_acc (drain_new_pids env d) = dr_acc d" for env d
    using drain_new_pids_frame [of env d Tier_Minute] by (simp_all add: Let_def)
  have first: "TRAFFIC (dr_maps d1) = []" "\<forall>b \<in> fst ` fst ` set (dr_acc d1). b < ?M"
  proof -
    note stages = tick_stages [OF assms(4,1) quiet(1)]
    show "TRAFFIC (dr_maps d1) = []" using stages drain_traffic_empties [OF assms(2)] by simp
    have "set (dr_acc d1) \<subseteq> set (dr_acc (drain_traffic env1 (drain_new_pids env1 d)))"
      by (subst conjunct2 [OF stages]) simp
    then have "fst ` fst ` set (dr_acc d1) \<subseteq> fst ` fst ` set (dr_acc (drain_traffic env1 (drain_new_pids env1 d)))"
      by (intro image_mono)
    also have "\<dots> \<subseteq> insert (current_minute (te_now_bucket env1)) (fst ` fst ` set (dr_acc d))"
      using drain_traffic_buckets [OF drain_new_pids_ok [OF assms(1)] quiet(1)] by (simp add: frame)
    finally have sub: "fst ` fst ` set (dr_acc d1) \<subseteq> insert (current_minute (te_now_bucket env1)) (fst ` fst ` set (dr_acc d))" .
    show "\<forall>b \<in> fst ` fst ` set (dr_acc d1). b < ?M"
    proof
      fix b
      assume "b \<in> fst ` fst ` set (dr_acc d1)"
      from subsetD [OF sub this] show "b < ?M"
        by (elim insertE) (simp only: assms(6), rule bspec [OF assms(7)])
    qed
  qed
  note stages = tick_stages [OF assms(5) ok1 quiet(2)]
  have "TRAFFIC (dr_maps d2) = []" using stages drain_traffic_empties [OF assms(3)] by simp
  moreover have "dr_acc (drain_traffic env2 (drain_new_pids env2 d1)) = dr_acc d1"
    using first(1) by (simp add: drain_traffic_idle frame)
  then have "dr_acc d2 = []"
    using stages first(2) by (simp add: filter_empty_conv not_le case_prod_unfold)
  moreover have "account d2 = account d"
    using tick_account [OF assms(4,1) machine(1) quiet(1)] tick_account [OF assms(5) ok1 machine(2) quiet(2)] by simp
  ultimately show ?thesis by (simp add: account_def traffic_total_def)
qed

lemma traffic_reaches_the_store_witness:
  "\<exists>d1 d2. tick (calm_tick 1783337400) (demo_drain\<lparr>dr_maps := trace [(Tcp_sendmsg, demo_call 0 5 100)] (dr_maps demo_drain)\<rparr>) = (Inr (), d1) \<and>
     tick (calm_tick 1783337461) d1 = (Inr (), d2) \<and> table_total (db_minute (st_db (dr_store d2))) = Counts 0 100"
proof -
  let ?es = "[(Tcp_sendmsg, demo_call 0 5 100)]"
  let ?d = "demo_drain\<lparr>dr_maps := trace ?es (dr_maps demo_drain)\<rparr>"
  have all: "reads_all (calm_tick t)" for t by (simp add: reads_all_def quiet_def calm_tick_def)
  have "maps_ok 2 (trace ?es (dr_maps demo_drain))"
    using demo_drain_ok by (intro maps_ok_trace) (simp_all add: drain_ok_def on_cpus_def demo_call_def)
  then have ok: "drain_ok 2 ?d" by (rule drain_ok_maps [OF demo_drain_ok])
  have runs: "fst (tick (calm_tick 1783337400) ?d) = Inr ()"
    "fst (tick (calm_tick 1783337461) (snd (tick (calm_tick 1783337400) ?d))) = Inr ()" by code_simp+
  obtain d1 where t1: "tick (calm_tick 1783337400) ?d = (Inr (), d1)" using runs(1) by (metis prod.collapse)
  obtain d2 where t2: "tick (calm_tick 1783337461) d1 = (Inr (), d2)" using runs(2) t1 by (metis prod.collapse snd_conv)
  have later: "current_minute (te_now_bucket (calm_tick 1783337400)) < current_minute (te_now_flush (calm_tick 1783337461))"
    by (simp add: calm_tick_def current_minute_def)
  have "\<forall>b \<in> fst ` fst ` set (dr_acc ?d). b < current_minute (te_now_flush (calm_tick 1783337461))"
    by (simp add: demo_drain_def drain_new_def)
  from traffic_reaches_the_store [OF ok all all t1 t2 later this]
  have "table_total (db_minute (st_db (dr_store d2))) = account ?d" by blast
  also have "\<dots> = Counts 0 100" by code_simp
  finally show ?thesis using t1 t2 by blast
qed

end
