(* ===== verification/Collector_Steps.thy ===== *)
theory Collector_Steps
  imports Collector_Props
begin

text \<open>
  The collector's pass (\<open>procflowd/src/collector.rs\<close>) step by step, for running it beside the daemon's other
  threads. The thread takes the store's lock once for every upsert and once for the flush, and the hub's once
  to publish; a step takes at most one lock, and everything else may happen between two steps. What the pass
  keeps in its local variables meanwhile is its phase.
\<close>

section \<open>Steps of a pass\<close>

text \<open>The locals of \<open>drain_traffic\<close>: the open minute, the span of the poll, the keys still to read, the sums.\<close>

record poll =
  po_bucket :: i64
  po_interval :: int
  po_keys :: "traffic_key list"
  po_polled :: polled

datatype phase =
    Asleep
  | Enrich "u32 list"
  | Enrich_Upsert u32 identity_record "u32 list"
  | Poll poll
  | Remove traffic_key u64 poll
  | Account traffic_key u64 poll
  | Account_Upsert traffic_key u64 identity_record poll
  | Publish int "delta list"
  | Flush
  | Collect
  | Sweep "u32 list"
  | Crashed

definition bump_polled :: "i64 \<Rightarrow> traffic_key \<Rightarrow> u64 \<Rightarrow> poll \<Rightarrow> poll" where
  "bump_polled i key bytes p =
     p\<lparr>po_polled := hash_bump (i, tk_scope key) (dir_counts (tk_dir key) bytes) (po_polled p)\<rparr>"

text \<open>The upsert of \<open>resolve\<close> under the lock, and the cache entry.\<close>

definition upsert_step :: "tick_env \<Rightarrow> u32 \<Rightarrow> identity_record \<Rightarrow> drain \<Rightarrow> i64 option \<times> drain" where
  "upsert_step env tgid r d =
     (case upsert_identity (te_upsert_fails env tgid) (te_now_upsert env) r (dr_store d) of
        (Inr i, st) \<Rightarrow> (Some i, d\<lparr>dr_store := st, dr_cache := AList.update tgid i (dr_cache d)\<rparr>)
      | (Inl _, st) \<Rightarrow> (None, d\<lparr>dr_store := st\<rparr>))"

text \<open>One step; \<open>poisoned\<close> says that another thread panicked holding the store, so that \<open>lock\<close> panics here.\<close>

fun pass_step :: "tick_env \<Rightarrow> bool \<Rightarrow> phase \<times> drain \<Rightarrow> phase \<times> drain" where
  "pass_step env poisoned (Asleep, d) =
     (Enrich (fresh_tgids (NEW_PIDS (dr_maps d))), d\<lparr>dr_maps := (dr_maps d)\<lparr>NEW_PIDS := []\<rparr>\<rparr>)"
| "pass_step env poisoned (Enrich (tgid # rest), d) =
     (case map_of (dr_cache d) tgid of
        Some _ \<Rightarrow> (Enrich rest, d)
      | None \<Rightarrow> (Enrich_Upsert tgid (record_for env tgid (dr_maps d)) rest, d))"
| "pass_step env poisoned (Enrich_Upsert tgid r rest, d) =
     (if poisoned then (Crashed, d) else (Enrich rest, snd (upsert_step env tgid r d)))"
| "pass_step env poisoned (Enrich [], d) =
     (Poll \<lparr>po_bucket = current_minute (te_now_bucket env), po_interval = te_instant env - dr_last_drain d,
            po_keys = map fst (TRAFFIC (dr_maps d)), po_polled = []\<rparr>, d\<lparr>dr_last_drain := te_instant env\<rparr>)"
| "pass_step env poisoned (Poll p, d) =
     (case po_keys p of
        [] \<Rightarrow>
          (Publish (po_interval p) (map delta_of (po_polled p)),
           d\<lparr>dr_acc := fold (\<lambda>((i, sc), c). hash_bump (po_bucket p, i, sc) c) (po_polled p) (dr_acc d)\<rparr>)
      | key # keys \<Rightarrow>
          (case (if te_get_ok env key then map_of (TRAFFIC (dr_maps d)) key else None) of
             None \<Rightarrow> (Poll (p\<lparr>po_keys := keys\<rparr>), d)
           | Some per_cpu \<Rightarrow> (Remove key (sum_list per_cpu) (p\<lparr>po_keys := keys\<rparr>), d)))"
| "pass_step env poisoned (Remove key bytes p, d) =
     (if \<not> te_remove_ok env key then (Poll p, d)
      else (if bytes = 0 then Poll p else Account key bytes p,
            d\<lparr>dr_maps := (dr_maps d)\<lparr>TRAFFIC := AList.delete key (TRAFFIC (dr_maps d))\<rparr>\<rparr>))"
| "pass_step env poisoned (Account key bytes p, d) =
     (case map_of (dr_cache d) (tk_tgid key) of
        Some i \<Rightarrow> (Poll (bump_polled i key bytes p), d)
      | None \<Rightarrow> (Account_Upsert key bytes (record_for env (tk_tgid key) (dr_maps d)) p, d))"
| "pass_step env poisoned (Account_Upsert key bytes r p, d) =
     (if poisoned then (Crashed, d)
      else case upsert_step env (tk_tgid key) r d of
             (None, d) \<Rightarrow> (Poll p, d)
           | (Some i, d) \<Rightarrow> (Poll (bump_polled i key bytes p), d))"
| "pass_step env poisoned (Publish interval deltas, d) =
     (Flush, d\<lparr>dr_hub := publish \<lparr>tk_at_unix_ms = te_now_publish env * 1000,
                  tk_interval_ms = of_int (interval div 10 ^ 6), tk_deltas = deltas\<rparr> (dr_hub d)\<rparr>)"
| "pass_step env poisoned (Flush, d) =
     (if poisoned \<and> list_ex (\<lambda>(b, _). b < current_minute (te_now_flush env)) (map fst (dr_acc d)) then (Crashed, d)
      else case flush_closed_minutes env d of
             (Inl _, d) \<Rightarrow> (Asleep, d)
           | (Inr _, d) \<Rightarrow> (Collect, d))"
| "pass_step env poisoned (Collect, d) =
     (Sweep (filter (\<lambda>tgid. \<not> te_alive env tgid) (map fst (PID_META (dr_maps d)))), d)"
| "pass_step env poisoned (Sweep (tgid # rest), d) = (Sweep rest, evict env tgid d)"
| "pass_step env poisoned (Sweep [], d) = (Asleep, d)"
| "pass_step env poisoned (Crashed, d) = (Crashed, d)"


section \<open>The steps keep the collector sound\<close>

text \<open>The sums of an unfinished poll name existing identities.\<close>

fun phase_ok :: "phase \<Rightarrow> drain \<Rightarrow> bool" where
  "phase_ok (Poll p) d \<longleftrightarrow> polled_ok (po_polled p) d"
| "phase_ok (Remove _ _ p) d \<longleftrightarrow> polled_ok (po_polled p) d"
| "phase_ok (Account _ _ p) d \<longleftrightarrow> polled_ok (po_polled p) d"
| "phase_ok (Account_Upsert _ _ _ p) d \<longleftrightarrow> polled_ok (po_polled p) d"
| "phase_ok _ d \<longleftrightarrow> True"

lemma phase_ok_mono:
  assumes "phase_ok ph d" "identity_ids (st_db (dr_store d)) \<subseteq> identity_ids (st_db (dr_store d'))"
  shows "phase_ok ph d'"
  using assms by (cases ph) (auto simp: polled_ok_def)

lemma upsert_step_ok:
  assumes "upsert_step env tgid r d = (res, d')" "drain_ok n d"
  shows "drain_ok n d' \<and> identity_ids (st_db (dr_store d)) \<subseteq> identity_ids (st_db (dr_store d'))
    \<and> (\<forall>i. res = Some i \<longrightarrow> i \<in> identity_ids (st_db (dr_store d')))"
proof -
  obtain x st where up: "upsert_identity (te_upsert_fails env tgid) (te_now_upsert env) r (dr_store d) = (x, st)" by force
  note fr = upsert_identity_frame(2,3) [OF up]
  have ok: "drain_ok n (d\<lparr>dr_store := st\<rparr>)"
    using drain_ok_store [OF assms(2)] upsert_identity_ok [OF _ up] fr(1) assms(2) by (simp add: drain_ok_def)
  show ?thesis
  proof (cases x)
    case (Inl e)
    then show ?thesis using assms(1) up ok fr(1) by (auto simp: upsert_step_def)
  next
    case (Inr i)
    have i: "i \<in> identity_ids (st_db st)" by (rule fr(2) [OF Inr])
    have "snd ` set (AList.update tgid i (dr_cache d)) \<subseteq> insert i (snd ` set (dr_cache d))" by (rule update_values)
    also have "\<dots> \<subseteq> identity_ids (st_db st)" using ok i by (simp add: drain_ok_def)
    finally have "drain_ok n (d\<lparr>dr_store := st, dr_cache := AList.update tgid i (dr_cache d)\<rparr>)"
      using ok by (simp add: drain_ok_def)
    then show ?thesis using assms(1) up Inr i fr(1) by (auto simp: upsert_step_def)
  qed
qed

lemma fold_acc_ok:
  assumes "drain_ok n d" "polled_ok polled d"
  shows "drain_ok n (d\<lparr>dr_acc := fold (\<lambda>((i, sc), c). hash_bump (b, i, sc) c) polled (dr_acc d)\<rparr>)"
proof -
  let ?acc = "fold (\<lambda>((i, sc), c). hash_bump (b, i, sc) c) polled (dr_acc d)"
  have "distinct (map fst ?acc)"
    using assms(1) unfolding acc_fold by (intro hash.ok_fold) (auto simp: drain_ok_def)
  moreover have "i \<in> identity_ids (st_db (dr_store d))" if "(b', i, sc) \<in> fst ` set ?acc" for b' i sc
  proof -
    have "(b', i, sc) \<in> fst ` set (dr_acc d) \<or> (i, sc) \<in> fst ` set polled"
      using that unfolding acc_fold hash.keys_fold by force
    then show ?thesis using assms by (force simp: drain_ok_def polled_ok_def)
  qed
  then have "\<forall>k \<in> fst ` set ?acc. fst (snd k) \<in> identity_ids (st_db (dr_store d))"
    by (intro ballI) (metis prod.collapse)
  ultimately show ?thesis using assms(1) by (simp add: drain_ok_def)
qed

lemma polled_ok_bump:
  "polled_ok (po_polled p) d \<Longrightarrow> i \<in> identity_ids (st_db (dr_store d)) \<Longrightarrow> polled_ok (po_polled (bump_polled i key bytes p)) d"
  by (auto simp: polled_ok_def bump_polled_def hash_bump_keys)

lemma cached_known: "drain_ok n d \<Longrightarrow> map_of (dr_cache d) tgid = Some i \<Longrightarrow> i \<in> identity_ids (st_db (dr_store d))"
  by (force simp: drain_ok_def dest: map_of_SomeD)

lemma drain_ok_parts:
  assumes "drain_ok n d"
  shows drain_ok_last: "drain_ok n (d\<lparr>dr_last_drain := t\<rparr>)"
    and drain_ok_removed: "drain_ok n (d\<lparr>dr_maps := (dr_maps d)\<lparr>TRAFFIC := AList.delete key (TRAFFIC (dr_maps d))\<rparr>\<rparr>)"
    and drain_ok_hub: "hub_ok h \<Longrightarrow> drain_ok n (d\<lparr>dr_hub := h\<rparr>)"
    and drain_ok_hub_ok: "hub_ok (dr_hub d)"
  using assms maps_ok_delete by (simp_all add: drain_ok_def)

lemma pass_step_ok:
  assumes "pass_step env poisoned (ph, d) = (ph', d')" "drain_ok n d" "phase_ok ph d"
  shows "drain_ok n d' \<and> phase_ok ph' d'"
proof (cases ph)
  case Asleep
  then have "d' = d\<lparr>dr_maps := (dr_maps d)\<lparr>NEW_PIDS := []\<rparr>\<rparr>" "ph' = Enrich (fresh_tgids (NEW_PIDS (dr_maps d)))"
    using assms(1) by simp_all
  then show ?thesis using assms(2) by (simp add: drain_ok_def maps_ok_def)
next
  case (Enrich ts)
  then show ?thesis
    using assms drain_ok_last by (cases ts) (auto simp: polled_ok_def split: option.splits)
next
  case (Enrich_Upsert tgid r ts)
  then show ?thesis using assms upsert_step_ok [of env tgid r d] by (auto simp: prod_eq_iff split: if_splits)
next
  case (Poll p)
  then show ?thesis
    using assms fold_acc_ok by (cases "po_keys p") (auto split: option.splits if_splits)
next
  case (Remove key bytes p)
  then show ?thesis
    using assms drain_ok_removed by (auto simp: polled_ok_def split: if_splits)
next
  case (Account key bytes p)
  then show ?thesis
    using assms cached_known polled_ok_bump by (auto split: option.splits)
next
  case (Account_Upsert key bytes r p)
  obtain res d1 where up: "upsert_step env (tk_tgid key) r d = (res, d1)" by force
  note ok = upsert_step_ok [OF up assms(2)]
  have "polled_ok (po_polled p) d1" using assms(3) ok by (auto simp: Account_Upsert polled_ok_def)
  then show ?thesis
    using assms ok up polled_ok_bump by (auto simp: Account_Upsert split: if_splits option.splits)
next
  case (Publish interval deltas)
  then show ?thesis using assms drain_ok_hub hub_ok_publish drain_ok_hub_ok by auto
next
  case Flush
  then show ?thesis
    using assms flush_ok [of env d] by (auto split: if_splits prod.splits sum.splits)
next
  case (Sweep ts)
  then show ?thesis using assms evict_ok by (cases ts) auto
qed (use assms in auto)


section \<open>An undisturbed pass\<close>

text \<open>
  Without steps of others in between, and with the surroundings as one reading, the steps of a pass come to
  the whole pass \<open>tick\<close>, for which the account of bytes is proved.
\<close>

definition reaches :: "tick_env \<Rightarrow> phase \<times> drain \<Rightarrow> phase \<times> drain \<Rightarrow> bool" where
  "reaches env x y \<longleftrightarrow> (\<exists>n. (pass_step env False ^^ n) x = y)"

lemma reaches_refl [simp]: "reaches env x x"
  unfolding reaches_def by (rule exI [of _ 0]) simp

lemma reaches_trans [trans]: "reaches env x y \<Longrightarrow> reaches env y z \<Longrightarrow> reaches env x z"
  unfolding reaches_def by (metis comp_apply funpow_add)

lemma reaches_step: "reaches env (pass_step env False x) y \<Longrightarrow> reaches env x y"
  unfolding reaches_def by (metis comp_apply funpow_Suc_right)

lemma resolve_upsert:
  "map_of (dr_cache d) tgid = None \<Longrightarrow>
    upsert_step env tgid (record_for env tgid (dr_maps d)) d = resolve env tgid d"
  by (simp add: upsert_step_def resolve_def)

lemma reaches_enrich:
  "reaches env (Enrich ts, d) (Enrich [], fold (\<lambda>tgid d. snd (resolve env tgid d)) ts d)"
proof (induction ts arbitrary: d)
  case (Cons t ts)
  have "reaches env (Enrich (t # ts), d) (Enrich ts, snd (resolve env t d))"
  proof (cases "map_of (dr_cache d) t")
    case None
    have "reaches env (Enrich_Upsert t (record_for env t (dr_maps d)) ts, d) (Enrich ts, snd (resolve env t d))"
      by (rule reaches_step) (simp add: resolve_upsert [OF None])
    then show ?thesis by (intro reaches_step [of env "(Enrich (t # ts), d)"]) (simp add: None)
  next
    case (Some i)
    then show ?thesis by (intro reaches_step [of env "(Enrich (t # ts), d)"]) (simp add: resolve_def)
  qed
  also have "reaches env (Enrich ts, snd (resolve env t d)) (Enrich [], fold (\<lambda>tgid d. snd (resolve env tgid d)) (t # ts) d)"
    using Cons.IH by simp
  finally show ?case .
qed simp

lemma reaches_account:
  assumes "resolve env (tk_tgid key) d = (res, d')"
  shows "reaches env (Account key bytes p, d)
    (Poll (case res of None \<Rightarrow> p | Some i \<Rightarrow> bump_polled i key bytes p), d')"
proof (cases "map_of (dr_cache d) (tk_tgid key)")
  case None
  then have "upsert_step env (tk_tgid key) (record_for env (tk_tgid key) (dr_maps d)) d = (res, d')"
    using assms resolve_upsert by simp
  then have "reaches env (Account_Upsert key bytes (record_for env (tk_tgid key) (dr_maps d)) p, d)
      (Poll (case res of None \<Rightarrow> p | Some i \<Rightarrow> bump_polled i key bytes p), d')"
    by (intro reaches_step [of env "(Account_Upsert key bytes r p, d)" for r]) (simp split: option.split)
  then show ?thesis using None by (intro reaches_step [of env "(Account key bytes p, d)"]) simp
next
  case (Some i)
  then have "res = Some i" "d' = d" using assms by (auto simp: resolve_def)
  then show ?thesis using Some by (intro reaches_step [of env "(Account key bytes p, d)"]) simp
qed

lemma reaches_key:
  assumes "te_race env = (\<lambda>_. [])" "drain_key env key (po_polled p, d) = (polled', d')"
  shows "reaches env (Poll (p\<lparr>po_keys := key # keys\<rparr>), d) (Poll (p\<lparr>po_keys := keys, po_polled := polled'\<rparr>), d')"
proof (cases "if te_get_ok env key then map_of (TRAFFIC (dr_maps d)) key else None")
  case None
  then have "pass_step env False (Poll (p\<lparr>po_keys := key # keys\<rparr>), d) = (Poll (p\<lparr>po_keys := keys, po_polled := polled'\<rparr>), d')"
    using assms(2) by (auto simp: drain_key_def split: if_splits)
  then show ?thesis by (intro reaches_step [of env "(Poll (p\<lparr>po_keys := key # keys\<rparr>), d)"]) simp
next
  case (Some cs)
  let ?p = "p\<lparr>po_keys := keys\<rparr>" and ?bytes = "sum_list cs"
  let ?d = "d\<lparr>dr_maps := (dr_maps d)\<lparr>TRAFFIC := AList.delete key (TRAFFIC (dr_maps d))\<rparr>\<rparr>"
  have race: "trace (te_race env key) m = m" for m by (simp add: assms(1) trace_def)
  have account: "reaches env (Account key ?bytes ?p, ?d) (Poll (?p\<lparr>po_polled := polled'\<rparr>), d')"
    if r: "te_remove_ok env key" "?bytes \<noteq> 0"
  proof -
    obtain res d1 where res: "resolve env (tk_tgid key) ?d = (res, d1)" by force
    then have "d' = d1" "?p\<lparr>po_polled := polled'\<rparr> = (case res of None \<Rightarrow> ?p | Some i \<Rightarrow> bump_polled i key ?bytes ?p)"
      using assms(2) Some r by (auto simp: drain_key_def Let_def race bump_polled_def split: option.splits)
    then show ?thesis using reaches_account [OF res, of ?bytes ?p] by simp
  qed
  have "reaches env (Remove key ?bytes ?p, d) (Poll (?p\<lparr>po_polled := polled'\<rparr>), d')"
  proof (cases "te_remove_ok env key \<and> ?bytes \<noteq> 0")
    case True
    then show ?thesis
      using account by (intro reaches_step [of env "(Remove key ?bytes ?p, d)"]) simp
  next
    case False
    then have "polled' = po_polled p" "d' = (if te_remove_ok env key then ?d else d)"
      using assms(2) Some by (auto simp: drain_key_def Let_def race split: if_splits)
    then show ?thesis
      using False by (intro reaches_step [of env "(Remove key ?bytes ?p, d)"]) auto
  qed
  then show ?thesis
    using Some by (intro reaches_step [of env "(Poll (p\<lparr>po_keys := key # keys\<rparr>), d)"]) simp
qed

lemma reaches_keys:
  assumes "te_race env = (\<lambda>_. [])" "fold (drain_key env) keys (po_polled p, d) = (polled', d')"
  shows "reaches env (Poll (p\<lparr>po_keys := keys\<rparr>), d) (Poll (p\<lparr>po_keys := [], po_polled := polled'\<rparr>), d')"
  using assms(2)
proof (induction keys arbitrary: p d)
  case (Cons key keys)
  obtain p1 d1 where one: "drain_key env key (po_polled p, d) = (p1, d1)" by force
  note reaches_key [OF assms(1) one, of keys]
  also have "reaches env (Poll (p\<lparr>po_keys := keys, po_polled := p1\<rparr>), d1) (Poll (p\<lparr>po_keys := [], po_polled := polled'\<rparr>), d')"
    using Cons.IH [of "p\<lparr>po_polled := p1\<rparr>" d1] Cons.prems one by (cases p) simp
  finally show ?case .
next
  case Nil
  then show ?case by (cases p) simp
qed

lemma reaches_sweep: "reaches env (Sweep ts, d) (Asleep, fold (evict env) ts d)"
proof (induction ts arbitrary: d)
  case (Cons t ts)
  then show ?case by (intro reaches_step [of env "(Sweep (t # ts), d)"]) simp
qed (intro reaches_step [of env "(Sweep [], d)" for d], simp)

theorem undisturbed_pass:
  assumes "te_race env = (\<lambda>_. [])"
  shows "reaches env (Asleep, d) (Asleep, snd (tick env d))"
proof -
  let ?d1 = "drain_new_pids env d"
  let ?d2 = "?d1\<lparr>dr_last_drain := te_instant env\<rparr>" and ?keys = "map fst (TRAFFIC (dr_maps ?d1))"
  let ?p = "\<lparr>po_bucket = current_minute (te_now_bucket env), po_interval = te_instant env - dr_last_drain ?d1,
    po_keys = ?keys, po_polled = []\<rparr>"
  obtain polled d3 where run: "fold (drain_key env) ?keys ([], ?d2) = (polled, d3)" by force
  let ?acc = "fold (\<lambda>((i, sc), c). hash_bump (po_bucket ?p, i, sc) c) polled (dr_acc d3)"
  let ?d4 = "drain_traffic env ?d1"
  have "reaches env (Asleep, d) (Enrich [], ?d1)"
    using reaches_enrich by (intro reaches_step [of env "(Asleep, d)"]) (simp add: drain_new_pids_def)
  also have "reaches env (Enrich [], ?d1) (Poll ?p, ?d2)" by (rule reaches_step) simp
  also have "reaches env (Poll ?p, ?d2) (Poll (?p\<lparr>po_keys := [], po_polled := polled\<rparr>), d3)"
    using reaches_keys [OF assms, of ?keys ?p ?d2] run by simp
  also have "reaches env \<dots> (Publish (po_interval ?p) (map delta_of polled), d3\<lparr>dr_acc := ?acc\<rparr>)"
    by (rule reaches_step) simp
  also have "reaches env \<dots> (Flush, ?d4)"
    by (rule reaches_step) (simp add: drain_traffic_def Let_def run)
  also have "reaches env (Flush, ?d4) (Asleep, snd (tick env d))"
  proof (cases "flush_closed_minutes env ?d4")
    case (Pair res d5)
    show ?thesis
    proof (cases res)
      case (Inl e)
      then show ?thesis by (intro reaches_step [of env "(Flush, ?d4)"]) (simp add: Pair tick_def)
    next
      case (Inr u)
      have "reaches env (Collect, d5) (Asleep, gc_dead_tgids env d5)"
        using reaches_sweep by (intro reaches_step [of env "(Collect, d5)"]) (simp add: gc_dead_tgids_def)
      then show ?thesis by (intro reaches_step [of env "(Flush, ?d4)"]) (simp add: Pair Inr tick_def)
    qed
  qed
  finally show ?thesis .
qed

end
