(* ===== verification/Daemon.thy ===== *)
theory Daemon
  imports Collector_Steps Server
begin

text \<open>
  The daemon (\<open>procflowd/src/main.rs\<close>): its start, decision by decision, and the threads it then runs
  over one store and one hub as a step relation: hooks, the collector, rollups, connections and
  stream threads, in any order. A step takes the store's lock at most once: the collector moves by the steps of
  \<open>Collector_Steps\<close>, with anything between two of them, a rollup is one step because its thread holds the
  lock for the whole of it, and a connection locks the store once, to read.
\<close>

section \<open>Starting\<close>

datatype file_kind = A_Socket | Not_A_Socket

text \<open>The host: the environment, the file system's answers, and the store a path opens.\<close>

record host =
  ho_db_env :: "string option"
  ho_socket_env :: "string option"
  ho_bpf_env :: "string option"
  ho_mkdir :: "string \<Rightarrow> bool"
  ho_file :: "string \<Rightarrow> db option"
  ho_db_faults :: "bool \<times> bool \<times> bool"
  ho_version_fault :: bool
  ho_kind :: "string \<Rightarrow> file_kind option"
  ho_unlink :: "string \<Rightarrow> bool"
  ho_bind :: "string \<Rightarrow> bool"
  ho_chmod :: "string \<Rightarrow> bool"
  ho_loader :: loader
  ho_rollup_thread :: bool
  ho_maps :: bpf_maps
  ho_instant :: int

definition DEFAULT_DB :: string where "DEFAULT_DB = ''/var/lib/procflow/procflow.duckdb''"

definition POLL_INTERVAL_S :: nat where "POLL_INTERVAL_S = 1"
definition ROLLUP_INTERVAL_S :: nat where "ROLLUP_INTERVAL_S = 60"

definition db_path :: "host \<Rightarrow> string" where
  "db_path ho = (case ho_db_env ho of Some p \<Rightarrow> p | None \<Rightarrow> DEFAULT_DB)"

text \<open>\<open>Path::parent\<close> and \<open>create_dir_all\<close> of it; a path with no parent needs none.\<close>

definition parent_dir :: "string \<Rightarrow> string option" where
  "parent_dir s = (case snd (path_of s) of [] \<Rightarrow> None | cs \<Rightarrow> Some (path_str (fst (path_of s), butlast cs)))"

definition make_parent :: "host \<Rightarrow> string \<Rightarrow> string \<Rightarrow> string + unit" where
  "make_parent ho what p =
     (case parent_dir p of
        None \<Rightarrow> Inr ()
      | Some dir \<Rightarrow> if ho_mkdir ho dir then Inr () else Inl (''creating '' @ what @ '' directory '' @ dir))"

definition open_store :: "host \<Rightarrow> string + store" where
  "open_store ho =
     (case ho_db_faults ho of (f1, f2, f3) \<Rightarrow>
      if db_path ho = '':memory:''
      then (case open_in_memory f1 f2 f3 of Inl e \<Rightarrow> Inl ''opening the in-memory store'' | Inr st \<Rightarrow> Inr st)
      else case make_parent ho ''state'' (db_path ho) of Inl e \<Rightarrow> Inl e | Inr _ \<Rightarrow>
        (case store_open (ho_file ho (db_path ho)) f1 f2 f3 of
           Inl e \<Rightarrow> Inl (''opening store '' @ db_path ho) | Inr st \<Rightarrow> Inr st))"

text \<open>What happens at the socket path before the bind: the result, and whether a file was removed.\<close>

definition clear_socket :: "host \<Rightarrow> string \<Rightarrow> (string + unit) \<times> bool" where
  "clear_socket ho socket =
     (case ho_kind ho socket of
        Some A_Socket \<Rightarrow>
          if ho_unlink ho socket then (Inr (), True) else (Inl ''removing the stale socket'', False)
      | Some Not_A_Socket \<Rightarrow> (Inl (socket @ '' exists and is not a socket - refusing to remove it''), False)
      | None \<Rightarrow> (Inr (), False))"

record daemon =
  dm_drain :: drain
  dm_phase :: phase
  dm_live :: bool
  dm_poisoned :: bool

definition daemon_start :: "host \<Rightarrow> string + daemon" where
  "daemon_start ho =
     (case open_store ho of Inl e \<Rightarrow> Inl e | Inr st \<Rightarrow>
      case schema_version (ho_version_fault ho) st of Inl e \<Rightarrow> Inl ''reading the schema version'' | Inr version \<Rightarrow>
      let socket = socket_path (ho_socket_env ho) in
      case make_parent ho ''socket'' socket of Inl e \<Rightarrow> Inl e | Inr _ \<Rightarrow>
      case clear_socket ho socket of (Inl e, _) \<Rightarrow> Inl e | (Inr _, _) \<Rightarrow>
      if \<not> ho_bind ho socket then Inl (''binding '' @ socket)
      else if \<not> ho_chmod ho socket then Inl (''opening '' @ socket @ '' to local users'')
      else let collector = (case collector_start (ho_bpf_env ho) (ho_loader ho) of Inl e \<Rightarrow> False | Inr _ \<Rightarrow> True)
           in if \<not> ho_rollup_thread ho then Inl ''spawning the rollup thread''
              else Inr \<lparr>dm_drain = drain_new st default_hub (ho_instant ho) (ho_maps ho),
                        dm_phase = Asleep, dm_live = collector, dm_poisoned = False\<rparr>)"

text \<open>The server the accept loop runs with.\<close>

definition server_of :: "daemon \<Rightarrow> server" where
  "server_of d = \<lparr>sv_store = dr_store (dm_drain d), sv_poisoned = dm_poisoned d,
     sv_live = (if dm_live d then Some (dr_hub (dm_drain d)) else None), sv_demo = False\<rparr>"

definition after_request :: "server \<Rightarrow> daemon \<Rightarrow> daemon" where
  "after_request sv d = d\<lparr>dm_poisoned := sv_poisoned sv,
     dm_drain := (dm_drain d)\<lparr>dr_hub := (case sv_live sv of Some h \<Rightarrow> h | None \<Rightarrow> dr_hub (dm_drain d))\<rparr>\<rparr>"

text \<open>The rollup thread's pass; a panic under the lock poisons it.\<close>

definition rollup_pass :: "'d chrono \<Rightarrow> rollup_faults \<Rightarrow> i64 \<Rightarrow> daemon \<Rightarrow> daemon option" where
  "rollup_pass ch f now d =
     (case rollup ch f now (dr_store (dm_drain d)) of
        None \<Rightarrow> None
      | Some (res, st) \<Rightarrow> Some (d\<lparr>dm_drain := (dm_drain d)\<lparr>dr_store := st\<rparr>,
                                 dm_poisoned := (dm_poisoned d \<or> res = Inl Panicked)\<rparr>))"


text \<open>The collector thread's next step; a poisoned lock ends the thread, and the daemon goes on.\<close>

definition collector_step :: "tick_env \<Rightarrow> daemon \<Rightarrow> daemon" where
  "collector_step env d =
     (case pass_step env (dm_poisoned d) (dm_phase d, dm_drain d) of
        (ph, dr) \<Rightarrow> d\<lparr>dm_phase := ph, dm_drain := dr\<rparr>)"


section \<open>Running\<close>

inductive daemon_step :: "'d chrono \<Rightarrow> nat \<Rightarrow> daemon \<Rightarrow> daemon \<Rightarrow> bool" for ch n where
  hooks: "dm_live d \<Longrightarrow> \<forall>e \<in> set es. on_cpus n e \<Longrightarrow>
    daemon_step ch n d (d\<lparr>dm_drain := (dm_drain d)\<lparr>dr_maps := trace es (dr_maps (dm_drain d))\<rparr>\<rparr>)"
| collector: "dm_live d \<Longrightarrow>
    daemon_step ch n d (collector_step env d)"
| roll: "\<not> dm_poisoned d \<Longrightarrow> rollup_pass ch f now d = Some d' \<Longrightarrow> daemon_step ch n d d'"
| request: "handle ch env decode encode cn (server_of d) = (r, out, sv) \<Longrightarrow>
    daemon_step ch n d (after_request sv d)"
| streams: "op \<in> {Op_Subscribe} \<union> range Op_Stop \<union> range Op_Recv \<union> range Op_Hang_Up \<Longrightarrow>
    daemon_step ch n d (d\<lparr>dm_drain := (dm_drain d)\<lparr>dr_hub := hub_step op (dr_hub (dm_drain d))\<rparr>\<rparr>)"

inductive daemon_steps :: "'d chrono \<Rightarrow> nat \<Rightarrow> daemon \<Rightarrow> daemon \<Rightarrow> bool" for ch n where
  stay: "daemon_steps ch n d d"
| further: "daemon_steps ch n d d' \<Longrightarrow> daemon_step ch n d' d'' \<Longrightarrow> daemon_steps ch n d d''"


definition daemon_ok :: "nat \<Rightarrow> daemon \<Rightarrow> bool" where
  "daemon_ok n d \<longleftrightarrow> drain_ok n (dm_drain d) \<and> phase_ok (dm_phase d) (dm_drain d)"


section \<open>The steps and the store\<close>

text \<open>The collector touches the store by upserts and minute inserts only, so what those keep, it keeps.\<close>

lemma flush_each_keeps:
  assumes rec: "\<And>f b i sc x y st res st'. P st \<Longrightarrow> record_minute f b i sc x y st = (res, st') \<Longrightarrow> P st'"
  shows "P (dr_store d) \<Longrightarrow> P (dr_store (snd (flush_each env ks d)))"
proof (induction ks arbitrary: d)
  case (Cons k ks)
  obtain b i sc where k: "k = (b, i, sc)" by (cases k)
  let ?c = "get_or_zero (dr_acc d) k"
  obtain r st where r: "record_minute (te_minute_fails env k) b i (scope_str sc) (ingress ?c) (egress ?c) (dr_store d) = (r, st)"
    by force
  show ?case using rec [OF Cons.prems r] Cons.IH [of "d\<lparr>dr_acc := AList.delete k (dr_acc d), dr_store := st\<rparr>"] r
    by (cases r) (simp_all add: k Let_def)
qed simp

lemma pass_step_keeps:
  assumes up: "\<And>f now r st res st'. P st \<Longrightarrow> upsert_identity f now r st = (res, st') \<Longrightarrow> P st'"
    and rec: "\<And>f b i sc x y st res st'. P st \<Longrightarrow> record_minute f b i sc x y st = (res, st') \<Longrightarrow> P st'"
    and start: "P (dr_store d)" and step: "pass_step env poisoned (ph, d) = (ph', d')"
  shows "P (dr_store d')"
proof -
  have ups: "P (dr_store (snd (upsert_step env t r d)))" for t r
    using up [OF start] by (auto simp: upsert_step_def split: prod.split sum.split)
  have flush: "P (dr_store (snd (flush_closed_minutes env d)))"
  proof -
    have "P (dr_store (snd (flush_each env ks d)))" for ks by (rule flush_each_keeps) (fact rec start)+
    then show ?thesis using start by (simp add: flush_closed_minutes_def Let_def)
  qed
  show ?thesis
  proof (cases ph)
    case (Enrich ts)
    then show ?thesis using step start by (cases ts) (auto split: option.splits)
  next
    case (Enrich_Upsert t r ts)
    then show ?thesis using step start ups by (auto split: if_splits)
  next
    case (Poll p)
    then show ?thesis using step start by (cases "po_keys p") (auto split: option.splits if_splits)
  next
    case (Account_Upsert key bytes r p)
    then show ?thesis
      using step start ups [of "tk_tgid key" r] by (auto split: if_splits prod.splits option.splits)
  next
    case Flush
    then show ?thesis using step start flush by (auto split: if_splits prod.splits sum.splits)
  next
    case (Sweep ts)
    then show ?thesis using step start by (cases ts) (auto simp: evict_def)
  qed (use step start in \<open>auto split: if_splits option.splits\<close>)
qed

lemma rollup_identity:
  assumes "rollup ch f now st = Some (res, st')"
  shows "db_identity (st_db st') = db_identity (st_db st)"
proof -
  have "db_identity (st_db s') = db_identity (st_db s)" if "prune g now s = (r, s')" for g s r s'
    using prune_stages [OF that] by (auto simp: prune_rel_def)
  then show ?thesis
    using rollup_keeps [of "\<lambda>s. db_identity (st_db s) = db_identity (st_db st)", OF _ _ assms] rollup_next_frame(3)
    by metis
qed

text \<open>A connection leaves the store alone and the hub well formed.\<close>

lemma respond_frame: "respond ch env req vis sv = (r, sv') \<Longrightarrow>
    sv_store sv' = sv_store sv \<and> sv_live sv' = sv_live sv \<and> sv_demo sv' = sv_demo sv"
  by (auto simp: respond_def with_store_def Let_def split: if_splits option.splits request_body.splits)

lemma hub_ok_drop: "hub_ok h \<Longrightarrow> hub_ok (drop_receiver c h)"
  by (simp add: hub_ok_def drop_receiver_def)

lemma handle_frame:
  assumes "handle ch env decode encode cn sv = (r, out, sv')" "\<forall>h. sv_live sv = Some h \<longrightarrow> hub_ok h"
  shows "sv_store sv' = sv_store sv \<and> (\<forall>h. sv_live sv' = Some h \<longrightarrow> hub_ok h)
    \<and> (sv_live sv' = None) = (sv_live sv = None)"
proof -
  have watch: "sv_store s2 = sv_store sv \<and> (\<forall>h. sv_live s2 = Some h \<longrightarrow> hub_ok h) \<and> (sv_live s2 = None) = (sv_live sv = None)"
    if "watch encode rid w vis cl feed o1 sv = (r2, o2, s2)" for rid w vis cl feed o1 r2 o2 s2
  proof (cases "sv_live sv")
    case None
    then show ?thesis using that by (auto simp: watch_def split: prod.splits)
  next
    case (Some h)
    obtain stop events h1 where sub: "subscribe h = ((stop, events), h1)" by (metis surj_pair)
    have "hub_ok h1" using hub_ok_subscribe [of h] sub Some assms(2) by simp
    moreover have "s2 = sv\<lparr>sv_live := Some (drop_receiver events h1)\<rparr>"
      using that by (simp add: watch_def Some sub split: sum.splits prod.splits)
    ultimately show ?thesis using hub_ok_drop Some by simp
  qed
  show ?thesis
    using assms(1)
    by (auto simp: handle_def Let_def assms(2) dest!: watch respond_frame
        split: sum.splits option.splits request_body.splits prod.splits if_splits)
qed

lemma server_of_simps [simp]:
  "sv_store (server_of d) = dr_store (dm_drain d)" "sv_live (server_of d) = (if dm_live d then Some (dr_hub (dm_drain d)) else None)"
  by (simp_all add: server_of_def)

lemma rollup_pass_drain:
  "rollup_pass ch f now d = Some d' \<Longrightarrow> \<exists>res st. rollup ch f now (dr_store (dm_drain d)) = Some (res, st)
     \<and> dm_drain d' = (dm_drain d)\<lparr>dr_store := st\<rparr> \<and> dm_phase d' = dm_phase d \<and> dm_live d' = dm_live d"
  by (auto simp: rollup_pass_def split: option.splits)

lemma phase_ok_store:
  "phase_ok ph (d\<lparr>dr_maps := m\<rparr>) = phase_ok ph d" "phase_ok ph (d\<lparr>dr_hub := h\<rparr>) = phase_ok ph d"
  by (cases ph; simp add: polled_ok_def)+

lemma step_ok:
  assumes "daemon_step ch n d d'" "daemon_ok n d"
  shows "daemon_ok n d'"
  using assms(1)
proof (cases rule: daemon_step.cases)
  case (hooks es)
  have ok: "drain_ok n (dm_drain d)" using assms(2) by (simp add: daemon_ok_def)
  then have "maps_ok n (trace es (dr_maps (dm_drain d)))"
    using maps_ok_trace hooks(3) by (simp add: drain_ok_def)
  then have "drain_ok n ((dm_drain d)\<lparr>dr_maps := trace es (dr_maps (dm_drain d))\<rparr>)" by (rule drain_ok_maps [OF ok])
  then show ?thesis unfolding hooks(1) using assms(2) by (simp add: daemon_ok_def phase_ok_store)
next
  case (collector env)
  obtain ph dr where step: "pass_step env (dm_poisoned d) (dm_phase d, dm_drain d) = (ph, dr)" by force
  have "drain_ok n dr \<and> phase_ok ph dr"
    by (rule pass_step_ok [OF step]) (use assms(2) in \<open>simp_all add: daemon_ok_def\<close>)
  then show ?thesis by (simp add: collector(1) daemon_ok_def collector_step_def step)
next
  case (roll f now)
  then obtain res st where r: "rollup ch f now (dr_store (dm_drain d)) = Some (res, st)"
      "dm_drain d' = (dm_drain d)\<lparr>dr_store := st\<rparr>" "dm_phase d' = dm_phase d"
    using rollup_pass_drain by blast
  have "drain_ok n ((dm_drain d)\<lparr>dr_store := st\<rparr>)"
    using assms(2) rollup_ok [OF _ r(1)] rollup_identity [OF r(1)]
    by (intro drain_ok_store) (simp_all add: daemon_ok_def drain_ok_def identity_ids_def)
  moreover have "phase_ok (dm_phase d) ((dm_drain d)\<lparr>dr_store := st\<rparr>)"
  proof (rule phase_ok_mono)
    show "phase_ok (dm_phase d) (dm_drain d)" using assms(2) by (simp add: daemon_ok_def)
    show "identity_ids (st_db (dr_store (dm_drain d))) \<subseteq> identity_ids (st_db (dr_store ((dm_drain d)\<lparr>dr_store := st\<rparr>)))"
      using rollup_identity [OF r(1)] by (simp add: identity_ids_def)
  qed
  ultimately show ?thesis by (simp add: daemon_ok_def r(2,3))
next
  case (request env decode encode cn r out sv)
  have hub: "hub_ok (dr_hub (dm_drain d))" using assms(2) by (simp add: daemon_ok_def drain_ok_def)
  then have "\<forall>h. sv_live (server_of d) = Some h \<longrightarrow> hub_ok h" by simp
  from handle_frame [OF request(2) this] have "\<forall>h. sv_live sv = Some h \<longrightarrow> hub_ok h" by blast
  with hub have "hub_ok (case sv_live sv of Some h \<Rightarrow> h | None \<Rightarrow> dr_hub (dm_drain d))"
    by (cases "sv_live sv") simp_all
  then show ?thesis
    using assms(2) unfolding request(1) by (simp add: daemon_ok_def after_request_def drain_ok_def phase_ok_store)
next
  case (streams op)
  then show ?thesis
    using assms(2) hub_ok_step by (simp add: daemon_ok_def drain_ok_def phase_ok_store)
qed

lemma step_identity:
  assumes "daemon_step ch n d d'" "key_id (st_db (dr_store (dm_drain d))) r i"
  shows "key_id (st_db (dr_store (dm_drain d'))) r i"
  using assms(1)
proof (cases rule: daemon_step.cases)
  case (collector env)
  obtain ph dr where step: "pass_step env (dm_poisoned d) (dm_phase d, dm_drain d) = (ph, dr)" by force
  have "key_id (st_db (dr_store dr)) r i"
  proof (rule pass_step_keeps [of "\<lambda>st. key_id (st_db st) r i", OF _ _ assms(2) step])
    show "key_id (st_db st') r i" if "key_id (st_db st) r i" "upsert_identity f now q st = (res, st')" for f now q st res st'
      by (rule upsert_identity_keeps [OF that(2,1)])
    show "key_id (st_db st') r i" if "key_id (st_db st) r i" "record_minute f b j sc x y st = (res, st')" for f b j sc x y st res st'
      using that(2,1) by (cases rule: record_minute_cases) (simp_all add: key_id_def)
  qed
  then show ?thesis by (simp add: collector collector_step_def step)
next
  case (roll f now)
  then obtain res st where r: "rollup ch f now (dr_store (dm_drain d)) = Some (res, st)"
      "dm_drain d' = (dm_drain d)\<lparr>dr_store := st\<rparr>"
    using rollup_pass_drain by blast
  then show ?thesis using assms(2) rollup_identity [OF r(1)] by (simp add: key_id_def)
qed (use assms(2) in \<open>simp_all add: after_request_def\<close>)


text \<open>Where nobody comes between, the collector's steps are a whole pass.\<close>

lemma daemon_steps_trans: "daemon_steps ch n d' d'' \<Longrightarrow> daemon_steps ch n d d' \<Longrightarrow> daemon_steps ch n d d''"
  by (induction rule: daemon_steps.induct) (auto intro: further)

lemma collector_steps:
  assumes "dm_live d" "\<not> dm_poisoned d"
  shows "(pass_step env False ^^ k) (dm_phase d, dm_drain d) = (ph, dr) \<Longrightarrow>
    daemon_steps ch n d (d\<lparr>dm_phase := ph, dm_drain := dr\<rparr>)"
proof (induction k arbitrary: ph dr)
  case (Suc k)
  obtain ph1 dr1 where one: "(pass_step env False ^^ k) (dm_phase d, dm_drain d) = (ph1, dr1)" by force
  let ?d = "d\<lparr>dm_phase := ph1, dm_drain := dr1\<rparr>"
  have "collector_step env ?d = d\<lparr>dm_phase := ph, dm_drain := dr\<rparr>"
    using Suc.prems one assms(2) by (simp add: collector_step_def)
  moreover have "daemon_step ch n ?d (collector_step env ?d)" by (rule collector) (simp add: assms(1))
  ultimately show ?case using further [OF Suc.IH [OF one]] by simp
qed (simp add: stay)

lemma whole_pass:
  assumes "dm_live d" "\<not> dm_poisoned d" "dm_phase d = Asleep" "te_race env = (\<lambda>_. [])"
  shows "daemon_steps ch n d (d\<lparr>dm_drain := snd (tick env (dm_drain d))\<rparr>)"
proof -
  obtain k where "(pass_step env False ^^ k) (dm_phase d, dm_drain d) = (Asleep, snd (tick env (dm_drain d)))"
    using undisturbed_pass [OF assms(4)] assms(3) unfolding reaches_def by metis
  from collector_steps [OF assms(1,2) this, of ch n] show ?thesis using assms(3) by (cases d) simp
qed


section \<open>Properties\<close>

text \<open>C17. Every state the daemon reaches is sound, however the hooks, the steps of the collector's passes, the
  rollups, the connections and the streams interleave - a rollup, a prune or a poisoning between two upserts of
  one pass included -, whatever the engine fails and whatever clients send: the schema's constraints hold, the
  counter map, the accumulator, the cache and the sums of an unfinished poll refer to existing identities, and
  the hub is well formed; and an identity, once given an id, keeps that id for its natural key for ever. And the steps of a pass are the pass: from any state it sleeps in,
  the collector, if nobody comes between, does all of \<open>tick\<close>.\<close>

theorem daemon_stays_sound:
  assumes "daemon_steps ch n d d'" "daemon_ok n d"
  shows "daemon_ok n d' \<and> (\<forall>r i. key_id (st_db (dr_store (dm_drain d))) r i \<longrightarrow> key_id (st_db (dr_store (dm_drain d'))) r i)
    \<and> (\<forall>env. dm_live d' \<and> \<not> dm_poisoned d' \<and> dm_phase d' = Asleep \<and> te_race env = (\<lambda>_. []) \<longrightarrow>
        daemon_steps ch n d' (d'\<lparr>dm_drain := snd (tick env (dm_drain d'))\<rparr>))"
proof -
  have "daemon_ok n d' \<and> (\<forall>r i. key_id (st_db (dr_store (dm_drain d))) r i \<longrightarrow> key_id (st_db (dr_store (dm_drain d'))) r i)"
    using assms by (induction rule: daemon_steps.induct) (auto intro: step_ok step_identity)
  then show ?thesis using whole_pass by blast
qed

definition demo_daemon :: daemon where
  "demo_daemon = \<lparr>dm_drain = demo_drain, dm_phase = Asleep, dm_live = True, dm_poisoned = False\<rparr>"

text \<open>The run: a whole pass, the first step of a second one, a subscription, and the pass's next step.\<close>

lemma daemon_stays_sound_witness:
  "\<exists>d'. daemon_steps gregorian 2 demo_daemon d' \<and> daemon_ok 2 d' \<and> key_id (st_db (dr_store (dm_drain d'))) demo_record 1"
proof -
  let ?env = "calm_tick 1783337400"
  let ?d1 = "demo_daemon\<lparr>dm_drain := snd (tick ?env (dm_drain demo_daemon))\<rparr>"
  let ?d2 = "collector_step ?env ?d1"
  let ?d3 = "?d2\<lparr>dm_drain := (dm_drain ?d2)\<lparr>dr_hub := hub_step Op_Subscribe (dr_hub (dm_drain ?d2))\<rparr>\<rparr>"
  have "daemon_steps gregorian 2 demo_daemon ?d1"
    by (rule whole_pass) (simp_all add: demo_daemon_def calm_tick_def)
  moreover have live: "dm_live ?d1" by (simp add: demo_daemon_def)
  moreover have "dm_live ?d3" using live by (simp add: collector_step_def split: prod.split)
  ultimately have run: "daemon_steps gregorian 2 demo_daemon (collector_step ?env ?d3)"
    using further [OF further [OF further [OF _ daemon_step.collector]
      daemon_step.streams [of Op_Subscribe]] daemon_step.collector] by blast
  have "daemon_ok 2 demo_daemon" using demo_drain_ok by (simp add: daemon_ok_def demo_daemon_def)
  moreover have "key_id (st_db (dr_store (dm_drain demo_daemon))) demo_record 1"
    by (simp add: key_id_def demo_daemon_def demo_drain_def drain_new_def demo_store_def same_key_def)
  ultimately show ?thesis using daemon_stays_sound [OF run] run by blast
qed

text \<open>Opening a store that is sound, or a new one, gives a sound store.\<close>

lemma blank_db_ok:
  assumes "db_identity d = []" "db_watermark d = []" "\<And>t. tier_table t d = []"
  shows "db_ok d"
  using assms by (simp add: db_ok_def identities_ok_def watermarks_ok_def fact_ok_def)

lemma store_init_ok:
  assumes "store_init f1 f2 f3 conn = Inr st" "db_ok conn"
  shows "store_ok st"
proof -
  have "db_ok d" if "init_sql conn = Inr d1" "d = d1\<lparr>db_versions := vs\<rparr>" for d d1 vs
  proof (rule blank_db_ok)
    show "tier_table t d = []" for t using that by (cases t) (auto simp: init_sql_def split: if_splits)
  qed (use that in \<open>auto simp: init_sql_def split: if_splits\<close>)
  then show ?thesis
    using assms
    by (auto simp: store_init_def migrate_def schema_version_def MIGRATIONS_def store_ok_def Let_def
        split: if_splits sum.splits prod.splits)
qed

lemma empty_db_ok: "db_ok empty_db"
proof (rule blank_db_ok)
  show "tier_table t empty_db = []" for t by (cases t) (simp_all add: empty_db_def)
qed (simp_all add: empty_db_def)

lemma open_store_ok:
  assumes "open_store ho = Inr st" "\<forall>content. ho_file ho (db_path ho) = Some content \<longrightarrow> db_ok content"
  shows "store_ok st"
  using assms store_init_ok [OF _ empty_db_ok] store_init_ok
  by (auto simp: open_store_def open_in_memory_def store_open_def split: if_splits sum.splits prod.splits option.splits)

lemma opened_file:
  assumes "open_store ho = Inr st" "ho_db_env ho \<noteq> Some '':memory:''"
  shows "\<exists>content f. ho_file ho (db_path ho) = Some content \<and> store_open (Some content) (fst f) (fst (snd f)) (snd (snd f)) = Inr st"
proof -
  have "db_path ho \<noteq> '':memory:''" using assms(2) by (auto simp: db_path_def DEFAULT_DB_def split: option.split)
  then obtain f1 f2 f3 where opened: "store_open (ho_file ho (db_path ho)) f1 f2 f3 = Inr st"
    using assms(1) by (auto simp: open_store_def split: prod.splits sum.splits if_splits)
  then obtain content where "ho_file ho (db_path ho) = Some content"
    by (auto simp: store_open_def split: option.splits)
  with opened show ?thesis by (intro exI [of _ content] exI [of _ "(f1, f2, f3)"]) simp
qed

text \<open>What must have worked for the daemon to serve.\<close>

definition can_serve :: "host \<Rightarrow> bool" where
  "can_serve ho \<longleftrightarrow>
     (let socket = socket_path (ho_socket_env ho) in
      (\<exists>st. open_store ho = Inr st) \<and> \<not> ho_version_fault ho \<and> make_parent ho ''socket'' socket = Inr ()
      \<and> (ho_kind ho socket = None \<or> ho_kind ho socket = Some A_Socket \<and> ho_unlink ho socket)
      \<and> ho_bind ho socket \<and> ho_chmod ho socket \<and> ho_rollup_thread ho)"

text \<open>C37. Starting is careful. The daemon starts exactly when the store opens, the socket can be put in place and
  the rollup thread starts: whether the kernel part can be started has no say in it, and only decides whether the
  live feed is on. Nothing but a socket is ever removed to make room. A daemon that started stores in memory only
  when told so, has the accumulator empty, and, if the file was sound, is in a sound state.\<close>

theorem daemon_starts_carefully:
  "((\<exists>d. daemon_start ho = Inr d) \<longleftrightarrow> can_serve ho)
    \<and> (snd (clear_socket ho (socket_path (ho_socket_env ho))) \<longrightarrow>
         ho_kind ho (socket_path (ho_socket_env ho)) = Some A_Socket)
    \<and> (daemon_start ho = Inr d \<longrightarrow>
         (dm_live d \<longleftrightarrow> collector_start (ho_bpf_env ho) (ho_loader ho) = Inr ())
       \<and> (ho_db_env ho \<noteq> Some '':memory:'' \<longrightarrow>
           (\<exists>content f. ho_file ho (db_path ho) = Some content \<and> store_open (Some content) (fst f) (fst (snd f)) (snd (snd f)) = Inr (dr_store (dm_drain d))))
       \<and> dr_acc (dm_drain d) = [] \<and> dm_phase d = Asleep \<and> dm_poisoned d = False
       \<and> (maps_ok n (ho_maps ho) \<and> (\<forall>content. ho_file ho (db_path ho) = Some content \<longrightarrow> db_ok content) \<longrightarrow>
           daemon_ok n d))"
proof -
  have starts: "(\<exists>d. daemon_start ho = Inr d) \<longleftrightarrow> can_serve ho"
    by (auto simp: can_serve_def daemon_start_def clear_socket_def schema_version_def Let_def
        split: sum.splits prod.splits if_splits option.splits file_kind.splits)
  have removed: "snd (clear_socket ho p) \<longrightarrow> ho_kind ho p = Some A_Socket" for p
    by (simp add: clear_socket_def split: option.split file_kind.split)
  show ?thesis
  proof (cases "daemon_start ho")
    case (Inr e)
    then obtain st where st: "open_store ho = Inr st" "dm_drain e = drain_new st default_hub (ho_instant ho) (ho_maps ho)"
        "dm_phase e = Asleep" "dm_poisoned e = False"
        "dm_live e \<longleftrightarrow> collector_start (ho_bpf_env ho) (ho_loader ho) = Inr ()"
      by (auto simp: daemon_start_def Let_def split: sum.splits prod.splits if_splits)
    have "daemon_ok n e" if "maps_ok n (ho_maps ho)" "\<forall>content. ho_file ho (db_path ho) = Some content \<longrightarrow> db_ok content"
      using open_store_ok [OF st(1) that(2)] that(1)
      by (simp add: daemon_ok_def st(2,3) drain_ok_def drain_new_def hub_ok_default)
    then show ?thesis using starts removed st opened_file [OF st(1)] Inr by (auto simp: drain_new_def)
  qed (use starts removed in auto)
qed

definition demo_host :: host where
  "demo_host = \<lparr>ho_db_env = None, ho_socket_env = None, ho_bpf_env = None, ho_mkdir = (\<lambda>_. True),
     ho_file = (\<lambda>_. Some empty_db), ho_db_faults = (False, False, False), ho_version_fault = False,
     ho_kind = (\<lambda>_. Some A_Socket), ho_unlink = (\<lambda>_. True), ho_bind = (\<lambda>_. True), ho_chmod = (\<lambda>_. True),
     ho_loader = \<lparr>ld_object = (\<lambda>_. False), ld_btf = True, ld_program = (\<lambda>_. True), ld_kind = (\<lambda>_. True),
       ld_load = (\<lambda>_. True), ld_attach = (\<lambda>_. True), ld_map = (\<lambda>_. True), ld_map_kind = (\<lambda>_. True), ld_spawn = True\<rparr>,
     ho_rollup_thread = True, ho_maps = empty_maps, ho_instant = 0\<rparr>"

text \<open>The kernel part does not load; the stale socket is removed; the daemon serves.\<close>

lemma daemon_starts_carefully_witness:
  "\<exists>d. daemon_start demo_host = Inr d \<and> \<not> dm_live d \<and> daemon_ok 2 d \<and> snd (clear_socket demo_host SOCKET_PATH)"
proof -
  have "case daemon_start demo_host of Inr d \<Rightarrow> True | Inl _ \<Rightarrow> False" by code_simp
  then obtain d where d: "daemon_start demo_host = Inr d" by (auto split: sum.splits)
  have "collector_start (ho_bpf_env demo_host) (ho_loader demo_host) \<noteq> Inr ()"
    by (simp add: collector_start_def demo_host_def Let_def)
  moreover have "maps_ok 2 (ho_maps demo_host)" "\<forall>content. ho_file demo_host (db_path demo_host) = Some content \<longrightarrow> db_ok content"
    using empty_db_ok by (simp_all add: demo_host_def maps_ok_def empty_maps_def)
  moreover have "snd (clear_socket demo_host SOCKET_PATH)" by (simp add: clear_socket_def demo_host_def)
  ultimately show ?thesis using daemon_starts_carefully [of demo_host d 2] d by blast
qed

end
