(* ===== verification/Demo.thy ===== *)
theory Demo
  imports Server
begin

text \<open>
  The demo daemon (\<open>procflowd/examples/demo.rs\<close>): the real server over an in-memory store, fed invented
  traffic. Random numbers are the xorshift of the code on 64-bit words; the environment, the clock and
  the failures of the database are arguments.
\<close>

section \<open>Talkers\<close>

record talker =
  ta_comm :: string
  ta_cmdline :: string
  ta_project :: string
  ta_scope :: scope
  ta_rate :: "u64 \<times> u64"
  ta_burst :: u64
  ta_root :: bool

definition TALKERS :: "talker list" where
  "TALKERS = [
    \<lparr>ta_comm = ''firefox'', ta_cmdline = ''firefox'', ta_project = '''', ta_scope = Scope_External,
     ta_rate = (1800000, 90000), ta_burst = 2, ta_root = False\<rparr>,
    \<lparr>ta_comm = ''node'', ta_cmdline = ''node server.js --port 3000'', ta_project = ''code/storefront'',
     ta_scope = Scope_External, ta_rate = (40000, 310000), ta_burst = 3, ta_root = False\<rparr>,
    \<lparr>ta_comm = ''node'', ta_cmdline = ''node server.js --port 3000'', ta_project = ''code/storefront'',
     ta_scope = Scope_Loopback, ta_rate = (600000, 600000), ta_burst = 2, ta_root = False\<rparr>,
    \<lparr>ta_comm = ''postgres'', ta_cmdline = ''postgres -D data'', ta_project = ''code/storefront'',
     ta_scope = Scope_Loopback, ta_rate = (500000, 700000), ta_burst = 2, ta_root = False\<rparr>,
    \<lparr>ta_comm = ''cargo'', ta_cmdline = ''cargo build'', ta_project = ''code/procflow'',
     ta_scope = Scope_External, ta_rate = (4000000, 20000), ta_burst = 30, ta_root = False\<rparr>,
    \<lparr>ta_comm = ''git'', ta_cmdline = ''git fetch origin'', ta_project = ''code/procflow'',
     ta_scope = Scope_External, ta_rate = (900000, 8000), ta_burst = 45, ta_root = False\<rparr>,
    \<lparr>ta_comm = ''spotify'', ta_cmdline = ''spotify'', ta_project = '''', ta_scope = Scope_External,
     ta_rate = (160000, 4000), ta_burst = 1, ta_root = False\<rparr>,
    \<lparr>ta_comm = ''curl'', ta_cmdline = '''', ta_project = '''', ta_scope = Scope_External,
     ta_rate = (250000, 1000), ta_burst = 20, ta_root = False\<rparr>,
    \<lparr>ta_comm = ''sshd'', ta_cmdline = ''sshd: backup'', ta_project = '''', ta_scope = Scope_External,
     ta_rate = (30000, 2500000), ta_burst = 10, ta_root = True\<rparr>]"

text \<open>\<open>Random::next\<close>: the number drawn is the new state.\<close>

definition random_next :: "u64 \<Rightarrow> u64" where
  "random_next r =
     (let r = r XOR push_bit 13 r; r = r XOR drop_bit 7 r in r XOR push_bit 17 r)"

definition random_bytes :: "talker \<Rightarrow> u64 \<Rightarrow> u64 \<Rightarrow> (u64 \<times> u64) \<times> u64" where
  "random_bytes t seconds r =
     (let r1 = random_next r; busy = (r1 mod ta_burst t = 0);
          r2 = random_next r1; jitter = 50 + r2 mod 100;
          scale = (if busy then jitter else jitter div 25)
      in ((fst (ta_rate t) * seconds * scale div 100, snd (ta_rate t) * seconds * scale div 100), r2))"

definition scope_name_of :: "scope \<Rightarrow> string" where
  "scope_name_of s = (if s = Scope_Loopback then ''loopback'' else ''external'')"


section \<open>Starting\<close>

datatype demo_error = De_Io | De_Db db_error | De_Bind string | De_Panic

record demo_env =
  de_socket :: "string option"
  de_uid :: "u32 option"
  de_user :: "string option"
  de_home :: "string option"
  de_open :: "bool \<times> bool \<times> bool"
  de_upsert :: "nat \<Rightarrow> bool \<times> i64"
  de_minute :: "i64 \<Rightarrow> i64 \<Rightarrow> bool"
  de_nanos :: int
  de_rollup :: rollup_faults
  de_bind :: "string \<Rightarrow> bool"

definition demo_socket :: "demo_env \<Rightarrow> string" where
  "demo_socket e = (case de_socket e of Some p \<Rightarrow> p | None \<Rightarrow> ''/tmp/procflow-demo.sock'')"

definition talker_record :: "u32 \<Rightarrow> string \<Rightarrow> string \<Rightarrow> talker \<Rightarrow> identity_record" where
  "talker_record uid user home t =
     (let unresolved = (ta_cmdline t = []) in
      \<lparr>ir_uid = (if ta_root t then 0 else uid),
       ir_unit = ''/user.slice/app.slice'',
       ir_exe = (if unresolved then ''<unresolved>'' else ''/usr/bin/'' @ ta_comm t),
       ir_project = (if unresolved then ''<unresolved>''
                     else if ta_project t = [] then ''<none>'' else home @ ''/'' @ ta_project t),
       ir_cmdline = (if unresolved then ''<unresolved:'' @ ta_comm t @ ''>'' else ta_cmdline t),
       ir_comm = ta_comm t, ir_raw_cmdline = ta_cmdline t,
       ir_username = Some (if ta_root t then ''root'' else user)\<rparr>)"

text \<open>The upserts in order, up to the first that fails.\<close>

fun seed_identities ::
    "(nat \<Rightarrow> bool \<times> i64) \<Rightarrow> nat \<Rightarrow> identity_record list \<Rightarrow> store \<Rightarrow> (demo_error + i64 list) \<times> store" where
  "seed_identities f n [] st = (Inr [], st)"
| "seed_identities f n (r # rs) st =
     (case upsert_identity (fst (f n)) (snd (f n)) r st of
        (Inl e, st) \<Rightarrow> (Inl (De_Db e), st)
      | (Inr i, st) \<Rightarrow>
          (case seed_identities f (n + 1) rs st of
             (Inl e, st) \<Rightarrow> (Inl e, st)
           | (Inr ids, st) \<Rightarrow> (Inr (i # ids), st)))"

definition history_buckets :: "i64 \<Rightarrow> (i64 \<times> u64) list" where
  "history_buckets now =
     (let minute = now - now mod 60
      in map (\<lambda>step. (minute - int step * 12 * 3600, 1800)) [1..<35 * 2]
         @ map (\<lambda>minutes_ago. (minute - int minutes_ago * 60, 60)) [1..<45])"

fun seed_bucket ::
    "(i64 \<Rightarrow> i64 \<Rightarrow> bool) \<Rightarrow> i64 \<times> u64 \<Rightarrow> (talker \<times> i64) list \<Rightarrow> u64 \<times> store \<Rightarrow> (demo_error + unit) \<times> u64 \<times> store" where
  "seed_bucket fault bs [] (r, st) = (Inr (), r, st)"
| "seed_bucket fault (bucket, seconds) ((t, i) # rest) (r, st) =
     (case random_bytes t seconds r of
        ((ib, eb), r) \<Rightarrow>
          (case record_minute (fault bucket i) bucket i (scope_name_of (ta_scope t)) ib eb st of
             (Inl e, st) \<Rightarrow> (Inl (De_Db e), r, st)
           | (Inr _, st) \<Rightarrow> seed_bucket fault (bucket, seconds) rest (r, st)))"

fun seed_history ::
    "(i64 \<Rightarrow> i64 \<Rightarrow> bool) \<Rightarrow> (i64 \<times> u64) list \<Rightarrow> (talker \<times> i64) list \<Rightarrow> u64 \<times> store \<Rightarrow> (demo_error + unit) \<times> u64 \<times> store" where
  "seed_history fault [] tis s = (Inr (), s)"
| "seed_history fault (b # bs) tis s =
     (case seed_bucket fault b tis s of
        (Inl e, s) \<Rightarrow> (Inl e, s)
      | (Inr _, s) \<Rightarrow> seed_history fault bs tis s)"

definition SEED :: u64 where "SEED = 0x9E3779B97F4A7C15"

record demo =
  dd_server :: server
  dd_ids :: "i64 list"
  dd_random :: u64

text \<open>
  \<open>main\<close> up to the accept loop; the result is \<open>None\<close> only if the rollup did not return.
\<close>

definition demo_start :: "'d chrono \<Rightarrow> demo_env \<Rightarrow> (demo_error + demo) option" where
  "demo_start ch e =
     (case de_uid e of None \<Rightarrow> Some (Inl De_Io) | Some uid \<Rightarrow>
      let user = (case de_user e of Some u \<Rightarrow> u | None \<Rightarrow> ''demo'');
          home = (case de_home e of Some h \<Rightarrow> h | None \<Rightarrow> ''/home/demo'') in
      case open_in_memory (fst (de_open e)) (fst (snd (de_open e))) (snd (snd (de_open e))) of
        Inl x \<Rightarrow> Some (Inl (De_Db x)) | Inr st \<Rightarrow>
      case seed_identities (de_upsert e) 0 (map (talker_record uid user home) TALKERS) st of
        (Inl x, _) \<Rightarrow> Some (Inl x) | (Inr ids, st) \<Rightarrow>
      case now_s (de_nanos e) of None \<Rightarrow> Some (Inl De_Panic) | Some now \<Rightarrow>
      case seed_history (de_minute e) (history_buckets now) (zip TALKERS ids) (SEED, st) of
        (Inl x, _) \<Rightarrow> Some (Inl x) | (Inr _, r, st) \<Rightarrow>
      case rollup ch (de_rollup e) now st of
        None \<Rightarrow> None
      | Some (Inl x, _) \<Rightarrow> Some (Inl (De_Db x))
      | Some (Inr _, st) \<Rightarrow>
          if de_bind e (demo_socket e)
          then Some (Inr \<lparr>dd_server = \<lparr>sv_store = st, sv_poisoned = False, sv_live = Some default_hub, sv_demo = True\<rparr>,
                          dd_ids = ids, dd_random = r\<rparr>)
          else Some (Inl (De_Bind (''binding '' @ demo_socket e))))"


section \<open>The feed\<close>

text \<open>One turn of the thread that stands in for the collector; a failed write is reported and skipped.\<close>

fun feed_deltas ::
    "(i64 \<Rightarrow> i64 \<Rightarrow> bool) \<Rightarrow> i64 \<Rightarrow> (talker \<times> i64) list \<Rightarrow> u64 \<times> store \<Rightarrow> delta list \<times> u64 \<times> store" where
  "feed_deltas fault now [] (r, st) = ([], r, st)"
| "feed_deltas fault now ((t, i) # rest) (r, st) =
     (case random_bytes t 1 r of
        ((ib, eb), r) \<Rightarrow>
          (case record_minute (fault now i) (now - now mod 60) i (scope_name_of (ta_scope t)) ib eb st of
             (_, st) \<Rightarrow>
               (case feed_deltas fault now rest (r, st) of
                  (ds, s) \<Rightarrow>
                    (\<lparr>dl_identity_id = i, dl_scope = ta_scope t, dl_ingress = ib, dl_egress = eb\<rparr> # ds, s))))"

definition feed_tick :: "(i64 \<Rightarrow> i64 \<Rightarrow> bool) \<Rightarrow> int \<Rightarrow> demo \<Rightarrow> demo option" where
  "feed_tick fault nanos d =
     (case now_s nanos of None \<Rightarrow> None | Some now \<Rightarrow>
      if sv_poisoned (dd_server d) then None
      else case feed_deltas fault now (zip TALKERS (dd_ids d)) (dd_random d, sv_store (dd_server d)) of
             (deltas, r, st) \<Rightarrow>
               let tick = \<lparr>tk_at_unix_ms = now * 1000, tk_interval_ms = 1000, tk_deltas = deltas\<rparr>
               in Some (d\<lparr>dd_random := r,
                         dd_server := (dd_server d)\<lparr>sv_store := st,
                           sv_live := map_option (publish tick) (sv_live (dd_server d))\<rparr>\<rparr>))"


section \<open>What is invented is sound\<close>

text \<open>No talker's arithmetic wraps for the spans the demo uses, and the bytes stay below one and a half times
  the talker's rate.\<close>

lemma talker_rates: "t \<in> set TALKERS \<Longrightarrow> uint (fst (ta_rate t)) \<le> 4000000 \<and> uint (snd (ta_rate t)) \<le> 4000000 \<and> ta_burst t \<noteq> 0"
  by (auto simp: TALKERS_def)

lemma scaled_rate:
  fixes a s x :: u64
  assumes "uint a \<le> 4000000" "uint s \<le> 1800" "uint x < 150"
  shows "uint (a * s * x div 100) = uint a * uint s * uint x div 100"
proof -
  have as: "uint a * uint s \<le> 4000000 * 1800" using assms by (intro mult_mono) simp_all
  have asx: "uint a * uint s * uint x \<le> 4000000 * 1800 * 150"
    by (intro mult_mono [OF as]) (use assms in simp_all)
  have "uint (a * s) = uint a * uint s" using as by (simp add: uint_word_ariths(3))
  then have "uint (a * s * x) = uint a * uint s * uint x" using asx by (simp add: uint_word_ariths(3))
  then show ?thesis by (simp add: uint_div)
qed

lemma random_bytes_bounded:
  assumes "t \<in> set TALKERS" "uint seconds \<le> 1800" "random_bytes t seconds r = ((ing, eg), r')"
  shows "100 * uint ing \<le> 149 * (uint (fst (ta_rate t)) * uint seconds)
    \<and> 100 * uint eg \<le> 149 * (uint (snd (ta_rate t)) * uint seconds)"
proof -
  define jitter :: u64 where "jitter = 50 + random_next (random_next r) mod 100"
  define scale where "scale = (if random_next r mod ta_burst t = 0 then jitter else jitter div 25)"
  have "uint (random_next (random_next r) mod 100) < 100" by (simp add: uint_mod)
  then have j: "uint jitter < 150" by (simp add: jitter_def uint_word_ariths(1))
  moreover have "uint jitter div 25 \<le> uint jitter" using zdiv_mono2 [of "uint jitter" 1 25] by simp
  ultimately have s: "uint scale < 150" by (simp add: scale_def uint_div)
  have out: "ing = fst (ta_rate t) * seconds * scale div 100" "eg = snd (ta_rate t) * seconds * scale div 100"
    using assms(3) unfolding random_bytes_def Let_def jitter_def scale_def prod.inject by (metis, metis)
  have le: "x * uint scale \<le> 149 * x" if "0 \<le> x" for x :: int
    using s that mult_left_mono [of "uint scale" 149 x] by (simp add: mult.commute)
  show ?thesis
    using scaled_rate [OF _ assms(2) s] talker_rates [OF assms(1)] out
      le [of "uint (fst (ta_rate t)) * uint seconds"] le [of "uint (snd (ta_rate t)) * uint seconds"]
    by (simp add: mult.assoc) linarith
qed

lemma seed_identities_ok [wf_intro]:
  "store_ok st \<Longrightarrow> seed_identities f n rs st = (res, st') \<Longrightarrow> store_ok st'"
proof (induction rs arbitrary: n st res st')
  case (Cons r rs)
  obtain x st1 where up: "upsert_identity (fst (f n)) (snd (f n)) r st = (x, st1)" by force
  have ok: "store_ok st1" using upsert_identity_ok [OF Cons.prems(1) up] .
  show ?case
  proof (cases x)
    case (Inr i)
    obtain y st2 where rest: "seed_identities f (n + 1) rs st1 = (y, st2)" by force
    have "st' = st2" using Cons.prems(2) up Inr rest by (cases y) simp_all
    then show ?thesis using Cons.IH [OF ok rest] by simp
  qed (use Cons.prems(2) up ok in simp)
qed simp

lemma seed_bucket_ok [wf_intro]:
  "store_ok (snd s) \<Longrightarrow> seed_bucket fault b tis s = (res, s') \<Longrightarrow> store_ok (snd s')"
proof (induction fault b tis s arbitrary: res s' rule: seed_bucket.induct)
  case (2 fault bucket seconds t i rest r st)
  then show ?case by (auto split: prod.splits sum.splits dest: record_minute_ok)
qed simp

lemma seed_history_ok [wf_intro]:
  "store_ok (snd s) \<Longrightarrow> seed_history fault bs tis s = (res, s') \<Longrightarrow> store_ok (snd s')"
proof (induction fault bs tis s arbitrary: res s' rule: seed_history.induct)
  case (2 fault b bs tis s)
  then show ?case by (auto split: prod.splits sum.splits dest: seed_bucket_ok)
qed simp

lemma feed_deltas_ok [wf_intro]:
  "store_ok (snd s) \<Longrightarrow> feed_deltas fault now tis s = (ds, s') \<Longrightarrow> store_ok (snd s')"
proof (induction fault now tis s arbitrary: ds s' rule: feed_deltas.induct)
  case (2 fault now t i rest r st)
  then show ?case by (auto split: prod.splits sum.splits dest: record_minute_ok)
qed simp

lemma open_in_memory_ok: "open_in_memory a b c = Inr st \<Longrightarrow> store_ok st"
proof -
  assume "open_in_memory a b c = Inr st"
  then have st: "db_identity (st_db st) = [] \<and> db_watermark (st_db st) = [] \<and> db_minute (st_db st) = []
      \<and> db_hour (st_db st) = [] \<and> db_day (st_db st) = [] \<and> db_month (st_db st) = []"
    by (auto simp: open_in_memory_def store_init_def migrate_def schema_version_def MIGRATIONS_def init_sql_def
        empty_db_def Let_def split: if_splits)
  then have "tier_table tier (st_db st) = []" for tier by (cases tier) simp_all
  with st show "store_ok st"
    by (simp add: store_ok_def db_ok_def identities_ok_def watermarks_ok_def fact_ok_def)
qed

lemma demo_start_parts:
  assumes "demo_start ch e = Some (Inr d)"
  obtains st ids st1 now r st2 st3 rs where
    "open_in_memory (fst (de_open e)) (fst (snd (de_open e))) (snd (snd (de_open e))) = Inr st"
    "seed_identities (de_upsert e) 0 rs st = (Inr ids, st1)"
    "seed_history (de_minute e) (history_buckets now) (zip TALKERS ids) (SEED, st1) = (Inr (), r, st2)"
    "rollup ch (de_rollup e) now st2 = Some (Inr (), st3)"
    "d = \<lparr>dd_server = \<lparr>sv_store = st3, sv_poisoned = False, sv_live = Some default_hub, sv_demo = True\<rparr>,
          dd_ids = ids, dd_random = r\<rparr>"
  using assms unfolding demo_start_def Let_def
  by (simp split: option.split_asm sum.split_asm prod.split_asm if_split_asm)

lemma demo_start_sound:
  assumes "demo_start ch e = Some (Inr d)"
  shows "store_ok (sv_store (dd_server d)) \<and> sv_demo (dd_server d) \<and> \<not> sv_poisoned (dd_server d)"
  using assms
proof (rule demo_start_parts)
  fix st ids st1 now r st2 st3 rs
  assume open_ok: "open_in_memory (fst (de_open e)) (fst (snd (de_open e))) (snd (snd (de_open e))) = Inr st"
    and seeds: "seed_identities (de_upsert e) 0 rs st = (Inr ids, st1)"
    and hist: "seed_history (de_minute e) (history_buckets now) (zip TALKERS ids) (SEED, st1) = (Inr (), r, st2)"
    and roll: "rollup ch (de_rollup e) now st2 = Some (Inr (), st3)"
    and d: "d = \<lparr>dd_server = \<lparr>sv_store = st3, sv_poisoned = False, sv_live = Some default_hub, sv_demo = True\<rparr>,
          dd_ids = ids, dd_random = r\<rparr>"
  have "store_ok st1" using seed_identities_ok [OF open_in_memory_ok [OF open_ok] seeds] .
  then have "store_ok st2" using seed_history_ok [of "(SEED, st1)", OF _ hist] by simp
  then show "store_ok (sv_store (dd_server d)) \<and> sv_demo (dd_server d) \<and> \<not> sv_poisoned (dd_server d)"
    using rollup_ok [OF _ roll] d by simp
qed

lemma feed_tick_sound:
  assumes "feed_tick fault nanos d = Some d'" "store_ok (sv_store (dd_server d))"
  shows "store_ok (sv_store (dd_server d')) \<and> sv_demo (dd_server d') = sv_demo (dd_server d)"
  using assms feed_deltas_ok [of "(dd_random d, sv_store (dd_server d))"]
  by (auto simp: feed_tick_def Let_def split: option.splits if_splits prod.splits)

end
