(* ===== verification/Fmt.thy ===== *)
theory Fmt
  imports Protocol
begin

text \<open>
  The texts of the client (\<open>procflow/src/fmt.rs\<close>): byte counts in binary units with the double
  arithmetic of the code written out exactly, names of identities, scopes and tiers, cutting at
  characters, and plain-text tables. Strings are their UTF-8 bytes; local time is chrono's, an argument.
\<close>

section \<open>Byte counts\<close>

text \<open>
  \<open>as f64\<close> rounds to 53 significant bits, ties to even. Dividing a double by 1024 is exact, so the
  loop's value is a fraction \<open>v / d\<close> with the converted count above and a power of 1024 below. The
  literal \<open>1023.95\<close> is the double next to it, a multiple of \<open>2 ^ -43\<close>; \<open>{:.1}\<close> rounds the exact value
  to tenths, ties to even.
\<close>

definition round_half_even :: "nat \<Rightarrow> nat \<Rightarrow> nat" where
  "round_half_even n d =
     (let q = n div d; r = n mod d
      in if 2 * r < d then q else if d < 2 * r then q + 1 else if even q then q else q + 1)"

fun bit_len :: "nat \<Rightarrow> nat" where
  "bit_len n = (if n = 0 then 0 else Suc (bit_len (n div 2)))"

declare bit_len.simps [simp del]

definition f64_of :: "nat \<Rightarrow> nat" where
  "f64_of n = (let e = bit_len n - 53 in round_half_even n (2 ^ e) * 2 ^ e)"

definition F64_1023_95 :: nat where
  "F64_1023_95 = round_half_even (20479 * 2 ^ 43) 20"

definition UNITS :: "string list" where
  "UNITS = [''KiB'', ''MiB'', ''GiB'', ''TiB'', ''PiB'']"

function unit_loop :: "nat \<Rightarrow> nat \<Rightarrow> nat \<Rightarrow> nat \<times> nat" where
  "unit_loop v d unit =
     (if F64_1023_95 * d \<le> v * 2 ^ 43 \<and> unit < length UNITS - 1
      then unit_loop v (d * 1024) (unit + 1) else (d, unit))"
  by pat_completeness auto
termination
  by (relation "measure (\<lambda>(v, d, unit). length UNITS - 1 - unit)") auto

declare unit_loop.simps [simp del]

text \<open>\<open>{:.1}\<close> of the double \<open>v / d\<close>.\<close>

definition one_decimal :: "nat \<Rightarrow> nat \<Rightarrow> string" where
  "one_decimal v d =
     (let t = round_half_even (10 * v) d in dec (t div 10) @ ''.'' @ dec (t mod 10))"

definition human_bytes :: "u64 \<Rightarrow> string" where
  "human_bytes bytes =
     (if bytes < 1024 then dec (unat bytes) @ '' B''
      else let v = f64_of (unat bytes); (d, unit) = unit_loop v 1024 0
           in one_decimal v d @ '' '' @ UNITS ! unit)"


section \<open>Names\<close>

definition basename :: "string \<Rightarrow> string" where
  "basename path =
     (let last_part = last (split_on (CHR ''/'') (trim_end_matches ''/'' path))
      in if last_part = [] then path else last_part)"

text \<open>The argument is \<open>HOME\<close>, absent or not Unicode as \<open>None\<close>.\<close>

definition tilde :: "string option \<Rightarrow> string \<Rightarrow> string" where
  "tilde home_var path =
     (let home = (case home_var of None \<Rightarrow> [] | Some h \<Rightarrow> h)
      in case strip_prefix home path of
           None \<Rightarrow> path
         | Some rest \<Rightarrow>
             if home \<noteq> [] \<and> (rest = [] \<or> starts_with ''/'' rest) then ''~'' @ rest else path)"

definition fmt_name :: "identity \<Rightarrow> string" where
  "fmt_name i = (if id_comm i = [] then basename (id_exe i) else id_comm i)"

definition fmt_project :: "identity \<Rightarrow> string" where
  "fmt_project i = (if id_project i = ''<none>'' then ''-'' else basename (id_project i))"

definition fmt_user :: "identity \<Rightarrow> string" where
  "fmt_user i =
     (if id_username i = [] then
        (if id_uid i = - 1 then ''?'' else dec (unat (id_uid i)))
      else id_username i)"

fun fmt_scope :: "scope \<Rightarrow> string" where
  "fmt_scope Scope_Loopback = ''loopback''"
| "fmt_scope Scope_All = ''all''"
| "fmt_scope Scope_External = ''external''"
| "fmt_scope Scope_Unspecified = ''external''"

fun fmt_tier :: "tier \<Rightarrow> string" where
  "fmt_tier Tier_Minute = ''minute''"
| "fmt_tier Tier_Hour = ''hour''"
| "fmt_tier Tier_Day = ''day''"
| "fmt_tier Tier_Month = ''month''"
| "fmt_tier Tier_Unspecified = ''auto''"


section \<open>Local time\<close>

text \<open>
  What the client calls of chrono to print an instant in milliseconds: whether it is in range of
  \<open>from_timestamp_millis\<close>, and \<open>format\<close> and \<open>to_rfc3339_opts\<close> of the local time of one that is.
\<close>

record wall =
  wl_in_range :: "i64 \<Rightarrow> bool"
  wl_format :: "string \<Rightarrow> i64 \<Rightarrow> string"
  wl_rfc3339 :: "i64 \<Rightarrow> string"

text \<open>\<open>local\<close>, as the instant it stands for: the epoch when out of range.\<close>

definition fmt_local :: "wall \<Rightarrow> i64 \<Rightarrow> i64" where
  "fmt_local wl unix_ms = (if wl_in_range wl unix_ms then unix_ms else 0)"

definition bucket_format :: "tier \<Rightarrow> string" where
  "bucket_format t =
     (case t of
        Tier_Day \<Rightarrow> ''%Y-%m-%d''
      | Tier_Month \<Rightarrow> ''%Y-%m''
      | _ \<Rightarrow> ''%Y-%m-%d %H:%M'')"

definition fmt_bucket :: "wall \<Rightarrow> i64 \<Rightarrow> tier \<Rightarrow> string" where
  "fmt_bucket wl unix_ms t = wl_format wl (bucket_format t) (fmt_local wl unix_ms)"


section \<open>Cutting and tables\<close>

text \<open>\<open>chars\<close>: the bytes of each code point.\<close>

function chars :: "string \<Rightarrow> string list" where
  "chars [] = []"
| "chars (c # cs) = (c # takeWhile is_cont cs) # chars (dropWhile is_cont cs)"
  by pat_completeness auto
termination
  by (relation "measure length") (auto simp: le_imp_less_Suc length_dropWhile_le)

definition ELLIPSIS :: string where
  "ELLIPSIS = map char_of [0xE2, 0x80, 0xA6 :: nat]"

definition ellipsis :: "string \<Rightarrow> nat \<Rightarrow> string" where
  "ellipsis text max_chars =
     (if length (chars text) \<le> max_chars then text
      else concat (take (max_chars - 1) (chars text)) @ ELLIPSIS)"

definition text_width :: "string \<Rightarrow> nat" where
  "text_width text = length (chars text)"

definition spaces :: "nat \<Rightarrow> string" where
  "spaces n = replicate n (CHR '' '')"

definition pad_cell :: "bool \<Rightarrow> nat \<Rightarrow> string \<Rightarrow> string" where
  "pad_cell right w cell =
     (let pad = spaces (w - text_width cell) in if right then pad @ cell else cell @ pad)"

definition col_width :: "string list \<Rightarrow> string list list \<Rightarrow> nat \<Rightarrow> nat" where
  "col_width headers rs col = fold max (map (\<lambda>row. text_width (row ! col)) rs) (text_width (headers ! col))"

definition table_cells :: "nat list \<Rightarrow> nat list \<Rightarrow> string list \<Rightarrow> string list" where
  "table_cells right widths cells =
     map (\<lambda>(col, cell). pad_cell (col \<in> set right) (widths ! col) cell) (enumerate 0 cells)"

definition table_line :: "nat list \<Rightarrow> nat list \<Rightarrow> string list \<Rightarrow> string" where
  "table_line right widths cells = trim_end (join ''  '' (table_cells right widths cells))"

text \<open>
  A row shorter than the header panics where the widths are taken, a longer one where its line is
  built; a panic is \<open>None\<close>.
\<close>

definition table :: "string list \<Rightarrow> nat list \<Rightarrow> string list list \<Rightarrow> string option" where
  "table headers right rs =
     (if list_all (\<lambda>row. length row = length headers) rs
      then let widths = map (col_width headers rs) [0..<length headers]
           in Some (join [CHR 0x0A] (map (table_line right widths) (headers # rs)))
      else None)"


section \<open>Rounding\<close>

lemma round_half_even_bounds:
  assumes "0 < d"
  shows "2 * (round_half_even n d * d) \<le> 2 * n + d" "2 * n \<le> 2 * (round_half_even n d * d) + d"
proof -
  have n: "n = n div d * d + n mod d" by simp
  have r: "n mod d < d" using assms by simp
  show "2 * (round_half_even n d * d) \<le> 2 * n + d" "2 * n \<le> 2 * (round_half_even n d * d) + d"
    using n r by (simp_all add: round_half_even_def Let_def add_mult_distrib, linarith+)
qed

lemma round_half_even_le: "0 < d \<Longrightarrow> 2 * n < (2 * m + 1) * d \<Longrightarrow> round_half_even n d \<le> m"
proof -
  assume d: "0 < d" and lt: "2 * n < (2 * m + 1) * d"
  have "2 * (round_half_even n d * d) < (2 * m + 1) * d + d"
    using round_half_even_bounds(1) [OF d, of n] lt by linarith
  then have "round_half_even n d * d < (m + 1) * d" by (simp add: algebra_simps)
  then have "round_half_even n d < m + 1" using d by (simp only: mult_less_cancel2)
  then show ?thesis by simp
qed

lemma round_half_even_ge: "0 < d \<Longrightarrow> (2 * m - 1) * d < 2 * n \<Longrightarrow> 0 < m \<Longrightarrow> m \<le> round_half_even n d"
proof -
  assume d: "0 < d" and lt: "(2 * m - 1) * d < 2 * n" and m: "0 < m"
  have "(2 * m - 1) * d + d = 2 * m * d" using m by (cases m) (simp_all add: algebra_simps)
  then have "2 * (m * d) < 2 * (round_half_even n d * d) + 2 * d"
    using round_half_even_bounds(2) [OF d, of n] lt by simp
  then have "m * d < (round_half_even n d + 1) * d" by (simp add: algebra_simps)
  then have "m < round_half_even n d + 1" using d by (simp only: mult_less_cancel2)
  then show ?thesis by simp
qed

lemma round_half_even_mult: "0 < d \<Longrightarrow> m * d \<le> n \<Longrightarrow> m \<le> round_half_even n d"
  using less_eq_div_iff_mult_less_eq [of d m n] by (simp add: round_half_even_def Let_def)

lemma bit_len_bound: "n < 2 ^ bit_len n"
proof (induction n rule: bit_len.induct)
  case (1 n)
  then show ?case
    by (cases "n = 0") (simp_all add: bit_len.simps [of n])
qed

lemma bit_len_le: "n < 2 ^ k \<Longrightarrow> bit_len n \<le> k"
proof (induction n arbitrary: k rule: bit_len.induct)
  case (1 n)
  show ?case
  proof (cases "n = 0")
    case False
    then have "k \<noteq> 0" using "1.prems" by (cases k) auto
    then obtain j where k: "k = Suc j" by (cases k) auto
    have "n div 2 < 2 ^ j" using "1.prems" k by simp
    then show ?thesis using "1.IH" [OF False] False k by (simp add: bit_len.simps [of n])
  qed (simp add: bit_len.simps)
qed

lemma bit_len_ge: "2 ^ k \<le> n \<Longrightarrow> k < bit_len n"
  using bit_len_bound [of n] by (metis leI le_less_trans linorder_not_less power_increasing one_le_numeral)

lemma f64_of_small: "n < 2 ^ 53 \<Longrightarrow> f64_of n = n"
  using bit_len_le [of n 53] by (simp add: f64_of_def round_half_even_def)

lemma f64_of_bounds:
  assumes "n < 2 ^ 64"
  shows "f64_of n \<le> n + 1024" "n \<le> f64_of n + 1024"
proof -
  let ?e = "bit_len n - 53"
  have "?e \<le> 11" using bit_len_le [OF assms] by simp
  then have e: "(2 :: nat) ^ ?e \<le> 2 ^ 11" by (rule power_increasing) simp
  show "f64_of n \<le> n + 1024" "n \<le> f64_of n + 1024"
    using round_half_even_bounds [of "2 ^ ?e" n] e by (simp_all add: f64_of_def Let_def)
qed

lemma f64_of_big:
  assumes "2 ^ 53 \<le> n" "n < 2 ^ 64" shows "2 ^ 53 \<le> f64_of n"
proof -
  define e where "e = bit_len n - 53"
  have len: "bit_len n = e + 53" "0 < e" using bit_len_ge [OF assms(1)] by (simp_all add: e_def)
  have "\<not> n < 2 ^ (e + 52)" using bit_len_le [of n "e + 52"] len by auto
  then have "2 ^ 52 * 2 ^ e \<le> n" by (simp only: not_less power_add mult.commute)
  then have ge: "2 ^ 52 \<le> round_half_even n (2 ^ e)" by (intro round_half_even_mult) simp_all
  have "(2 :: nat) ^ 1 \<le> 2 ^ e" using len by (intro power_increasing) simp_all
  then have "(2 :: nat) ^ 52 * 2 \<le> round_half_even n (2 ^ e) * 2 ^ e"
    using ge by (intro mult_mono) simp_all
  then show ?thesis by (simp add: f64_of_def e_def Let_def)
qed

lemma F64_1023_95_value: "F64_1023_95 = 9006759450089882"
  by (simp add: F64_1023_95_def round_half_even_def)

lemma unit_loop_spec:
  "unit_loop v d k = (d', u) \<Longrightarrow> d = 1024 ^ (k + 1) \<Longrightarrow> k \<le> 4 \<Longrightarrow>
     k \<le> u \<and> u \<le> 4 \<and> d' = 1024 ^ (u + 1) \<and> (u < 4 \<longrightarrow> \<not> F64_1023_95 * d' \<le> v * 2 ^ 43)
     \<and> (k < u \<longrightarrow> F64_1023_95 * 1024 ^ u \<le> v * 2 ^ 43)"
proof (induction v d k rule: unit_loop.induct)
  case (1 v d k)
  have len: "length UNITS - 1 = 4" by (simp add: UNITS_def)
  show ?case
  proof (cases "F64_1023_95 * d \<le> v * 2 ^ 43 \<and> k < 4")
    case True
    then have run: "unit_loop v (d * 1024) (k + 1) = (d', u)"
      using "1.prems"(1) unit_loop.simps [of v d k] unfolding len by presburger
    have pow: "d * 1024 = 1024 ^ (k + 1 + 1)" using "1.prems"(2) by simp
    have "k + 1 \<le> u \<and> u \<le> 4 \<and> d' = 1024 ^ (u + 1) \<and> (u < 4 \<longrightarrow> \<not> F64_1023_95 * d' \<le> v * 2 ^ 43)
       \<and> (k + 1 < u \<longrightarrow> F64_1023_95 * 1024 ^ u \<le> v * 2 ^ 43)"
      by (rule "1.IH" [unfolded len, OF True run pow]) (use True in simp)
    moreover have "F64_1023_95 * 1024 ^ u \<le> v * 2 ^ 43" if "u = k + 1"
      using True "1.prems"(2) that by (simp only:)
    ultimately show ?thesis
      by (metis Suc_eq_plus1 Suc_leD Suc_leI le_neq_implies_less)
  next
    case False
    then have "(d', u) = (d, k)"
      using "1.prems"(1) unit_loop.simps [of v d k] unfolding len by presburger
    with False "1.prems"(2,3) show ?thesis by (metis less_irrefl order_refl prod.inject)
  qed
qed

lemma unit_loop_start:
  assumes "unit_loop v 1024 0 = (d, u)"
  shows "u \<le> 4" "d = 1024 ^ (u + 1)" "u < 4 \<Longrightarrow> \<not> F64_1023_95 * d \<le> v * 2 ^ 43"
    "0 < u \<Longrightarrow> F64_1023_95 * 1024 ^ u \<le> v * 2 ^ 43"
proof -
  have "(1024 :: nat) = 1024 ^ (0 + 1)" "(0 :: nat) \<le> 4" by simp_all
  from unit_loop_spec [OF assms this] show "u \<le> 4" "d = 1024 ^ (u + 1)"
    "u < 4 \<Longrightarrow> \<not> F64_1023_95 * d \<le> v * 2 ^ 43" "0 < u \<Longrightarrow> F64_1023_95 * 1024 ^ u \<le> v * 2 ^ 43"
    by blast+
qed

lemma human_bytes_unit:
  fixes n :: nat
  assumes "1024 \<le> n" "n < 2 ^ 64" "unit_loop (f64_of n) 1024 0 = (d, u)" "u < 4"
  shows "f64_of n = n \<and> round_half_even (10 * n) d < 10240"
proof -
  let ?v = "f64_of n"
  note spec = unit_loop_start(1,2) [OF assms(3)] unit_loop_start(3) [OF assms(3,4)]
  have "u = 0 \<or> u = 1 \<or> u = 2 \<or> u = 3" using assms(4) by linarith
  then have v: "20 * ?v < 20479 * d" and small: "?v < 2 ^ 53"
    using spec(2,3) unfolding F64_1023_95_value by (elim disjE; simp)+
  have n: "?v = n"
    using small f64_of_big [OF _ assms(2)] f64_of_small [of n] by (cases "n < 2 ^ 53") auto
  moreover have "round_half_even (10 * n) d \<le> 10239"
    using v n spec(2) by (intro round_half_even_le) simp_all
  ultimately show ?thesis by simp
qed

lemma human_bytes_tenths:
  assumes "1024 \<le> n" "n < 2 ^ 64" "unit_loop (f64_of n) 1024 0 = (d, u)"
  shows "10 \<le> round_half_even (10 * f64_of n) d"
proof -
  let ?v = "f64_of n"
  note spec = unit_loop_start(1,2,4) [OF assms(3)]
  have "1024 \<le> ?v" using f64_of_small [of n] f64_of_big [OF _ assms(2)] assms(1) by (cases "n < 2 ^ 53") auto
  moreover have "u = 0 \<or> u = 1 \<or> u = 2 \<or> u = 3 \<or> u = 4" using spec(1) by linarith
  ultimately have "19 * d < 20 * ?v"
    using spec(2,3) unfolding F64_1023_95_value by (elim disjE; simp)
  then show ?thesis using spec(2) by (intro round_half_even_ge) simp_all
qed

section \<open>Widths\<close>

text \<open>A string that does not start inside a character; every Rust string is one.\<close>

definition at_char :: "string \<Rightarrow> bool" where
  "at_char s \<longleftrightarrow> s = [] \<or> \<not> is_cont (hd s)"

lemma chars_append: "at_char t \<Longrightarrow> chars (s @ t) = chars s @ chars t"
proof (induction s rule: chars.induct)
  case (2 c cs)
  have cut: "takeWhile is_cont (cs @ t) = takeWhile is_cont cs"
    "dropWhile is_cont (cs @ t) = dropWhile is_cont cs @ t"
    using 2(2) by (induction cs) (cases t; auto simp: at_char_def)+
  show ?case using 2 by (simp add: cut)
qed simp

lemma text_width_append: "at_char t \<Longrightarrow> text_width (s @ t) = text_width s + text_width t"
  by (simp add: text_width_def chars_append)

lemma space_not_cont [simp]: "\<not> is_cont (CHR '' '')"
  by (simp add: is_cont_def)

lemma text_width_spaces [simp]: "text_width (spaces n) = n"
proof (induction n)
  case (Suc n)
  have "dropWhile is_cont (spaces n) = spaces n" "takeWhile is_cont (spaces n) = []"
    by (cases n; simp add: spaces_def)+
  with Suc show ?case by (simp add: spaces_def text_width_def)
qed (simp add: spaces_def text_width_def)

lemma at_char_spaces: "at_char (spaces n)"
  by (cases n) (simp_all add: at_char_def spaces_def)

lemma at_char_append: "at_char s \<Longrightarrow> at_char t \<Longrightarrow> at_char (s @ t)"
  by (cases s) (simp_all add: at_char_def)

lemma text_width_pad_cell:
  "at_char cell \<Longrightarrow> text_width cell \<le> w \<Longrightarrow> text_width (pad_cell right w cell) = w \<and> at_char (pad_cell right w cell)"
  by (auto simp: pad_cell_def Let_def text_width_append at_char_spaces at_char_append)

lemma text_width_join:
  "list_all at_char ts \<Longrightarrow>
   text_width (join ''  '' ts) = sum_list (map text_width ts) + 2 * (length ts - 1) \<and> at_char (join ''  '' ts)"
proof (induction "''  ''" ts rule: join.induct)
  case (3 t u ts)
  have two: "''  '' = spaces 2" by (simp add: spaces_def numeral_2_eq_2)
  show ?case using 3
    by (simp add: two text_width_append at_char_append at_char_spaces)
qed (simp_all add: text_width_def at_char_def)

lemma fold_max_ge: "a \<le> fold max xs (a :: nat)" "x \<in> set xs \<Longrightarrow> x \<le> fold max xs a"
  by (induction xs arbitrary: a) (auto intro: max.coboundedI1 order_trans [OF max.cobounded2] order_trans [OF max.cobounded1])

lemma col_width_ge: "row \<in> set (headers # rs) \<Longrightarrow> text_width (row ! col) \<le> col_width headers rs col"
  by (auto simp: col_width_def intro: fold_max_ge)

text \<open>Before trailing blanks are cut every line of a table is equally wide.\<close>

lemma table_lines_align:
  assumes "row \<in> set (headers # rs)" "list_all (\<lambda>r. length r = length headers) rs" "list_all at_char row"
  shows "text_width (join ''  '' (table_cells right (map (col_width headers rs) [0..<length headers]) row))
    = sum_list (map (col_width headers rs) [0..<length headers]) + 2 * (length headers - 1)"
proof -
  let ?ws = "map (col_width headers rs) [0..<length headers]"
  let ?cells = "table_cells right ?ws row"
  have len: "length row = length headers" using assms(1,2) by (auto simp: list_all_iff)
  have cell: "text_width (?cells ! c) = ?ws ! c \<and> at_char (?cells ! c)" if "c < length headers" for c
  proof -
    have "at_char (row ! c)" using assms(3) that len by (simp add: list_all_length)
    then show ?thesis
      using text_width_pad_cell [OF _ col_width_ge [OF assms(1), of c]] that len
      by (simp add: table_cells_def nth_enumerate_eq)
  qed
  have lens: "length ?cells = length headers" using len by (simp add: table_cells_def)
  have "list_all at_char ?cells" using cell lens by (simp add: list_all_length)
  moreover have "map text_width ?cells = ?ws"
    using cell lens by (intro nth_equalityI) simp_all
  ultimately show ?thesis using text_width_join [of ?cells] lens by simp
qed


section \<open>Properties\<close>

text \<open>C38. Byte counts are printed faithfully for every 64-bit count: below 1024 the count itself, and
  otherwise one decimal of the largest unit that does not print as a thousand and twenty-four of it:
  at least 1.0, below 1024.0 of every unit but the last, and within half a tenth of the true value (in
  the last unit, plus what the conversion to a double loses).\<close>

theorem human_bytes_readable:
  fixes n :: u64
  shows "(n < 1024 \<longrightarrow> human_bytes n = dec (unat n) @ '' B'') \<and>
   (1024 \<le> n \<longrightarrow> (\<exists>u t. u \<le> 4 \<and> human_bytes n = dec (t div 10) @ ''.'' @ dec (t mod 10) @ '' '' @ UNITS ! u
     \<and> 10 \<le> t \<and> (u < 4 \<longrightarrow> t < 10240)
     \<and> 2 * (t * 1024 ^ (u + 1)) \<le> 20 * (unat n + (if u < 4 then 0 else 1024)) + 1024 ^ (u + 1)
     \<and> 20 * unat n \<le> 2 * (t * 1024 ^ (u + 1)) + 1024 ^ (u + 1) + (if u < 4 then 0 else 20 * 1024)))"
proof (intro conjI impI)
  show "human_bytes n = dec (unat n) @ '' B''" if "n < 1024" using that by (simp add: human_bytes_def)
  assume big: "1024 \<le> n"
  let ?n = "unat n"
  let ?v = "f64_of (unat n)"
  obtain d u where loop: "unit_loop ?v 1024 0 = (d, u)" by force
  let ?t = "round_half_even (10 * ?v) d"
  have n: "1024 \<le> ?n" "?n < 2 ^ 64" using big unsigned_less [of n] by (simp_all add: word_le_nat_alt)
  note spec = unit_loop_start(1,2) [OF loop]
  have shown: "human_bytes n = dec (?t div 10) @ ''.'' @ dec (?t mod 10) @ '' '' @ UNITS ! u"
    using leD [OF big] loop by (simp add: human_bytes_def one_decimal_def Let_def)
  have "0 < d" using spec(2) by simp
  note bounds = round_half_even_bounds [OF this, of "10 * ?v"]
  have exact: "u < 4 \<Longrightarrow> ?v = ?n \<and> ?t < 10240"
    using human_bytes_unit [OF n loop] by auto
  have near: "2 * (?t * d) \<le> 20 * (?n + (if u < 4 then 0 else 1024)) + d"
    "20 * ?n \<le> 2 * (?t * d) + d + (if u < 4 then 0 else 20 * 1024)"
  proof -
    have "?v \<le> ?n + (if u < 4 then 0 else 1024)" "?n \<le> ?v + (if u < 4 then 0 else 1024)"
      using exact f64_of_bounds [OF n(2)] by simp_all
    then show "2 * (?t * d) \<le> 20 * (?n + (if u < 4 then 0 else 1024)) + d"
      "20 * ?n \<le> 2 * (?t * d) + d + (if u < 4 then 0 else 20 * 1024)"
      using bounds by (simp_all split: if_splits)
  qed
  show "\<exists>u t. u \<le> 4
     \<and> human_bytes n = dec (t div 10) @ ''.'' @ dec (t mod 10) @ '' '' @ UNITS ! u
     \<and> 10 \<le> t \<and> (u < 4 \<longrightarrow> t < 10240)
     \<and> 2 * (t * 1024 ^ (u + 1)) \<le> 20 * (unat n + (if u < 4 then 0 else 1024)) + 1024 ^ (u + 1)
     \<and> 20 * unat n \<le> 2 * (t * 1024 ^ (u + 1)) + 1024 ^ (u + 1) + (if u < 4 then 0 else 20 * 1024)"
    by (intro exI [of _ u] exI [of _ ?t], unfold spec(2) [symmetric])
      (use near shown exact human_bytes_tenths [OF n loop] spec(1) in blast)
qed

lemma human_bytes_readable_witness:
  "\<exists>u t. u \<le> 4 \<and> human_bytes 1536 = dec (t div 10) @ ''.'' @ dec (t mod 10) @ '' '' @ UNITS ! u \<and> 10 \<le> t"
  using human_bytes_readable [of 1536] by auto

lemma bit_len_numeral: "bit_len (numeral k) = Suc (bit_len (numeral k div 2))"
  by (simp add: bit_len.simps [of "numeral k"])

lemma bit_len_small: "bit_len 0 = 0" "bit_len (Suc 0) = 1" "bit_len 1 = 1"
proof -
  show z: "bit_len 0 = 0" by (subst bit_len.simps) simp
  show "bit_len (Suc 0) = 1" "bit_len 1 = 1" by (subst bit_len.simps, simp add: z)+
qed

lemma digit_chars:
  "digit_char 0 = CHR ''0''" "digit_char (Suc 0) = CHR ''1''" "digit_char 2 = CHR ''2''" "digit_char 3 = CHR ''3''"
  "digit_char 4 = CHR ''4''" "digit_char 5 = CHR ''5''" "digit_char 6 = CHR ''6''" "digit_char 7 = CHR ''7''"
  "digit_char 8 = CHR ''8''" "digit_char 9 = CHR ''9''"
  by code_simp+

lemma dec_numeral:
  "dec (numeral k) = (if numeral k < (10 :: nat) then [digit_char (numeral k)]
     else dec (numeral k div 10) @ [digit_char (numeral k mod 10)])"
  "dec 0 = ''0''" "dec (Suc 0) = ''1''" "dec 1 = ''1''"
  by (subst dec.simps, simp add: digit_chars)+

lemma unit_loop_numeral:
  "unit_loop (numeral v) (numeral d) k =
     (if F64_1023_95 * numeral d \<le> numeral v * 2 ^ 43 \<and> k < 4
      then unit_loop (numeral v) (numeral d * 1024) (k + 1) else (numeral d, k))"
  by (subst unit_loop.simps) (simp add: UNITS_def)

lemmas human_bytes_eval = human_bytes_def f64_of_def bit_len_numeral bit_len_small
  unit_loop_numeral F64_1023_95_value UNITS_def one_decimal_def round_half_even_def dec_numeral digit_chars Let_def


section \<open>The module's tests\<close>

text \<open>Each unit test of the module, as the bool-valued definition of its assertions, holds of the model.\<close>

definition default_identity :: identity where
  "default_identity = \<lparr>id_id = 0, id_uid = 0, id_unit = [], id_exe = [], id_project = [], id_cmdline = [],
     id_comm = [], id_username = [], id_raw_cmdline = [], id_first_seen_ms = 0, id_last_seen_ms = 0\<rparr>"

definition bytes_are_humanised_in_binary_units :: bool where
  "bytes_are_humanised_in_binary_units \<longleftrightarrow>
     human_bytes 0 = ''0 B'' \<and> human_bytes 1023 = ''1023 B'' \<and> human_bytes 1024 = ''1.0 KiB''
     \<and> human_bytes 1536 = ''1.5 KiB'' \<and> human_bytes (1024 * 1024 - 1) = ''1.0 MiB''
     \<and> human_bytes (5 * 1024 * 1024 * 1024) = ''5.0 GiB''
     \<and> human_bytes 18446744073709551615 = ''16384.0 PiB''"

definition identity_labels :: bool where
  "identity_labels \<longleftrightarrow>
     (let i = default_identity\<lparr>id_exe := ''/usr/bin/node'', id_project := ''/home/eve/web'', id_uid := 1000\<rparr>;
          j = i\<lparr>id_comm := ''MainThread'', id_project := ''<none>'', id_username := ''eve''\<rparr>
      in (fmt_name i, fmt_project i, fmt_user i) = (''node'', ''web'', ''1000'')
       \<and> (fmt_name j, fmt_project j, fmt_user j) = (''MainThread'', ''-'', ''eve''))"

definition tables_align_and_ellipsis_cuts :: "string \<Rightarrow> bool" where
  "tables_align_and_ellipsis_cuts home \<longleftrightarrow>
     (let rs = [[''node'', ''5 B''], [''x'', ''1.5 KiB'']]; lf = [CHR 0x0A]
      in table [''NAME'', ''IN''] [1] rs = Some (''NAME       IN'' @ lf @ ''node      5 B'' @ lf @ ''x     1.5 KiB'')
       \<and> ellipsis ''procflow'' 5 = ''proc'' @ ELLIPSIS \<and> ellipsis ''procflow'' 8 = ''procflow''
       \<and> tilde (Some home) (home @ ''/code/web'') = ''~/code/web''
       \<and> tilde (Some home) (home @ ''-other/web'') = home @ ''-other/web''
       \<and> tilde (Some home) ''/usr/bin/node'' = ''/usr/bin/node'')"

lemma fmt_tests: "bytes_are_humanised_in_binary_units" "identity_labels" "tables_align_and_ellipsis_cuts ''/home/eve''"
  unfolding bytes_are_humanised_in_binary_units_def
  by (simp add: human_bytes_eval) code_simp+

end
