(* ===== verification/Client.thy ===== *)
theory Client
  imports Fmt Server
begin

text \<open>
  The client half of the protocol (\<open>procflow/src/client.rs\<close>): one connection per request. A connection
  is what the operating system and the daemon make of it: whether connecting works, what the socket
  takes and gives, and whether a timeout can be set. An error is anyhow's chain of texts, outermost
  first; the texts of I/O errors and the debug output of an unexpected body are arguments.
\<close>

section \<open>One request\<close>

type_synonym anyhow = "string list"

text \<open>\<open>{:#}\<close> of an error.\<close>

definition chain_text :: "anyhow \<Rightarrow> string" where
  "chain_text e = join '': '' e"

definition context_of :: "string \<Rightarrow> anyhow + 'a \<Rightarrow> anyhow + 'a" where
  "context_of c r = (case r of Inl e \<Rightarrow> Inl (c # e) | Inr x \<Rightarrow> Inr x)"

definition TIMEOUT_S :: nat where "TIMEOUT_S = 10"

datatype connect_error = Conn_NotFound | Conn_Refused | Conn_Other io_error

record link =
  lk_env :: "string option"
  lk_connect :: "connect_error + unit"
  lk_out :: writer
  lk_timeout :: "io_error + unit"
  lk_in :: "u8 list"

record texts =
  tx_io :: "io_error \<Rightarrow> string"
  tx_debug :: "response_body option \<Rightarrow> string"

definition client_request :: "request_body \<Rightarrow> request" where
  "client_request body = \<lparr>rq_proto = PROTO_VERSION, rq_id = 1, rq_body = Some body\<rparr>"

definition client_send ::
    "texts \<Rightarrow> (request \<Rightarrow> u8 list) \<Rightarrow> request_body \<Rightarrow> link \<Rightarrow> (anyhow + unit) \<times> writer" where
  "client_send tx encode body lk =
     (let path = socket_path (lk_env lk) in
      case lk_connect lk of
        Inl Conn_NotFound \<Rightarrow> (Inl [''procflow daemon not running (cannot connect to '' @ path @ '')''], lk_out lk)
      | Inl Conn_Refused \<Rightarrow> (Inl [''procflow daemon not running (cannot connect to '' @ path @ '')''], lk_out lk)
      | Inl (Conn_Other e) \<Rightarrow> (Inl [''connecting to the procflow daemon at '' @ path, tx_io tx e], lk_out lk)
      | Inr _ \<Rightarrow>
          (case write_msg encode (client_request body) (lk_out lk) of
             (Inl e, out) \<Rightarrow> (Inl [tx_io tx e], out)
           | (Inr _, out) \<Rightarrow> (Inr (), out)))"

definition daemon_error :: "string \<Rightarrow> anyhow" where
  "daemon_error message = [message]"

definition unexpected :: "texts \<Rightarrow> response_body option \<Rightarrow> anyhow" where
  "unexpected tx other = [''unexpected response: '' @ tx_debug tx other]"

text \<open>The read of a reply that \<open>hello\<close> and \<open>rows\<close> share; \<open>pick\<close> is what their match accepts.\<close>

definition reply ::
    "texts \<Rightarrow> (request \<Rightarrow> u8 list) \<Rightarrow> (u8 list \<Rightarrow> response option) \<Rightarrow> (response_body \<Rightarrow> 'a option)
       \<Rightarrow> request_body \<Rightarrow> link \<Rightarrow> anyhow + 'a" where
  "reply tx encode decode pick body lk =
     (case fst (client_send tx encode body lk) of Inl e \<Rightarrow> Inl e | Inr _ \<Rightarrow>
      case lk_timeout lk of Inl e \<Rightarrow> Inl [tx_io tx e] | Inr _ \<Rightarrow>
      case fst (read_msg decode (lk_in lk)) of
        Inl e \<Rightarrow> context_of ''reading the daemon's reply'' (Inl [tx_io tx e])
      | Inr resp \<Rightarrow>
          (case rs_body resp of
             Some (Resp_Error _ message) \<Rightarrow> Inl (daemon_error message)
           | other \<Rightarrow> (case Option.bind other pick of None \<Rightarrow> Inl (unexpected tx other) | Some x \<Rightarrow> Inr x)))"

definition client_hello ::
    "texts \<Rightarrow> (request \<Rightarrow> u8 list) \<Rightarrow> (u8 list \<Rightarrow> response option) \<Rightarrow> link \<Rightarrow> anyhow + hello_ok" where
  "client_hello tx encode decode lk =
     reply tx encode decode (\<lambda>b. case b of Resp_HelloOk ok \<Rightarrow> Some ok | _ \<Rightarrow> None) Hello lk"

definition client_rows ::
    "texts \<Rightarrow> (request \<Rightarrow> u8 list) \<Rightarrow> (u8 list \<Rightarrow> response option) \<Rightarrow> request_body \<Rightarrow> link \<Rightarrow> anyhow + rows" where
  "client_rows tx encode decode body lk =
     reply tx encode decode (\<lambda>b. case b of Resp_Ok rows \<Rightarrow> Some rows | _ \<Rightarrow> None) body lk"


section \<open>Live streams\<close>

text \<open>A stream is the bytes still to arrive; \<open>stream_next\<close> is its \<open>Iterator::next\<close>.\<close>

definition client_watch ::
    "texts \<Rightarrow> (request \<Rightarrow> u8 list) \<Rightarrow> watch_req \<Rightarrow> link \<Rightarrow> anyhow + u8 list" where
  "client_watch tx encode w lk =
     (case fst (client_send tx encode (Watch w) lk) of Inl e \<Rightarrow> Inl e | Inr _ \<Rightarrow> Inr (lk_in lk))"

definition stream_next ::
    "texts \<Rightarrow> (u8 list \<Rightarrow> response option) \<Rightarrow> u8 list \<Rightarrow> (anyhow + rows \<times> u32) option \<times> u8 list" where
  "stream_next tx decode bs =
     (case read_msg decode bs of
        (Inl e, rest) \<Rightarrow> (Some (Inl [''the daemon closed the live stream'', tx_io tx e]), rest)
      | (Inr resp, rest) \<Rightarrow>
          (case rs_body resp of
             Some (Resp_Chunk rows ms) \<Rightarrow> Some (Inr (rows, ms))
           | Some Resp_End \<Rightarrow> None
           | Some (Resp_Error _ message) \<Rightarrow> Some (Inl (daemon_error message))
           | other \<Rightarrow> Some (Inl (unexpected tx other)), rest))"

lemma stream_next_shorter: "stream_next tx decode bs = (Some (Inr c), rest) \<Longrightarrow> length rest < length bs"
  by (auto simp: stream_next_def dest!: read_msg_shorter
      split: prod.splits sum.splits option.splits response_body.splits)

text \<open>A \<open>for\<close> loop that stops at the first error: the chunks before it, and the error if there was one.\<close>

function stream_chunks ::
    "texts \<Rightarrow> (u8 list \<Rightarrow> response option) \<Rightarrow> u8 list \<Rightarrow> (rows \<times> u32) list \<times> anyhow option" where
  "stream_chunks tx decode bs =
     (case stream_next tx decode bs of
        (None, _) \<Rightarrow> ([], None)
      | (Some (Inl e), _) \<Rightarrow> ([], Some e)
      | (Some (Inr c), rest) \<Rightarrow> map_prod (\<lambda>cs. c # cs) (\<lambda>e. e) (stream_chunks tx decode rest))"
  by pat_completeness auto
termination
  by (relation "measure (\<lambda>(_, _, bs). length bs)") (auto dest!: sym [of "(_, _)"] stream_next_shorter)

declare stream_chunks.simps [simp del]

section \<open>The client on the daemon\<close>

text \<open>
  A connection to a running daemon: what the client writes is what the server's connection reads, and
  what the server writes is what arrives at the client.
\<close>

definition open_writer :: writer where
  "open_writer = \<lparr>wr_sent = [], wr_room = None\<rparr>"

definition open_link :: link where
  "open_link = \<lparr>lk_env = None, lk_connect = Inr (), lk_out = open_writer, lk_timeout = Inr (), lk_in = []\<rparr>"

definition daemon_connection :: "texts \<Rightarrow> (request \<Rightarrow> u8 list) \<Rightarrow> u32 \<Rightarrow> feed \<Rightarrow> request_body \<Rightarrow> connection" where
  "daemon_connection tx encode uid feed body =
     \<lparr>cn_peer = Inr uid, cn_timeouts = Inr (), cn_clone = Inr (), cn_in = wr_sent (snd (client_send tx encode body open_link)),
      cn_out = open_writer, cn_feed = feed\<rparr>"

definition daemon_link ::
    "'d chrono \<Rightarrow> request_env \<Rightarrow> texts \<Rightarrow> (request \<Rightarrow> u8 list) \<Rightarrow> (u8 list \<Rightarrow> request option) \<Rightarrow> (response \<Rightarrow> u8 list)
       \<Rightarrow> u32 \<Rightarrow> feed \<Rightarrow> request_body \<Rightarrow> server \<Rightarrow> link" where
  "daemon_link ch env tx encode decode encode_resp uid feed body sv =
     open_link\<lparr>lk_in := wr_sent (fst (snd
       (handle ch env decode encode_resp (daemon_connection tx encode uid feed body) sv)))\<rparr>"

lemma client_send_open:
  assumes "length (encode (client_request body)) \<le> unat MAX_FRAME_LEN"
    "lk_connect lk = Inr ()" "wr_room (lk_out lk) = None"
  shows "fst (client_send tx encode body lk) = Inr ()"
    "wr_sent (snd (client_send tx encode body lk)) = wr_sent (lk_out lk) @ frame encode (client_request body)"
  using assms by (simp_all add: client_send_def write_msg_open Let_def)

lemma open_link_simps [simp]:
  "lk_connect open_link = Inr ()" "lk_out open_link = open_writer" "lk_timeout open_link = Inr ()"
  "wr_sent open_writer = []" "wr_room open_writer = None"
  by (simp_all add: open_link_def open_writer_def)

lemma read_whole_frame:
  assumes "length (encode m) \<le> unat MAX_FRAME_LEN" "decode (encode m) = Some m"
  shows "fst (read_msg decode (frame encode m)) = Inr m"
  using read_msg_frame [where encode = encode and decode = decode and rest = "[]", OF assms] by simp

definition snapshot_verb :: "request_body \<Rightarrow> bool" where
  "snapshot_verb body \<longleftrightarrow>
     (case body of TopIdentities _ \<Rightarrow> True | Series _ \<Rightarrow> True | ListIdentities _ \<Rightarrow> True | Resolve _ \<Rightarrow> True | _ \<Rightarrow> False)"

lemma respond_snapshot:
  assumes "snapshot_verb body" "\<not> sv_poisoned sv" "now_s (re_nanos env) = Some now"
    "verb ch env now body vis (sv_store sv) \<noteq> Inl (E_Internal Panicked)"
  shows "respond ch env (client_request body) vis sv
    = (Some (answer env 1 (sv_demo sv) (verb ch env now body vis (sv_store sv))), sv)"
  using assms by (cases body) (simp_all add: respond_def client_request_def snapshot_verb_def with_store_def Let_def)

lemma handle_snapshot:
  assumes "snapshot_verb body" "decode (encode (client_request body)) = Some (client_request body)"
    "length (encode (client_request body)) \<le> unat MAX_FRAME_LEN"
    "respond ch env (client_request body) (for_peer uid) sv = (Some r, sv')"
  shows "wr_sent (fst (snd (handle ch env decode encode_resp (daemon_connection tx encode uid feed body) sv)))
    = (if length (encode_resp r) \<le> unat MAX_FRAME_LEN then frame encode_resp r else [])"
proof -
  have "fst (read_msg decode (wr_sent (snd (client_send tx encode body open_link)))) = Inr (client_request body)"
    using read_whole_frame [where encode = encode and decode = decode, OF assms(3,2)] client_send_open(2) [where encode = encode and body = body and lk = open_link and tx = tx]
      assms(3) by simp
  moreover have "rq_body (client_request body) = Some body" by (simp add: client_request_def)
  moreover have "write_msg encode_resp r open_writer
      = (if length (encode_resp r) \<le> unat MAX_FRAME_LEN then (Inr (), open_writer\<lparr>wr_sent := frame encode_resp r\<rparr>)
         else (Inl InvalidData, open_writer))"
    using write_msg_open [of open_writer encode_resp r] by (simp add: write_msg_def)
  ultimately show ?thesis
    using assms(1,4) by (cases body) (simp_all add: handle_def daemon_connection_def snapshot_verb_def Let_def)
qed

text \<open>C18. A snapshot verb over the socket is the query itself: the client's call against a running daemon
  returns exactly the rows the verb selects for the connecting user, with the demo flag, or the daemon's
  error text, through both encodings and both framings; an answer too large for a frame is an error at
  the client, never an empty result.\<close>

theorem client_gets_the_answer:
  assumes "decode (encode (client_request body)) = Some (client_request body)"
    and "decode_resp (encode_resp (answer env 1 (sv_demo sv) result)) = Some (answer env 1 (sv_demo sv) result)"
    and "length (encode (client_request body)) \<le> unat MAX_FRAME_LEN" "snapshot_verb body"
    and "\<not> sv_poisoned sv" "now_s (re_nanos env) = Some now"
    and "verb ch env now body (for_peer uid) (sv_store sv) = result" "result \<noteq> Inl (E_Internal Panicked)"
  shows "client_rows tx encode decode_resp body
      (daemon_link ch env tx encode decode encode_resp uid feed body sv)
    = (if length (encode_resp (answer env 1 (sv_demo sv) result)) \<le> unat MAX_FRAME_LEN
       then (case result of
               Inr rows \<Rightarrow> Inr (rows\<lparr>r_demo := sv_demo sv\<rparr>)
             | Inl e \<Rightarrow> Inl [query_error_text (re_text env) e])
       else Inl [''reading the daemon's reply'', tx_io tx UnexpectedEof])"
proof -
  let ?r = "answer env 1 (sv_demo sv) result"
  let ?lk = "daemon_link ch env tx encode decode encode_resp uid feed body sv"
  have resp: "respond ch env (client_request body) (for_peer uid) sv = (Some ?r, sv)"
    using respond_snapshot [OF assms(4-6)] assms(7,8) by blast
  have arrived: "lk_in ?lk = (if length (encode_resp ?r) \<le> unat MAX_FRAME_LEN then frame encode_resp ?r else [])"
    unfolding daemon_link_def using handle_snapshot [where encode = encode and decode = decode, OF assms(4,1,3) resp] by simp
  have sent: "fst (client_send tx encode body ?lk) = Inr ()"
    using client_send_open(1) [where encode = encode and body = body and lk = ?lk] assms(3) by (simp add: daemon_link_def)
  have timeout: "lk_timeout ?lk = Inr ()" by (simp add: daemon_link_def)
  show ?thesis
  proof (cases "length (encode_resp ?r) \<le> unat MAX_FRAME_LEN")
    case True
    have "fst (read_msg decode_resp (lk_in ?lk)) = Inr ?r"
      using True arrived read_whole_frame [where encode = encode_resp and decode = decode_resp, OF True assms(2)] by simp
    then show ?thesis
      using True sent timeout
      by (cases result) (simp_all add: client_rows_def reply_def answer_def error_response_def daemon_error_def)
  next
    case False
    then have "fst (read_msg decode_resp (lk_in ?lk)) = Inl UnexpectedEof"
      using arrived by (simp add: read_msg_def read_exact_def)
    then show ?thesis
      using False sent timeout by (simp add: client_rows_def reply_def context_of_def)
  qed
qed

lemma client_gets_the_answer_witness:
  "client_rows \<lparr>tx_io = (\<lambda>_. []), tx_debug = (\<lambda>_. [])\<rparr> (\<lambda>_. [1])
      (\<lambda>_. Some (answer calm 1 False (verb gregorian calm 1783337400 (Resolve 99) (for_peer 7) demo_traffic)))
      (Resolve 99)
      (daemon_link gregorian calm \<lparr>tx_io = (\<lambda>_. []), tx_debug = (\<lambda>_. [])\<rparr> (\<lambda>_. [1])
        (\<lambda>_. Some (client_request (Resolve 99))) (\<lambda>_. [2]) 7 [] (Resolve 99) demo_server)
   = Inl [''no identity 99'']"
proof -
  have res: "verb gregorian calm 1783337400 (Resolve 99) (for_peer 7) (sv_store demo_server) = Inl (E_NotFound ''no identity 99'')"
    by code_simp
  have "now_s (re_nanos calm) = Some 1783337400" "\<not> sv_poisoned demo_server" "sv_demo demo_server = False"
    "sv_store demo_server = demo_traffic"
    by (simp_all add: calm_def now_s_def demo_server_def)
  from client_gets_the_answer [of "\<lambda>_. Some (client_request (Resolve 99))" "\<lambda>_. [1]" "Resolve 99"
      "\<lambda>_. Some (answer calm 1 False (verb gregorian calm 1783337400 (Resolve 99) (for_peer 7) demo_traffic))"
      "\<lambda>_. [2]" calm demo_server _ 1783337400 gregorian 7, OF _ _ _ _ _ _ res] this res
  show ?thesis by (simp add: max_frame snapshot_verb_def)
qed

end
