(* ===== verification/Theme.thy ===== *)
theory Theme
  imports Protocol
begin

text \<open>
  The colour themes (\<open>procflow/src/theme.rs\<close>): a table of named roles, its lookup by name, and the
  variant that leaves the terminal's background in place. The contrast test of the module computes
  with \<open>powf\<close> and is not modelled.
\<close>

datatype color = Rgb u8 u8 u8 | Reset

record theme =
  th_name :: string
  th_base :: color
  th_text :: color
  th_subtext :: color
  th_muted :: color
  th_border :: color
  th_focus :: color
  th_accent :: color
  th_ingress :: color
  th_egress :: color
  th_trend :: color
  th_good :: color
  th_warn :: color
  th_bad :: color

definition rgb :: "u32 \<Rightarrow> color" where
  "rgb hex = Rgb (ucast (drop_bit 16 hex)) (ucast (drop_bit 8 hex)) (ucast hex)"

definition THEMES :: "theme list" where
  "THEMES = [
    \<lparr>th_name = ''mocha'', th_base = rgb 0x1e1e2e, th_text = rgb 0xcdd6f4,
     th_subtext = rgb 0xa6adc8, th_muted = rgb 0x9399b2, th_border = rgb 0x6c7086,
     th_focus = rgb 0xb4befe, th_accent = rgb 0xcba6f7, th_ingress = rgb 0x89b4fa,
     th_egress = rgb 0xfab387, th_trend = rgb 0x94e2d5, th_good = rgb 0xa6e3a1, th_warn = rgb 0xf9e2af,
     th_bad = rgb 0xf38ba8\<rparr>,
    \<lparr>th_name = ''macchiato'', th_base = rgb 0x24273a, th_text = rgb 0xcad3f5,
     th_subtext = rgb 0xa5adcb, th_muted = rgb 0x939ab7, th_border = rgb 0x6e738d,
     th_focus = rgb 0xb7bdf8, th_accent = rgb 0xc6a0f6, th_ingress = rgb 0x8aadf4,
     th_egress = rgb 0xf5a97f, th_trend = rgb 0x8bd5ca, th_good = rgb 0xa6da95, th_warn = rgb 0xeed49f,
     th_bad = rgb 0xed8796\<rparr>,
    \<lparr>th_name = ''frappe'', th_base = rgb 0x303446, th_text = rgb 0xc6d0f5,
     th_subtext = rgb 0xa5adce, th_muted = rgb 0x949cbb, th_border = rgb 0x838ba7,
     th_focus = rgb 0xbabbf1, th_accent = rgb 0xca9ee6, th_ingress = rgb 0x8caaee,
     th_egress = rgb 0xef9f76, th_trend = rgb 0x81c8be, th_good = rgb 0xa6d189, th_warn = rgb 0xe5c890,
     th_bad = rgb 0xe78284\<rparr>,
    \<lparr>th_name = ''latte'', th_base = rgb 0xeff1f5, th_text = rgb 0x4c4f69,
     th_subtext = rgb 0x5c5f77, th_muted = rgb 0x5c5f77, th_border = rgb 0x7c7f93,
     th_focus = rgb 0x8839ef, th_accent = rgb 0x8839ef, th_ingress = rgb 0x1e66f5,
     th_egress = rgb 0xe64553, th_trend = rgb 0x179299, th_good = rgb 0x179299, th_warn = rgb 0xe64553,
     th_bad = rgb 0xd20f39\<rparr>]"

definition NAMES :: string where
  "NAMES = ''mocha|macchiato|frappe|latte''"

text \<open>\<open>Iterator::position\<close>.\<close>

fun position :: "('a \<Rightarrow> bool) \<Rightarrow> 'a list \<Rightarrow> nat option" where
  "position P [] = None"
| "position P (x # xs) = (if P x then Some 0 else map_option Suc (position P xs))"

lemma position_Some: "position P xs = Some i \<Longrightarrow> i < length xs \<and> P (xs ! i) \<and> (\<forall>j < i. \<not> P (xs ! j))"
proof (induction xs arbitrary: i)
  case (Cons x xs)
  then show ?case by (auto simp: nth_Cons' less_Suc_eq_0_disj split: if_splits)
qed simp

lemma position_None: "position P xs = None \<longleftrightarrow> (\<forall>x \<in> set xs. \<not> P x)"
  by (induction xs) auto

definition theme_index :: "string \<Rightarrow> nat option" where
  "theme_index name = position (\<lambda>t. th_name t = name) THEMES"

definition see_through :: "theme \<Rightarrow> theme" where
  "see_through t = t\<lparr>th_subtext := th_text t, th_muted := th_subtext t, th_border := th_muted t\<rparr>"

definition themes_are_found_by_name :: bool where
  "themes_are_found_by_name \<longleftrightarrow>
     theme_index ''mocha'' = Some 0 \<and> theme_index ''latte'' = Some 3 \<and> theme_index ''solarized'' = None
     \<and> join ''|'' (map th_name THEMES) = NAMES"

lemma theme_tests: "themes_are_found_by_name"
  by code_simp

lemma length_THEMES [simp]: "length THEMES = 4"
  by (simp add: THEMES_def)

end
