(* ===== verification/Cli.thy ===== *)
theory Cli
  imports Client Theme Gregorian
begin

text \<open>
  The command line (\<open>procflow/src/main.rs\<close>): the values of its flags, the window a query covers, and the
  plain commands, each from its request to the lines it prints. What clap parses is the data type
  \<open>command\<close>; the daemon is the function \<open>rpc\<close> that runs a snapshot verb; chrono, JSON printing and Unicode
  upper case are arguments.
\<close>

section \<open>Flag values\<close>

text \<open>\<open>i64\<close> arithmetic, wrapping.\<close>

definition wrap_i64 :: "int \<Rightarrow> i64" where
  "wrap_i64 x = (x + 2 ^ 63) mod 2 ^ 64 - 2 ^ 63"

definition SCOPES :: string where "SCOPES = ''external|loopback|all''"
definition GROUPS :: string where "GROUPS = ''identity|project|exe|user''"
definition TIERS :: string where "TIERS = ''minute|hour|day|month''"

definition unit_seconds :: "string \<Rightarrow> i64 option" where
  "unit_seconds u =
     (if u = ''m'' then Some 60 else if u = ''h'' then Some 3600
      else if u = ''d'' then Some 86400 else if u = ''w'' then Some (7 * 86400) else None)"

definition duration_arg :: "string \<Rightarrow> string + i64" where
  "duration_arg v =
     (let split = length v - 1 in
      case unit_seconds (drop split v) of
        None \<Rightarrow> Inl ''expected a number and a unit: 90m, 24h, 7d, 4w''
      | Some u \<Rightarrow>
          (case parse_i64 (take split v) of
             Some n \<Rightarrow> if 0 < n then Inr (wrap_i64 (n * u)) else Inl ''expected a positive number before the unit''
           | None \<Rightarrow> Inl ''expected a positive number before the unit''))"

definition enum_arg :: "(string \<Rightarrow> string) \<Rightarrow> string \<Rightarrow> string \<Rightarrow> (string \<Rightarrow> 'e option) \<Rightarrow> string \<Rightarrow> string + 'e" where
  "enum_arg upper v pre lookup choices =
     (case lookup (pre @ ''_'' @ upper v) of None \<Rightarrow> Inl (''expected '' @ choices) | Some e \<Rightarrow> Inr e)"

text \<open>The generated \<open>from_str_name\<close> functions.\<close>

definition scope_from_name :: "string \<Rightarrow> scope option" where
  "scope_from_name = map_of [(''SCOPE_UNSPECIFIED'', Scope_Unspecified), (''SCOPE_EXTERNAL'', Scope_External),
     (''SCOPE_LOOPBACK'', Scope_Loopback), (''SCOPE_ALL'', Scope_All)]"

definition group_from_name :: "string \<Rightarrow> group_by option" where
  "group_from_name = map_of [(''GROUP_BY_UNSPECIFIED'', Group_Unspecified), (''GROUP_BY_IDENTITY'', Group_Identity),
     (''GROUP_BY_PROJECT'', Group_Project), (''GROUP_BY_EXE'', Group_Exe), (''GROUP_BY_USER'', Group_User)]"

definition tier_from_name :: "string \<Rightarrow> tier option" where
  "tier_from_name = map_of [(''TIER_UNSPECIFIED'', Tier_Unspecified), (''TIER_MINUTE'', Tier_Minute),
     (''TIER_HOUR'', Tier_Hour), (''TIER_DAY'', Tier_Day), (''TIER_MONTH'', Tier_Month)]"

definition direction_from_name :: "string \<Rightarrow> direction option" where
  "direction_from_name = map_of [(''DIRECTION_UNSPECIFIED'', Direction_Unspecified),
     (''DIRECTION_INGRESS'', Direction_Ingress), (''DIRECTION_EGRESS'', Direction_Egress)]"

definition theme_arg :: "string \<Rightarrow> string + nat" where
  "theme_arg v = (case theme_index v of None \<Rightarrow> Inl (''expected '' @ NAMES) | Some i \<Rightarrow> Inr i)"

definition scope_arg :: "(string \<Rightarrow> string) \<Rightarrow> string \<Rightarrow> string + scope" where
  "scope_arg upper v = enum_arg upper v ''SCOPE'' scope_from_name SCOPES"

definition group_arg :: "(string \<Rightarrow> string) \<Rightarrow> string \<Rightarrow> string + group_by" where
  "group_arg upper v = enum_arg upper v ''GROUP_BY'' group_from_name GROUPS"

definition tier_arg :: "(string \<Rightarrow> string) \<Rightarrow> string \<Rightarrow> string + tier" where
  "tier_arg upper v = enum_arg upper v ''TIER'' tier_from_name TIERS"

definition direction_arg :: "(string \<Rightarrow> string) \<Rightarrow> string \<Rightarrow> string + direction" where
  "direction_arg upper v =
     (if v = ''both'' then Inr Direction_Unspecified
      else enum_arg upper v ''DIRECTION'' direction_from_name ''ingress|egress|both'')"


section \<open>Local time\<close>

text \<open>
  What the command line calls of chrono, in milliseconds, over a type of dates. A naive time is a date
  and the seconds since its midnight; \<open>lt_local\<close> is \<open>and_local_timezone\<close>, \<open>lt_utc\<close> the time read as UTC.
\<close>

record 'd local_time =
  lt_date :: "i64 \<Rightarrow> 'd"
  lt_day_1 :: "'d \<Rightarrow> 'd"
  lt_local :: "'d \<Rightarrow> nat \<Rightarrow> local_result"
  lt_utc :: "'d \<Rightarrow> nat \<Rightarrow> i64"
  lt_parse_rfc3339 :: "string \<Rightarrow> i64 option"
  lt_parse_date :: "string \<Rightarrow> 'd option"
  lt_parse_time :: "string \<Rightarrow> string \<Rightarrow> ('d \<times> nat) option"

definition local_ms :: "'d local_time \<Rightarrow> 'd \<Rightarrow> nat \<Rightarrow> i64" where
  "local_ms lt d secs =
     (case earliest (lt_local lt d secs) of
        Some t \<Rightarrow> t
      | None \<Rightarrow> (case earliest (lt_local lt d (secs + 3600)) of Some t \<Rightarrow> t | None \<Rightarrow> lt_utc lt d secs))"

definition local_midnight_ms :: "'d local_time \<Rightarrow> 'd \<Rightarrow> i64" where
  "local_midnight_ms lt d = local_ms lt d 0"

definition instant_arg :: "'d local_time \<Rightarrow> string \<Rightarrow> string + i64" where
  "instant_arg lt v =
     (case lt_parse_rfc3339 lt v of
        Some t \<Rightarrow> Inr t
      | None \<Rightarrow>
          (case lt_parse_date lt v of
             Some d \<Rightarrow> Inr (local_midnight_ms lt d)
           | None \<Rightarrow>
               (case find_map (\<lambda>fmt. lt_parse_time lt fmt v) [''%Y-%m-%d %H:%M'', ''%Y-%m-%dT%H:%M''] of
                  Some (d, secs) \<Rightarrow> Inr (local_ms lt d secs)
                | None \<Rightarrow> Inl ''expected YYYY-MM-DD or \"YYYY-MM-DD HH:MM\"'')))"

record window_args =
  wa_since :: "i64 option"
  wa_today :: bool
  wa_this_month :: bool
  wa_from :: "i64 option"
  wa_to :: "i64 option"

definition window_range :: "'d local_time \<Rightarrow> i64 \<Rightarrow> window_args \<Rightarrow> time_range" where
  "window_range lt now_ms w =
     (let today = lt_date lt now_ms in
      \<lparr>from_unix_ms =
         (case wa_from w of
            Some t \<Rightarrow> t
          | None \<Rightarrow>
              if wa_today w then local_midnight_ms lt today
              else if wa_this_month w then local_midnight_ms lt (lt_day_1 lt today)
              else wrap_i64 (now_ms - wrap_i64 ((case wa_since w of Some s \<Rightarrow> s | None \<Rightarrow> 24 * 3600) * 1000))),
       to_unix_ms = (case wa_to w of Some t \<Rightarrow> t | None \<Rightarrow> now_ms)\<rparr>)"


section \<open>Output\<close>

record dimensions =
  dm_project :: string
  dm_exe :: string
  dm_user :: string

record output_args =
  ou_json :: bool
  ou_bytes :: bool

definition output_bytes :: "output_args \<Rightarrow> u64 \<Rightarrow> string" where
  "output_bytes outp n = (if ou_bytes outp then dec (unat n) else human_bytes n)"

datatype json =
    J_Bool bool
  | J_Int int
  | J_Str string
  | J_Arr "json list"
  | J_Obj "(string \<times> json) list"

text \<open>A printed line, and how a command ends.\<close>

datatype line = Out string | Err string

datatype ending = Done | Failed anyhow | Panic

type_synonym ran = "line list \<times> ending"

record console =
  co_wall :: wall
  co_pretty :: "json \<Rightarrow> string"
  co_compact :: "json \<Rightarrow> string"
  co_env_socket :: "string option"

definition ARROW :: string where "ARROW = map char_of [0xE2, 0x86, 0x92 :: nat]"
definition MIDDOT :: string where "MIDDOT = map char_of [0xC2, 0xB7 :: nat]"

definition DEMO_NOTE :: string where
  "DEMO_NOTE = ''demo daemon: this traffic is invented, not measured''"

definition print_json :: "console \<Rightarrow> json \<Rightarrow> ran" where
  "print_json co v = ([Out (co_pretty co v)], Done)"

definition rfc3339 :: "console \<Rightarrow> i64 \<Rightarrow> string" where
  "rfc3339 co unix_ms = wl_rfc3339 (co_wall co) (fmt_local (co_wall co) unix_ms)"

definition identity_json :: "console \<Rightarrow> identity \<Rightarrow> json" where
  "identity_json co i = J_Obj [
     (''id'', J_Int (id_id i)), (''name'', J_Str (fmt_name i)), (''uid'', J_Int (uint (id_uid i))),
     (''user'', J_Str (fmt_user i)), (''exe'', J_Str (id_exe i)), (''project_root'', J_Str (id_project i)),
     (''unit_or_cgroup'', J_Str (id_unit i)), (''normalized_cmdline'', J_Str (id_cmdline i)),
     (''raw_cmdline'', J_Str (id_raw_cmdline i)), (''first_seen'', J_Str (rfc3339 co (id_first_seen_ms i))),
     (''last_seen'', J_Str (rfc3339 co (id_last_seen_ms i)))]"

definition counter_json :: "console \<Rightarrow> counter_row \<Rightarrow> (i64 \<times> identity) list \<Rightarrow> json" where
  "counter_json co c identities = J_Obj ([
     (''scope'', J_Str (fmt_scope (cr_scope c))), (''ingress_bytes'', J_Int (uint (cr_ingress c))),
     (''egress_bytes'', J_Int (uint (cr_egress c)))] @
     (case map_of identities (cr_identity_id c) of
        Some i \<Rightarrow> [(''identity'', identity_json co i)]
      | None \<Rightarrow> [(''group'', J_Str (cr_group_key c))]))"

definition by_id :: "identity list \<Rightarrow> (i64 \<times> identity) list" where
  "by_id is = map_extend (map (\<lambda>i. (id_id i, i)) is) []"

type_synonym rpc = "request_body \<Rightarrow> anyhow + rows"

definition fetch :: "rpc \<Rightarrow> request_body \<Rightarrow> line list \<times> (anyhow + rows)" where
  "fetch rpc body =
     (case rpc body of
        Inl e \<Rightarrow> ([], Inl e)
      | Inr rows \<Rightarrow> (if r_demo rows then [Err (''note: '' @ DEMO_NOTE)] else [], Inr rows))"

text \<open>The rest of a command after its fetch, with what the fetch printed first.\<close>

definition with_fetched :: "rpc \<Rightarrow> request_body \<Rightarrow> (rows \<Rightarrow> ran) \<Rightarrow> ran" where
  "with_fetched rpc body k =
     (case fetch rpc body of
        (notes, Inl e) \<Rightarrow> (notes, Failed e)
      | (notes, Inr rows) \<Rightarrow> (case k rows of (ls, fin) \<Rightarrow> (notes @ ls, fin)))"

text \<open>\<open>println!\<close> of a table, after the lines before it.\<close>

definition print_table :: "line list \<Rightarrow> string option \<Rightarrow> ran" where
  "print_table before t = (case t of None \<Rightarrow> (before, Panic) | Some s \<Rightarrow> (before @ [Out s], Done))"


section \<open>Commands\<close>

text \<open>\<open>group\<close> of \<open>top\<close>: the header of a grouped table.\<close>

definition group_header :: "group_by \<Rightarrow> string option" where
  "group_header g =
     (case g of
        Group_Project \<Rightarrow> Some ''PROJECT''
      | Group_Exe \<Rightarrow> Some ''EXE''
      | Group_User \<Rightarrow> Some ''USER''
      | _ \<Rightarrow> None)"

definition then_some :: "bool \<Rightarrow> 'a \<Rightarrow> 'a list" where
  "then_some b x = (if b then [x] else [])"

definition top_headers :: "top_identities \<Rightarrow> string list" where
  "top_headers q =
     (case group_header (ti_group_by q) of
        Some g \<Rightarrow> [g]
      | None \<Rightarrow> [''ID'', ''NAME'', ''PROJECT'', ''USER'', ''COMMAND''])
     @ then_some (ti_scope q = Scope_All) ''SCOPE''
     @ then_some (ti_direction q \<noteq> Direction_Egress) ''INGRESS''
     @ then_some (ti_direction q \<noteq> Direction_Ingress) ''EGRESS''"

definition identity_cells :: "identity \<Rightarrow> string list" where
  "identity_cells i = [dec_int (id_id i), fmt_name i, fmt_project i, fmt_user i, ellipsis (id_cmdline i) 48]"

definition top_cells :: "top_identities \<Rightarrow> output_args \<Rightarrow> (i64 \<times> identity) list \<Rightarrow> counter_row \<Rightarrow> string list" where
  "top_cells q outp identities c =
     (case map_of identities (cr_identity_id c) of
        Some i \<Rightarrow> identity_cells i
      | None \<Rightarrow> [cr_group_key c])
     @ then_some (ti_scope q = Scope_All) (fmt_scope (cr_scope c))
     @ then_some (ti_direction q \<noteq> Direction_Egress) (output_bytes outp (cr_ingress c))
     @ then_some (ti_direction q \<noteq> Direction_Ingress) (output_bytes outp (cr_egress c))"

definition top_numbers :: "top_identities \<Rightarrow> nat list" where
  "top_numbers q =
     (let first_number = (case group_header (ti_group_by q) of Some _ \<Rightarrow> 1 | None \<Rightarrow> 5)
      in [first_number + (if ti_scope q = Scope_All then 1 else 0) ..< length (top_headers q)]
         @ then_some (group_header (ti_group_by q) = None) 0)"

definition top_title :: "console \<Rightarrow> time_range \<Rightarrow> scope \<Rightarrow> tier \<Rightarrow> string" where
  "top_title co r s t =
     fmt_bucket (co_wall co) (from_unix_ms r) Tier_Minute @ '' '' @ ARROW @ '' ''
     @ fmt_bucket (co_wall co) (to_unix_ms r) Tier_Minute @ '' '' @ MIDDOT @ '' scope '' @ fmt_scope s
     @ '' '' @ MIDDOT @ '' tier '' @ fmt_tier t"

definition cli_top :: "console \<Rightarrow> rpc \<Rightarrow> top_identities \<Rightarrow> output_args \<Rightarrow> ran" where
  "cli_top co rpc q outp =
     (case ti_range q of None \<Rightarrow> ([], Panic) | Some r \<Rightarrow>
      with_fetched rpc (TopIdentities q) (\<lambda>rows.
        let identities = by_id (r_identities rows) in
        if ou_json outp then
          print_json co (J_Obj [(''from'', J_Str (rfc3339 co (from_unix_ms r))),
            (''to'', J_Str (rfc3339 co (to_unix_ms r))), (''tier'', J_Str (fmt_tier (r_tier rows))),
            (''demo'', J_Bool (r_demo rows)),
            (''rows'', J_Arr (map (\<lambda>c. counter_json co c identities) (r_counters rows)))])
        else if r_counters rows = [] then ([Out ''no traffic recorded in this window''], Done)
        else print_table [Out (top_title co r (ti_scope q) (r_tier rows))]
               (table (top_headers q) (top_numbers q) (map (top_cells q outp identities) (r_counters rows)))))"

definition first_identity :: "rows \<Rightarrow> identity" where
  "first_identity rows = (case r_identities rows of [] \<Rightarrow> default_identity | i # _ \<Rightarrow> i)"

definition series_headers :: "series_req \<Rightarrow> string list" where
  "series_headers q = ''BUCKET'' # then_some (sr_scope q = Scope_All) ''SCOPE'' @ [''INGRESS'', ''EGRESS'']"

definition series_cells :: "console \<Rightarrow> series_req \<Rightarrow> output_args \<Rightarrow> tier \<Rightarrow> counter_row \<Rightarrow> string list" where
  "series_cells co q outp t c =
     fmt_bucket (co_wall co) (cr_bucket_ms c) t # then_some (sr_scope q = Scope_All) (fmt_scope (cr_scope c))
       @ [output_bytes outp (cr_ingress c), output_bytes outp (cr_egress c)]"

definition series_title :: "identity \<Rightarrow> scope \<Rightarrow> tier \<Rightarrow> string" where
  "series_title i s t =
     fmt_name i @ '' '' @ MIDDOT @ '' '' @ fmt_project i @ '' '' @ MIDDOT @ '' '' @ fmt_user i @ '' ''
     @ MIDDOT @ '' scope '' @ fmt_scope s @ '' '' @ MIDDOT @ '' tier '' @ fmt_tier t"

definition cli_series :: "console \<Rightarrow> rpc \<Rightarrow> series_req \<Rightarrow> output_args \<Rightarrow> ran" where
  "cli_series co rpc q outp =
     with_fetched rpc (Series q) (\<lambda>rows.
       let t = r_tier rows; i = first_identity rows in
       if ou_json outp then
         print_json co (J_Obj [(''identity'', identity_json co i), (''tier'', J_Str (fmt_tier t)),
           (''rows'', J_Arr (map (\<lambda>c. J_Obj [(''bucket'', J_Str (rfc3339 co (cr_bucket_ms c))),
              (''scope'', J_Str (fmt_scope (cr_scope c))), (''ingress_bytes'', J_Int (uint (cr_ingress c))),
              (''egress_bytes'', J_Int (uint (cr_egress c)))]) (r_counters rows)))])
       else let title = Out (series_title i (sr_scope q) t) in
         if r_counters rows = [] then ([title, Out ''no traffic recorded in this window''], Done)
         else let n = length (series_headers q) in
           print_table [title] (table (series_headers q) [n - 2, n - 1]
             (map (series_cells co q outp t) (r_counters rows))))"

definition cli_list :: "console \<Rightarrow> rpc \<Rightarrow> list_identities \<Rightarrow> bool \<Rightarrow> ran" where
  "cli_list co rpc q as_json =
     with_fetched rpc (ListIdentities q) (\<lambda>rows.
       if as_json then print_json co (J_Arr (map (identity_json co) (r_identities rows)))
       else if r_identities rows = [] then ([Out ''no identities match''], Done)
       else print_table [] (table [''ID'', ''NAME'', ''PROJECT'', ''USER'', ''COMMAND'', ''LAST SEEN''] [0]
              (map (\<lambda>i. identity_cells i @ [fmt_bucket (co_wall co) (id_last_seen_ms i) Tier_Minute])
                (r_identities rows))))"

text \<open>\<open>{label:<12}\<close>.\<close>

definition pad_right :: "nat \<Rightarrow> string \<Rightarrow> string" where
  "pad_right w s = s @ spaces (w - text_width s)"

definition cli_show :: "console \<Rightarrow> rpc \<Rightarrow> i64 \<Rightarrow> bool \<Rightarrow> ran" where
  "cli_show co rpc identity_id as_json =
     with_fetched rpc (Resolve identity_id) (\<lambda>rows.
       let i = first_identity rows; seen = (\<lambda>ms. fmt_bucket (co_wall co) ms Tier_Minute) in
       if as_json then print_json co (identity_json co i)
       else (map (\<lambda>(label, v). Out (pad_right 12 label @ v))
               [(''identity'', dec_int (id_id i)),
                (''name'', fmt_name i),
                (''user'', fmt_user i @ '' (uid '' @ dec (unat (id_uid i)) @ '')''),
                (''exe'', id_exe i),
                (''project'', id_project i),
                (''unit'', id_unit i),
                (''command'', id_cmdline i),
                (''last run as'', id_raw_cmdline i),
                (''first seen'', seen (id_first_seen_ms i)),
                (''last seen'', seen (id_last_seen_ms i))], Done))"

text \<open>
  The streaming command: for each chunk, by its number, the clock and the fate of the line's write.
\<close>

datatype write_result = Written | Broken_Pipe | Write_Error string

fun watch_loop ::
    "console \<Rightarrow> (nat \<Rightarrow> i64 \<times> write_result) \<Rightarrow> nat \<Rightarrow> (i64 \<times> identity) list \<Rightarrow> (rows \<times> u32) list
       \<Rightarrow> anyhow option \<Rightarrow> ran" where
  "watch_loop co ws n identities [] err = ([], case err of None \<Rightarrow> Done | Some e \<Rightarrow> Failed e)"
| "watch_loop co ws n identities ((rows, ms) # cs) err =
     (let identities = map_extend (by_id (r_identities rows)) identities;
          at = (case r_counters rows of [] \<Rightarrow> fst (ws n) | c # _ \<Rightarrow> cr_bucket_ms c);
          json = J_Obj [(''at'', J_Str (rfc3339 co at)), (''interval_ms'', J_Int (uint ms)),
            (''rows'', J_Arr (map (\<lambda>c. counter_json co c identities) (r_counters rows)))]
      in case snd (ws n) of
           Broken_Pipe \<Rightarrow> ([], Done)
         | Write_Error e \<Rightarrow> ([], Failed [e])
         | Written \<Rightarrow> (case watch_loop co ws (n + 1) identities cs err of
             (ls, fin) \<Rightarrow> (Out (co_compact co json) # ls, fin)))"

definition watch_json ::
    "console \<Rightarrow> (nat \<Rightarrow> i64 \<times> write_result) \<Rightarrow> (watch_req \<Rightarrow> anyhow + (rows \<times> u32) list \<times> anyhow option)
       \<Rightarrow> watch_req \<Rightarrow> ran" where
  "watch_json co ws live w =
     (case live w of
        Inl e \<Rightarrow> ([], Failed e)
      | Inr (cs, err) \<Rightarrow> watch_loop co ws 0 [] cs err)"

definition cli_status :: "console \<Rightarrow> anyhow + hello_ok \<Rightarrow> ran" where
  "cli_status co hello =
     (case hello of
        Inl e \<Rightarrow> ([], Failed e)
      | Inr h \<Rightarrow>
          (let collector = (if ho_collector_active h then ''running'' else ''not running (stored history only)'')
           in ([Out (''daemon:    procflowd '' @ ho_version h)]
               @ then_some (ho_demo h) (Out (''note:      '' @ DEMO_NOTE))
               @ [Out (''collector: '' @ collector),
                  Out (''protocol:  v'' @ dec (unat (ho_proto_min h)) @ ''..=v'' @ dec (unat (ho_proto_max h))
                    @ '' (client v'' @ dec (unat PROTO_VERSION) @ '')''),
                  Out (''socket:    '' @ socket_path (co_env_socket co))], Done)))"


section \<open>Dispatch\<close>

datatype command =
    C_Top window_args direction scope group_by u32 "tier option" dimensions output_args
  | C_Series i64 window_args scope "tier option" output_args
  | C_List "string option" dimensions bool
  | C_Show i64 bool
  | C_Watch scope group_by u32 bool
  | C_Status

record cli =
  cl_theme :: nat
  cl_transparent :: bool
  cl_command :: "command option"

text \<open>What running the program comes to: the interactive view with its settings, or a plain command.\<close>

datatype program = Interactive scope group_by nat bool | Plain ran

definition unwrap_tier :: "tier option \<Rightarrow> tier" where
  "unwrap_tier t = (case t of None \<Rightarrow> Tier_Unspecified | Some t \<Rightarrow> t)"

definition cli_main ::
    "console \<Rightarrow> 'd local_time \<Rightarrow> i64 \<Rightarrow> bool \<Rightarrow> rpc \<Rightarrow> anyhow + hello_ok
       \<Rightarrow> (watch_req \<Rightarrow> anyhow + (rows \<times> u32) list \<times> anyhow option) \<Rightarrow> (nat \<Rightarrow> i64 \<times> write_result) \<Rightarrow> cli \<Rightarrow> program" where
  "cli_main co lt now_ms terminal rpc hello live ws c =
     (case cl_command c of
        None \<Rightarrow> Interactive Scope_External Group_Identity (cl_theme c) (cl_transparent c)
      | Some (C_Watch scope by limit as_json) \<Rightarrow>
          if as_json \<or> \<not> terminal
          then Plain (watch_json co ws live \<lparr>w_scope = scope, w_group_by = by, w_limit = limit\<rparr>)
          else Interactive scope by (cl_theme c) (cl_transparent c)
      | Some (C_Top window dir scope by limit tier dims outp) \<Rightarrow>
          Plain (cli_top co rpc
            \<lparr>ti_range = Some (window_range lt now_ms window), ti_tier = unwrap_tier tier, ti_scope = scope,
             ti_group_by = by, ti_limit = limit, ti_direction = dir, ti_project = dm_project dims,
             ti_exe = dm_exe dims, ti_user = dm_user dims\<rparr> outp)
      | Some (C_Series identity_id window scope tier outp) \<Rightarrow>
          Plain (cli_series co rpc
            \<lparr>sr_identity_id = identity_id, sr_tier = unwrap_tier tier,
             sr_range = Some (window_range lt now_ms window), sr_scope = scope\<rparr> outp)
      | Some (C_List filter_text dims as_json) \<Rightarrow>
          Plain (cli_list co rpc
            \<lparr>li_filter = (case filter_text of None \<Rightarrow> [] | Some f \<Rightarrow> f), li_project = dm_project dims,
             li_exe = dm_exe dims, li_user = dm_user dims\<rparr> as_json)
      | Some (C_Show identity_id as_json) \<Rightarrow> Plain (cli_show co rpc identity_id as_json)
      | Some C_Status \<Rightarrow> Plain (cli_status co hello))"


section \<open>Every identity row is described\<close>

lemma top_group_key:
  assumes "(key, s) \<in> set (top_groups env ps by traffic st)"
  shows "\<exists>i k. key = top_key by i k \<and> i \<in> set (db_identity (st_db st)) \<and> row_id i = fk_identity k
    \<and> ids_hold (qe_lower env) ps i"
proof -
  have "key \<in> fst ` set (top_groups env ps by traffic st)" using assms by force
  then have "key \<in> fst ` set (map (\<lambda>(i, k, c). (top_key by i k, widen c)) (joined env ps traffic st))"
    unfolding top_groups_def hash.keys_fold by simp
  then show ?thesis by (fastforce simp: joined_def)
qed

lemma identities_by_id_found:
  assumes "identities_by_id env vis ids st = Inr found" "i \<in> set (db_identity (st_db st))"
    "row_id i \<in> set ids" "may_see vis i"
  shows "identity_of_row i \<in> set found"
proof -
  have "ids \<noteq> []" using assms(3) by auto
  then show ?thesis
    using assms by (auto simp: identities_by_id_def select_identities_def order_by_id_def split: if_splits)
qed

text \<open>A row of \<open>top\<close> per identity names one of the identities that come with it; a row per group names none.\<close>

lemma q_top_described:
  assumes "q_top env vis q now st = Inr rows" "c \<in> set (r_counters rows)" "0 \<notin> identity_ids (st_db st)"
  shows "if group_header (ti_group_by q) = None
    then \<exists>i \<in> set (r_identities rows). id_id i = cr_identity_id c
    else cr_identity_id c = 0 \<and> r_identities rows = []"
proof -
  let ?ps = "p_scope (ti_scope q) (p_dimensions (ti_project q) (ti_exe q) (ti_user q) (p_visibility vis no_predicates))"
  obtain lo hi t traffic where run: "stitched env st t lo hi = Inr traffic"
      "top_rows lo (take_limit (ti_limit q) (sort_key (\<lambda>(k, s). (- rank_sum (ti_direction q) s, k))
         (top_groups env ?ps (ti_group_by q) traffic st))) = Inr (r_counters rows)"
      "identities_by_id env vis (remdups_adj (sort (filter (\<lambda>n. n \<noteq> 0) (map cr_identity_id (r_counters rows))))) st
         = Inr (r_identities rows)"
    using assms(1) unfolding q_top_def Let_def
    by (auto split: sum.split_asm prod.split_asm if_split_asm)
  let ?gs = "take_limit (ti_limit q) (sort_key (\<lambda>(k, s). (- rank_sum (ti_direction q) s, k))
         (top_groups env ?ps (ti_group_by q) traffic st))"
  have key: "\<exists>i k. cr_identity_id d = fst (top_key (ti_group_by q) i k) \<and> i \<in> set (db_identity (st_db st))
      \<and> row_id i = fk_identity k \<and> may_see vis i" if d: "d \<in> set (r_counters rows)" for d
  proof -
    obtain p where p: "p \<in> set ?gs" "cr_identity_id d = fst (fst p)"
      using top_rows_Inr [OF run(2)] d by (fastforce simp: list_all2_conv_all_nth in_set_conv_nth)
    then have "p \<in> set (top_groups env ?ps (ti_group_by q) traffic st)"
      using set_take_subset by (fastforce simp: take_limit_def split: if_splits)
    then obtain i k where "fst p = top_key (ti_group_by q) i k" "i \<in> set (db_identity (st_db st))"
        "row_id i = fk_identity k" "ids_hold (qe_lower env) ?ps i"
      using top_group_key [of "fst p" "snd p"] by (metis prod.collapse)
    with p(2) show ?thesis by (metis ids_hold_scope seen_rows)
  qed
  show ?thesis
  proof (cases "group_header (ti_group_by q) = None")
    case True
    then have fst_key: "fst (top_key (ti_group_by q) i k) = fk_identity k" for i k
      by (cases "ti_group_by q") (simp_all add: group_header_def top_key_def)
    obtain i where i: "i \<in> set (db_identity (st_db st))" "row_id i = cr_identity_id c" "may_see vis i"
      using key [OF assms(2)] fst_key by metis
    have "cr_identity_id c \<noteq> 0" using i(1,2) assms(3) by (force simp: identity_ids_def)
    then have "cr_identity_id c \<in> set (remdups_adj (sort (filter (\<lambda>n. n \<noteq> 0) (map cr_identity_id (r_counters rows)))))"
      using assms(2) by simp
    then have "identity_of_row i \<in> set (r_identities rows)"
      using identities_by_id_found [OF run(3) i(1) _ i(3)] i(2) by simp
    with i(2) True show ?thesis by (auto simp: identity_of_row_def intro!: bexI [of _ "identity_of_row i"])
  next
    case False
    then have "fst (top_key (ti_group_by q) i k) = 0" for i k
      by (cases "ti_group_by q") (simp_all add: group_header_def top_key_def)
    then have zero: "\<forall>d \<in> set (r_counters rows). cr_identity_id d = 0" using key by metis
    then have "filter (\<lambda>n. n \<noteq> 0) (map cr_identity_id (r_counters rows)) = []" by (simp add: filter_empty_conv)
    with run(3) zero assms(2) False show ?thesis by (simp add: identities_by_id_def)
  qed
qed

lemma map_of_map_extend:
  "map_of (map_extend kvs m) k = (case map_of (rev kvs) k of Some v \<Rightarrow> Some v | None \<Rightarrow> map_of m k)"
  by (induction kvs arbitrary: m) (auto simp: map_extend_def update_conv map_add_def split: option.splits)

lemma by_id_found: "i \<in> set is \<Longrightarrow> map_of (by_id is) (id_id i) \<noteq> None"
  by (force simp: by_id_def map_of_map_extend map_of_eq_None_iff image_iff split: option.split)

lemma by_id_Nil [simp]: "by_id [] = []"
  by (simp add: by_id_def map_extend_def)

lemma length_then_some [simp]: "length (then_some b x) = (if b then 1 else 0)"
  by (simp add: then_some_def)

lemma top_cells_length:
  assumes "q_top env vis q now st = Inr rows" "c \<in> set (r_counters rows)" "0 \<notin> identity_ids (st_db st)"
  shows "length (top_cells q outp (by_id (r_identities rows)) c) = length (top_headers q)"
proof (cases "group_header (ti_group_by q) = None")
  case True
  then obtain i where "i \<in> set (r_identities rows)" "id_id i = cr_identity_id c"
    using q_top_described [OF assms] by auto
  then obtain j where "map_of (by_id (r_identities rows)) (cr_identity_id c) = Some j"
    using by_id_found by (metis not_None_eq)
  with True show ?thesis by (simp add: top_cells_def top_headers_def identity_cells_def)
next
  case False
  then show ?thesis
    using q_top_described [OF assms] by (auto simp: top_cells_def top_headers_def)
qed


section \<open>Properties\<close>

text \<open>C39. \<open>procflow top\<close> shows the daemon's whole answer and never panics: for any answer of the query it prints
  the title and a table with the header and exactly one line per counter row in the daemon's order, each
  cut from its row's cells, or says that there was no traffic; a demo daemon's answer is flagged first.\<close>

theorem top_prints_every_row:
  assumes "q_top env vis q now st = Inr rows" "0 \<notin> identity_ids (st_db st)" "\<not> ou_json outp"
    and "rpc (TopIdentities q) = Inr (rows\<lparr>r_demo := demo\<rparr>)"
  shows "\<exists>r. ti_range q = Some r \<and> cli_top co rpc q outp =
    (then_some demo (Err (''note: '' @ DEMO_NOTE)) @
     (if r_counters rows = [] then [Out ''no traffic recorded in this window'']
      else [Out (top_title co r (ti_scope q) (r_tier rows)),
            Out (join [CHR 0x0A] (map (table_line (top_numbers q)
              (map (col_width (top_headers q) (map (top_cells q outp (by_id (r_identities rows))) (r_counters rows)))
                 [0..<length (top_headers q)]))
              (top_headers q # map (top_cells q outp (by_id (r_identities rows))) (r_counters rows))))]), Done)"
proof -
  obtain r where r: "ti_range q = Some r"
    using assms(1) by (cases "ti_range q") (simp_all add: q_top_def range_s_def)
  have "list_all (\<lambda>row. length row = length (top_headers q))
      (map (top_cells q outp (by_id (r_identities rows))) (r_counters rows))"
    using top_cells_length [OF assms(1) _ assms(2)] by (simp add: list_all_iff)
  with r assms(3,4) show ?thesis
    by (simp add: cli_top_def with_fetched_def fetch_def print_table_def table_def then_some_def Let_def)
qed

definition plain_console :: console where
  "plain_console = \<lparr>co_wall = \<lparr>wl_in_range = (\<lambda>_. True), wl_format = (\<lambda>f _. f), wl_rfc3339 = (\<lambda>_. [])\<rparr>,
     co_pretty = (\<lambda>_. []), co_compact = (\<lambda>_. []), co_env_socket = None\<rparr>"

lemma top_prints_every_row_witness:
  "\<exists>rows title text. q_top calm_env (Vis_Uid 1000) demo_top 1783337400 demo_traffic = Inr rows
    \<and> cli_top plain_console (\<lambda>_. Inr (rows\<lparr>r_demo := True\<rparr>)) demo_top \<lparr>ou_json = False, ou_bytes = True\<rparr>
      = ([Err (''note: '' @ DEMO_NOTE), Out title, Out text], Done)"
proof -
  have "map_sum id (length \<circ> r_counters) (q_top calm_env (Vis_Uid 1000) demo_top 1783337400 demo_traffic) = Inr 1"
    by code_simp
  then obtain rows where rows: "q_top calm_env (Vis_Uid 1000) demo_top 1783337400 demo_traffic = Inr rows"
      "r_counters rows \<noteq> []"
    by (cases "q_top calm_env (Vis_Uid 1000) demo_top 1783337400 demo_traffic") force+
  have "0 \<notin> identity_ids (st_db demo_traffic)"
    by (simp add: identity_ids_def demo_traffic_def demo_store_def)
  from top_prints_every_row [OF rows(1) this, where outp = "\<lparr>ou_json = False, ou_bytes = True\<rparr>"
      and rpc = "\<lambda>_. Inr (rows\<lparr>r_demo := True\<rparr>)" and demo = True and co = plain_console] rows
  show ?thesis by (auto simp: then_some_def)
qed

lemma wrap_i64_id: "- (2 ^ 63) \<le> x \<Longrightarrow> x < 2 ^ 63 \<Longrightarrow> wrap_i64 x = x"
  by (simp add: wrap_i64_def)

lemma parse_i64_dec: "n < 2 ^ 63 \<Longrightarrow> parse_i64 (dec n) = Some (int n)"
proof -
  assume n: "n < 2 ^ 63"
  obtain c r where d: "dec n = c # r" using dec_digits [of n] by (cases "dec n") auto
  have "is_digit c" using dec_digits [of n] d by simp
  then have "c \<noteq> CHR ''-''" "c \<noteq> CHR ''+''" by (auto simp: is_digit_def)
  with n d parse_digits_dec [of n] show ?thesis by (simp add: parse_i64_def)
qed

text \<open>\<open>--since\<close> means what it says: the text of a positive number and a unit is read as exactly that many
  seconds, and the window that flag gives ends now and starts exactly that long ago, as long as the span
  in milliseconds fits before now in a signed 64-bit count; whatever is accepted was a unit letter after
  a positive number.\<close>

theorem since_window_exact:
  shows "(unit_seconds [c] = Some u \<and> 0 < n \<and> int n * u * 1000 \<le> now_ms \<and> now_ms < 2 ^ 63 \<longrightarrow>
     duration_arg (dec n @ [c]) = Inr (int n * u) \<and>
     window_range lt now_ms \<lparr>wa_since = Some (int n * u), wa_today = False, wa_this_month = False,
         wa_from = None, wa_to = None\<rparr>
       = \<lparr>from_unix_ms = now_ms - int n * u * 1000, to_unix_ms = now_ms\<rparr>) \<and>
   (duration_arg v = Inr s \<longrightarrow> (\<exists>body c u n. v = body @ [c] \<and> unit_seconds [c] = Some u
     \<and> parse_i64 body = Some n \<and> 0 < n \<and> s = wrap_i64 (n * u)))"
proof (intro conjI impI)
  assume a: "unit_seconds [c] = Some u \<and> 0 < n \<and> int n * u * 1000 \<le> now_ms \<and> now_ms < 2 ^ 63"
  then have u: "u \<in> {60, 3600, 86400, 604800}" by (auto simp: unit_seconds_def split: if_splits)
  then have nu: "int n \<le> int n * u" "0 < int n * u" using a by auto
  then have small: "int n * u < 2 ^ 63" "int n < 2 ^ 63" "int n * u * 1000 < 2 ^ 63" "0 \<le> now_ms" using a by linarith+
  then have "n < 2 ^ 63" by simp
  note small = this small
  have wrap: "wrap_i64 (int n * u) = int n * u" "wrap_i64 (int n * u * 1000) = int n * u * 1000"
      "wrap_i64 (now_ms - int n * u * 1000) = now_ms - int n * u * 1000"
    by (rule wrap_i64_id; use a nu small in linarith)+
  show "duration_arg (dec n @ [c]) = Inr (int n * u)"
    using a nu small wrap by (simp add: duration_arg_def Let_def parse_i64_dec)
  show "window_range lt now_ms \<lparr>wa_since = Some (int n * u), wa_today = False, wa_this_month = False,
         wa_from = None, wa_to = None\<rparr> = \<lparr>from_unix_ms = now_ms - int n * u * 1000, to_unix_ms = now_ms\<rparr>"
    by (simp only: window_range_def Let_def window_args.simps option.case if_False wrap)
next
  assume ok: "duration_arg v = Inr s"
  have "v \<noteq> []" using ok by (auto simp: duration_arg_def unit_seconds_def)
  then obtain body c where v: "v = body @ [c]" by (metis append_butlast_last_id)
  then show "\<exists>body c u n. v = body @ [c] \<and> unit_seconds [c] = Some u
     \<and> parse_i64 body = Some n \<and> 0 < n \<and> s = wrap_i64 (n * u)"
    using ok by (auto simp: duration_arg_def Let_def split: option.splits if_splits)
qed

lemma since_window_exact_witness:
  "duration_arg (dec 90 @ ''m'') = Inr 5400 \<and>
   (\<forall>lt :: int local_time. window_range lt 1783337400000 \<lparr>wa_since = Some 5400, wa_today = False,
       wa_this_month = False, wa_from = None, wa_to = None\<rparr>
     = \<lparr>from_unix_ms = 1783332000000, to_unix_ms = 1783337400000\<rparr>)"
proof -
  note run = since_window_exact [of "CHR ''m''" 60 90 1783337400000, where v = "[]" and s = 0]
  show ?thesis using run [where 'a = int] by (auto simp: unit_seconds_def)
qed

text \<open>A count of weeks that overflows is accepted and wraps to a negative span (in a build without overflow
  checks; with them it panics).\<close>

lemma duration_overflow: "duration_arg (dec 15250284452472 @ ''w'') = Inr (- 9223372036854486016)"
  by (simp add: duration_arg_def Let_def unit_seconds_def parse_i64_dec wrap_i64_def)


section \<open>The module's tests\<close>

text \<open>
  Chrono at offset zero over the Gregorian calendar, for the tests: dates are days since the epoch. The
  formats are the ones the program and its tests use.
\<close>

definition two_digits :: "int \<Rightarrow> string" where
  "two_digits n = [digit_char (nat (n div 10 mod 10)), digit_char (nat (n mod 10))]"

definition utc_format :: "string \<Rightarrow> i64 \<Rightarrow> string" where
  "utc_format f ms =
     (let secs = ms div 1000; d = secs div 86400; k = month_of d;
          year = dec (nat (k div 12)); month = two_digits (k mod 12 + 1);
          day = two_digits (d - month_start k + 1);
          hour = two_digits (secs div 3600 mod 24); minute = two_digits (secs div 60 mod 60);
          second = two_digits (secs mod 60)
      in if f = ''%Y-%m-%d'' then year @ ''-'' @ month @ ''-'' @ day
         else if f = ''%Y-%m'' then year @ ''-'' @ month
         else if f = ''%Y-%m-%d %H:%M'' then year @ ''-'' @ month @ ''-'' @ day @ '' '' @ hour @ '':'' @ minute
         else if f = ''%H:%M:%S'' then hour @ '':'' @ minute @ '':'' @ second
         else if f = ''%d %H:%M'' then day @ '' '' @ hour @ '':'' @ minute
         else [])"

definition utc_date :: "string \<Rightarrow> int option" where
  "utc_date s =
     (if length s = 10 \<and> s ! 4 = CHR ''-'' \<and> s ! 7 = CHR ''-'' then
        (case (parse_digits (take 4 s), parse_digits (take 2 (drop 5 s)), parse_digits (drop 8 s)) of
           (Some y, Some m, Some d) \<Rightarrow>
             let k = 12 * int y + int m - 1; day = month_start k + int d - 1
             in if 1 \<le> m \<and> m \<le> 12 \<and> 1 \<le> d \<and> day < month_start (k + 1) then Some day else None
         | _ \<Rightarrow> None)
      else None)"

definition utc_time_arg :: "string \<Rightarrow> string \<Rightarrow> (int \<times> nat) option" where
  "utc_time_arg f s =
     (if length s = 16 \<and> s ! 10 = f ! 8 \<and> s ! 13 = CHR '':'' then
        (case (utc_date (take 10 s), parse_digits (take 2 (drop 11 s)), parse_digits (drop 14 s)) of
           (Some d, Some h, Some m) \<Rightarrow> if h < 24 \<and> m < 60 then Some (d, h * 3600 + m * 60) else None
         | _ \<Rightarrow> None)
      else None)"

definition utc :: "int local_time" where
  "utc = \<lparr>lt_date = (\<lambda>ms. ms div 86400000), lt_day_1 = (\<lambda>d. month_start (month_of d)),
     lt_local = (\<lambda>d s. Single ((d * 86400 + int s) * 1000)), lt_utc = (\<lambda>d s. (d * 86400 + int s) * 1000),
     lt_parse_rfc3339 = (\<lambda>_. None), lt_parse_date = utc_date, lt_parse_time = utc_time_arg\<rparr>"

definition utc_wall :: wall where
  "utc_wall = \<lparr>wl_in_range = (\<lambda>_. True), wl_format = utc_format, wl_rfc3339 = utc_format ''%Y-%m-%d''\<rparr>"

definition durations_and_enums_parse :: bool where
  "durations_and_enums_parse \<longleftrightarrow>
     (let up = map ascii_upper in
      duration_arg ''90m'' = Inr 5400 \<and> duration_arg ''24h'' = Inr 86400 \<and> duration_arg ''2w'' = Inr (14 * 86400)
      \<and> list_all (\<lambda>bad. isl (duration_arg bad)) [[], ''h'', ''0h'', ''-3h'', ''12'', ''1y'', ''1.5h'']
      \<and> scope_arg up ''loopback'' = Inr Scope_Loopback \<and> group_arg up ''project'' = Inr Group_Project
      \<and> tier_arg up ''Day'' = Inr Tier_Day \<and> direction_arg up ''both'' = Inr Direction_Unspecified
      \<and> direction_arg up ''egress'' = Inr Direction_Egress \<and> isl (scope_arg up ''lan''))"

definition no_window :: window_args where
  "no_window = \<lparr>wa_since = None, wa_today = False, wa_this_month = False, wa_from = None, wa_to = None\<rparr>"

text \<open>The flags as clap parses them; that it refuses contradictory ones is clap's.\<close>

definition windows_resolve_against_local_time :: "i64 \<Rightarrow> bool" where
  "windows_resolve_against_local_time now_ms \<longleftrightarrow>
     (let range_of = window_range utc now_ms;
          parsed = (\<lambda>v. case instant_arg utc v of Inl _ \<Rightarrow> None | Inr t \<Rightarrow> Some t);
          midnight = from_unix_ms (range_of (no_window\<lparr>wa_today := True\<rparr>));
          month = from_unix_ms (range_of (no_window\<lparr>wa_this_month := True\<rparr>));
          explicit = range_of (no_window\<lparr>wa_from := parsed ''2026-07-06'', wa_to := parsed ''2026-07-06 12:30''\<rparr>)
      in range_of no_window = \<lparr>from_unix_ms = now_ms - 86400000, to_unix_ms = now_ms\<rparr>
       \<and> (case duration_arg ''90m'' of Inl _ \<Rightarrow> False
          | Inr s \<Rightarrow> from_unix_ms (range_of (no_window\<lparr>wa_since := Some s\<rparr>)) = now_ms - 5400000)
       \<and> utc_format ''%H:%M:%S'' (fmt_local utc_wall midnight) = ''00:00:00''
       \<and> lt_date utc midnight = lt_date utc now_ms
       \<and> utc_format ''%d %H:%M'' (fmt_local utc_wall month) = ''01 00:00''
       \<and> fmt_bucket utc_wall (from_unix_ms explicit) Tier_Minute = ''2026-07-06 00:00''
       \<and> fmt_bucket utc_wall (to_unix_ms explicit) Tier_Minute = ''2026-07-06 12:30'')"

lemmas duration_eval = duration_arg_def parse_i64_def parse_digits_def digits_value_def digit_value_def
  is_digit_def unit_seconds_def wrap_i64_def

lemmas enum_eval = enum_arg_def scope_arg_def group_arg_def tier_arg_def direction_arg_def scope_from_name_def
  group_from_name_def tier_from_name_def direction_from_name_def ascii_upper_def

lemma durations_and_enums_parse: "durations_and_enums_parse"
  unfolding durations_and_enums_parse_def Let_def
  by (simp add: duration_eval enum_eval char_of_def bit_0)

lemma utc_dates:
  "utc_date ''2026-07-06'' = Some 20640" "utc_date ''2026-07-06 12:30'' = None"
  "utc_time_arg ''%Y-%m-%d %H:%M'' ''2026-07-06 12:30'' = Some (20640, 45000)"
  by (simp_all add: utc_time_arg_def utc_date_def parse_digits_def digits_value_def digit_value_def is_digit_def
      month_start_def days_before_year_def days_before_month_def leap_def Let_def)

lemma utc_instants:
  "instant_arg utc ''2026-07-06'' = Inr 1783296000000" "instant_arg utc ''2026-07-06 12:30'' = Inr 1783341000000"
  by (simp_all add: instant_arg_def utc_def utc_dates local_midnight_ms_def local_ms_def earliest_def)

lemma utc_month: "month_of 20640 = 24318" "month_of 20635 = 24318" "month_start 24318 = 20635"
  by code_simp+

lemma utc_formats:
  "utc_format ''%H:%M:%S'' 1783296000000 = ''00:00:00''" "utc_format ''%d %H:%M'' 1782864000000 = ''01 00:00''"
  "utc_format ''%Y-%m-%d %H:%M'' 1783296000000 = ''2026-07-06 00:00''"
  "utc_format ''%Y-%m-%d %H:%M'' 1783341000000 = ''2026-07-06 12:30''"
  by (simp_all add: utc_format_def utc_month two_digits_def dec_numeral digit_chars Let_def)

lemma windows_resolve: "windows_resolve_against_local_time 1783337400000"
proof -
  have d: "duration_arg ''90m'' = Inr 5400" by (simp add: duration_eval)
  show ?thesis
    unfolding windows_resolve_against_local_time_def Let_def utc_instants d
    by (simp add: window_range_def wrap_i64_def no_window_def fmt_bucket_def bucket_format_def fmt_local_def
        utc_wall_def utc_formats)
      (simp add: utc_def local_midnight_ms_def local_ms_def earliest_def utc_month utc_formats)
qed

end
