(* ===== verification/Tui.thy ===== *)
theory Tui
  imports Cli
begin

text \<open>
  The interactive view (\<open>procflow/src/tui.rs\<close>): its state, what arrives from the daemon, how rows are
  derived, and what each key does. The daemon is the function \<open>rpc\<close>, the live stream a list of messages,
  a panic is \<open>None\<close>. Hash maps are association lists in the order of insertion. The rows are sorted at the
  end, but the order shows where Rust leaves it open, in the order of an iteration over a \<open>HashMap\<close>: among rows with
  equal rates, among equal members of a group, and in the fields a group takes from the first identity met
  (\<open>rw_second\<close> when grouping by user). Strings being typed are UTF-8 bytes, a typed character the bytes of one code point.
\<close>

section \<open>Windows, orders and choices\<close>

definition TREND_TICKS :: nat where "TREND_TICKS = 60"
definition RATE_TICKS :: nat where "RATE_TICKS = 3"
definition REFRESH_MS :: i64 where "REFRESH_MS = 10000"
definition RECONNECT_MS :: i64 where "RECONNECT_MS = 2000"

datatype view_window = W_Live | W_Hour | W_Today | W_Week | W_Month | W_AllTime

fun window_label :: "view_window \<Rightarrow> string" where
  "window_label W_Live = ''Live''"
| "window_label W_Hour = ''Last hour''"
| "window_label W_Today = ''Today''"
| "window_label W_Week = ''Last 7 days''"
| "window_label W_Month = ''This month''"
| "window_label W_AllTime = ''All time''"

definition view_range :: "'d local_time \<Rightarrow> i64 \<Rightarrow> view_window \<Rightarrow> time_range option" where
  "view_range lt now_ms w =
     (let today = lt_date lt now_ms;
          until = (\<lambda>start. Some \<lparr>from_unix_ms = start, to_unix_ms = now_ms\<rparr>) in
      case w of
        W_Live \<Rightarrow> None
      | W_Hour \<Rightarrow> until (now_ms - 3600000)
      | W_Today \<Rightarrow> until (local_midnight_ms lt today)
      | W_Week \<Rightarrow> until (now_ms - 7 * 86400000)
      | W_Month \<Rightarrow> until (local_midnight_ms lt (lt_day_1 lt today))
      | W_AllTime \<Rightarrow> until 0)"

datatype sort_by = S_Both | S_Ingress | S_Egress

definition DOWN :: string where "DOWN = map char_of [0xE2, 0x96, 0xBC :: nat]"
definition UP :: string where "UP = map char_of [0xE2, 0x96, 0xB2 :: nat]"

fun sort_label :: "sort_by \<Rightarrow> string" where
  "sort_label S_Both = DOWN @ UP"
| "sort_label S_Ingress = DOWN @ '' in''"
| "sort_label S_Egress = UP @ '' out''"

definition saturating_add :: "u64 \<Rightarrow> u64 \<Rightarrow> u64" where
  "saturating_add a b = (if uint a + uint b < 2 ^ 64 then a + b else - 1)"

fun sort_value :: "sort_by \<Rightarrow> counts \<Rightarrow> u64" where
  "sort_value S_Both c = saturating_add (ingress c) (egress c)"
| "sort_value S_Ingress c = ingress c"
| "sort_value S_Egress c = egress c"

datatype focus = F_Sidebar | F_Table

datatype choice = Ch_Window view_window | Ch_Group group_by | Ch_Scope scope

definition CHOICES :: "choice list" where
  "CHOICES = [Ch_Window W_Live, Ch_Window W_Hour, Ch_Window W_Today, Ch_Window W_Week, Ch_Window W_Month,
     Ch_Window W_AllTime, Ch_Group Group_Identity, Ch_Group Group_Project, Ch_Group Group_Exe,
     Ch_Group Group_User, Ch_Scope Scope_External, Ch_Scope Scope_Loopback, Ch_Scope Scope_All]"

datatype live_status = L_Connecting | L_Live | L_Down string

datatype view_feed = V_Chunk rows u32 | V_Down string


section \<open>Measures\<close>

text \<open>One identity's live traffic in one scope: bytes per poll interval, and since the view opened.\<close>

record flow =
  fl_samples :: "counts list"
  fl_session :: counts

definition default_flow :: flow where
  "default_flow = \<lparr>fl_samples = [], fl_session = 0\<rparr>"

text \<open>
  \<open>Measure::add\<close> is the addition of a commutative monoid: samples are added position by position, a
  shorter list being extended with zeros. So adding up measures does not depend on a hash map's order.
\<close>

fun add_samples :: "counts list \<Rightarrow> counts list \<Rightarrow> counts list" where
  "add_samples [] ys = ys"
| "add_samples xs [] = xs"
| "add_samples (x # xs) (y # ys) = (x + y) # add_samples xs ys"

lemma add_samples_Nil [simp]: "add_samples xs [] = xs"
  by (cases xs) simp_all

datatype measure_sum = Measure (ms_now: counts) (ms_session: counts) (ms_samples: "counts list")

definition measure_add :: "measure_sum \<Rightarrow> measure_sum \<Rightarrow> measure_sum" where
  "measure_add a b = Measure (ms_now a + ms_now b) (ms_session a + ms_session b)
     (add_samples (ms_samples a) (ms_samples b))"

instantiation measure_sum :: comm_monoid_add
begin

definition zero_measure_sum :: measure_sum where
  "zero_measure_sum = Measure 0 0 []"

definition plus_measure_sum :: "measure_sum \<Rightarrow> measure_sum \<Rightarrow> measure_sum" where
  "plus_measure_sum = measure_add"

instance
proof
  have comm: "add_samples xs ys = add_samples ys xs" for xs ys
    by (induction xs ys rule: add_samples.induct) (simp_all add: add.commute)
  have assoc: "add_samples (add_samples xs ys) zs = add_samples xs (add_samples ys zs)" for xs ys zs
  proof (induction xs ys arbitrary: zs rule: add_samples.induct)
    case (3 x xs y ys)
    then show ?case by (cases zs) (simp_all add: add.assoc)
  qed simp_all
  fix a b c :: measure_sum
  show "a + b + c = a + (b + c)" by (simp add: plus_measure_sum_def measure_add_def assoc add.assoc)
  show "a + b = b + a" by (simp add: plus_measure_sum_def measure_add_def comm [of "ms_samples a"] add.commute)
  show "0 + a = a" by (simp add: plus_measure_sum_def measure_add_def zero_measure_sum_def)
qed

end

lemma measure_sel [simp]:
  "ms_now (a + b) = ms_now a + ms_now b" "ms_session (a + b) = ms_session a + ms_session b"
  "ms_now 0 = 0" "ms_session 0 = 0" "ms_samples 0 = []"
  "ms_samples (a + b) = add_samples (ms_samples a) (ms_samples b)"
  by (simp_all add: plus_measure_sum_def measure_add_def zero_measure_sum_def)


section \<open>The state\<close>

record view_row =
  rw_key :: string
  rw_identity :: "i64 option"
  rw_name :: string
  rw_second :: string
  rw_third :: string
  rw_sum :: measure_sum
  rw_members :: "(string \<times> counts) list"
  rw_unresolved :: bool
  rw_haystack :: string

record view_history =
  hi_ingress :: "u64 list"
  hi_egress :: "u64 list"
  hi_tier :: string

definition default_history :: view_history where
  "default_history = \<lparr>hi_ingress = [], hi_egress = [], hi_tier = []\<rparr>"

record app =
  ap_daemon :: hello_ok
  ap_live :: live_status
  ap_identities :: "(i64 \<times> identity) list"
  ap_flows :: "((i64 \<times> scope) \<times> flow) list"
  ap_intervals :: "u32 list"
  ap_stored :: "counter_row list"
  ap_today :: counts
  ap_error :: "string option"
  ap_refreshed :: "i64 option"
  ap_history :: view_history
  ap_history_for :: "(i64 \<times> view_window \<times> scope) option"
  ap_window :: view_window
  ap_group :: group_by
  ap_scope :: scope
  ap_sort :: sort_by
  ap_focus :: focus
  ap_filter :: string
  ap_filtering :: bool
  ap_sidebar :: nat
  ap_table :: "nat option"
  ap_selected_key :: "string option"
  ap_theme_index :: nat
  ap_transparent :: bool
  ap_rows :: "view_row list"
  ap_group_sizes :: "nat list"
  ap_total :: measure_sum

definition app_new :: "hello_ok \<Rightarrow> scope \<Rightarrow> group_by \<Rightarrow> app" where
  "app_new daemon sc g = \<lparr>
     ap_daemon = daemon, ap_live = L_Connecting, ap_identities = [], ap_flows = [], ap_intervals = [],
     ap_stored = [], ap_today = 0, ap_error = None, ap_refreshed = None, ap_history = default_history,
     ap_history_for = None, ap_window = W_Live, ap_group = g, ap_scope = sc, ap_sort = S_Both,
     ap_focus = F_Table, ap_filter = [], ap_filtering = False, ap_sidebar = 0, ap_table = None,
     ap_selected_key = None, ap_theme_index = 0, ap_transparent = False, ap_rows = [],
     ap_group_sizes = [0, 0, 0, 0], ap_total = 0\<rparr>"


section \<open>Live traffic\<close>

definition push_capped :: "'a \<Rightarrow> 'a list \<Rightarrow> 'a list" where
  "push_capped sample samples =
     (if length samples = TREND_TICKS then tl samples else samples) @ [sample]"

definition chunk_deltas :: "counter_row list \<Rightarrow> ((i64 \<times> scope) \<times> counts) list" where
  "chunk_deltas cs =
     fold (\<lambda>(k, d). hash_bump k d)
       (map (\<lambda>c. ((cr_identity_id c, cr_scope c), Counts (cr_ingress c) (cr_egress c))) cs) []"

definition or_default_flow :: "(i64 \<times> scope) \<Rightarrow> ((i64 \<times> scope) \<times> flow) list \<Rightarrow> ((i64 \<times> scope) \<times> flow) list" where
  "or_default_flow k t = (if map_of t k = None then t @ [(k, default_flow)] else t)"

definition sample_flow :: "counts \<Rightarrow> flow \<Rightarrow> flow" where
  "sample_flow d f = \<lparr>fl_samples = push_capped d (fl_samples f), fl_session = fl_session f + d\<rparr>"

definition on_chunk :: "rows \<Rightarrow> u32 \<Rightarrow> app \<Rightarrow> app" where
  "on_chunk rows interval_ms ap =
     (let deltas = chunk_deltas (r_counters rows);
          flows = fold or_default_flow (map fst deltas) (ap_flows ap)
      in ap\<lparr>ap_live := L_Live,
            ap_identities := map_extend (map (\<lambda>i. (id_id i, i)) (r_identities rows)) (ap_identities ap),
            ap_flows := map (\<lambda>(k, f). (k, sample_flow (get_or_zero deltas k) f)) flows,
            ap_intervals := push_capped (max interval_ms 1) (ap_intervals ap)\<rparr>)"

text \<open>\<open>bytes * 1000 / ms\<close> on \<open>u64\<close>; dividing by zero panics.\<close>

definition per_second :: "u64 \<Rightarrow> counts \<Rightarrow> counts option" where
  "per_second ms c =
     (if ms = 0 then None else Some (Counts (ingress c * 1000 div ms) (egress c * 1000 div ms)))"

fun scaled_samples :: "counts list \<Rightarrow> u32 list \<Rightarrow> counts list option" where
  "scaled_samples (c # cs) (ms # mss) =
     (case per_second (ucast ms) c of None \<Rightarrow> None
      | Some s \<Rightarrow> map_option (\<lambda>ss. s # ss) (scaled_samples cs mss))"
| "scaled_samples _ _ = Some []"

text \<open>The measure of one flow. A flow with more samples than there were intervals would underflow.\<close>

definition flow_measure :: "u32 list \<Rightarrow> flow \<Rightarrow> measure_sum option" where
  "flow_measure intervals f =
     (let ticks = length intervals; n = length (fl_samples f);
          recent_ms = sum_list (map ucast (take RATE_TICKS (rev intervals))) :: u64;
          recent = sum_list (take RATE_TICKS (rev (fl_samples f)))
      in if ticks < n then None
         else case scaled_samples (fl_samples f) (drop (ticks - n) intervals) of
                None \<Rightarrow> None
              | Some shown \<Rightarrow>
                  (case per_second (max recent_ms 1) recent of
                     None \<Rightarrow> None
                   | Some now \<Rightarrow> Some (Measure now (fl_session f) (replicate (ticks - n) 0 @ shown))))"

fun add_flows ::
    "u32 list \<Rightarrow> scope \<Rightarrow> ((i64 \<times> scope) \<times> flow) list \<Rightarrow> (i64 \<times> measure_sum) list
       \<Rightarrow> (i64 \<times> measure_sum) list option" where
  "add_flows intervals want [] t = Some t"
| "add_flows intervals want (((i, sc), f) # rest) t =
     (if scope_matches want sc then
        (case flow_measure intervals f of
           None \<Rightarrow> None
         | Some m \<Rightarrow> add_flows intervals want rest (hash_bump i m t))
      else add_flows intervals want rest t)"

definition live_measures :: "app \<Rightarrow> (i64 \<times> measure_sum) list option" where
  "live_measures ap = add_flows (ap_intervals ap) (ap_scope ap) (ap_flows ap) []"

definition stored_measures :: "app \<Rightarrow> (i64 \<times> measure_sum) list" where
  "stored_measures ap =
     fold (\<lambda>(k, d). hash_bump k d)
       (map (\<lambda>c. (cr_identity_id c, Measure (Counts (cr_ingress c) (cr_egress c)) 0 []))
         (filter (\<lambda>c. scope_matches (ap_scope ap) (cr_scope c)) (ap_stored ap))) []"


section \<open>Rows\<close>

text \<open>What the view asks of its surroundings: \<open>HOME\<close>, Unicode lower case, chrono, and the daemon.\<close>

record 'd view_env =
  ve_home :: "string option"
  ve_lower :: "string \<Rightarrow> string"
  ve_time :: "'d local_time"
  ve_rpc :: rpc

definition group_of :: "string option \<Rightarrow> identity \<Rightarrow> group_by \<Rightarrow> string \<times> string \<times> string" where
  "group_of home i g =
     (case g of
        Group_Project \<Rightarrow> (id_project i, fmt_project i, tilde home (id_project i))
      | Group_Exe \<Rightarrow> (id_exe i, basename (id_exe i), tilde home (id_exe i))
      | Group_User \<Rightarrow> (fmt_user i, fmt_user i, ''uid '' @ dec (unat (id_uid i)))
      | _ \<Rightarrow> (dec_int (id_id i), fmt_name i, fmt_project i))"

definition new_row :: "string option \<Rightarrow> group_by \<Rightarrow> i64 \<Rightarrow> identity \<Rightarrow> view_row" where
  "new_row home g n i =
     (case group_of home i g of (key, name, second) \<Rightarrow>
        \<lparr>rw_key = key, rw_identity = (if grouped g then None else Some n), rw_name = name, rw_second = second,
         rw_third = (if grouped g then [] else fmt_user i), rw_sum = 0, rw_members = [],
         rw_unresolved = (\<not> grouped g \<and> id_exe i = ''<unresolved>''), rw_haystack = []\<rparr>)"

definition searchable :: "group_by \<Rightarrow> identity \<Rightarrow> view_row \<Rightarrow> string list" where
  "searchable g i row =
     (if grouped g then [rw_key row, fmt_name i]
      else [fmt_name i, id_project i, id_exe i, id_cmdline i, rw_third row])"

definition add_to_row :: "(string \<Rightarrow> string) \<Rightarrow> group_by \<Rightarrow> identity \<Rightarrow> measure_sum \<Rightarrow> view_row \<Rightarrow> view_row" where
  "add_to_row lower g i m row =
     row\<lparr>rw_haystack := rw_haystack row @ lower (join [CHR 0x0A] (searchable g i row)) @ [CHR 0x0A],
         rw_sum := rw_sum row + m,
         rw_members := rw_members row @ (if grouped g then [(fmt_name i, ms_now m)] else [])\<rparr>"

text \<open>\<open>entry(key).or_insert_with(new)\<close>, then the update of the entry.\<close>

fun in_row :: "string \<Rightarrow> view_row \<Rightarrow> (view_row \<Rightarrow> view_row) \<Rightarrow> view_row list \<Rightarrow> view_row list" where
  "in_row key new f [] = [f new]"
| "in_row key new f (r # rs) = (if rw_key r = key then f r # rs else r # in_row key new f rs)"

definition add_measure ::
    "'d view_env \<Rightarrow> group_by \<Rightarrow> (i64 \<times> identity) list \<Rightarrow> i64 \<times> measure_sum \<Rightarrow> view_row list \<Rightarrow> view_row list" where
  "add_measure ve g identities nm rs =
     (case map_of identities (fst nm) of
        None \<Rightarrow> rs
      | Some i \<Rightarrow> in_row (fst (group_of (ve_home ve) i g)) (new_row (ve_home ve) g (fst nm) i)
                   (add_to_row (ve_lower ve) g i (snd nm)) rs)"

definition build_rows ::
    "'d view_env \<Rightarrow> group_by \<Rightarrow> (i64 \<times> identity) list \<Rightarrow> (i64 \<times> measure_sum) list \<Rightarrow> view_row list" where
  "build_rows ve g identities mss = fold (add_measure ve g identities) mss []"

definition group_sizes ::
    "'d view_env \<Rightarrow> (i64 \<times> identity) list \<Rightarrow> (i64 \<times> measure_sum) list \<Rightarrow> nat list" where
  "group_sizes ve identities mss =
     map (\<lambda>g. length (remdups (map (\<lambda>i. fst (group_of (ve_home ve) i g))
            (List.map_filter (map_of identities) (map fst mss)))))
       [Group_Identity, Group_Project, Group_Exe, Group_User]"

text \<open>Members in order, and how many there are.\<close>

definition finish_row :: "sort_by \<Rightarrow> group_by \<Rightarrow> view_row \<Rightarrow> view_row" where
  "finish_row s g row =
     (let members = sort_key (\<lambda>(name, c). (- uint (sort_value s c), name)) (rw_members row)
      in row\<lparr>rw_members := members,
             rw_third := (if grouped g
                then (if length members = 1 then ''1 identity'' else dec (length members) @ '' identities'')
                else rw_third row)\<rparr>)"

definition rank_rows :: "sort_by \<Rightarrow> view_row list \<Rightarrow> view_row list" where
  "rank_rows s = sort_key (\<lambda>r. (- uint (sort_value s (ms_now (rw_sum r))),
     - uint (sort_value s (ms_session (rw_sum r))), rw_name r, rw_key r))"

definition select :: "nat \<Rightarrow> app \<Rightarrow> app" where
  "select index ap =
     ap\<lparr>ap_table := (if ap_rows ap = [] then None else Some index),
        ap_selected_key := map_option rw_key (nth_opt (ap_rows ap) index)\<rparr>"

definition selected :: "app \<Rightarrow> view_row option" where
  "selected ap = Option.bind (ap_table ap) (nth_opt (ap_rows ap))"

definition recompute :: "'d view_env \<Rightarrow> app \<Rightarrow> app option" where
  "recompute ve ap =
     (case live_measures ap of
        None \<Rightarrow> None
      | Some live \<Rightarrow>
          let mss = (if ap_window ap = W_Live then live else stored_measures ap);
              needle = ve_lower ve (ap_filter ap);
              rows = rank_rows (ap_sort ap) (map (finish_row (ap_sort ap) (ap_group ap))
                (filter (\<lambda>r. contains (rw_haystack r) needle)
                  (build_rows ve (ap_group ap) (ap_identities ap) mss)));
              ap = ap\<lparr>ap_total := sum_list (map snd live),
                      ap_group_sizes := group_sizes ve (ap_identities ap) mss,
                      ap_rows := rows\<rparr>;
              at = (case Option.bind (ap_selected_key ap) (\<lambda>k. position (\<lambda>r. rw_key r = k) rows) of
                      Some i \<Rightarrow> i
                    | None \<Rightarrow> (case ap_table ap of Some i \<Rightarrow> i | None \<Rightarrow> 0))
          in Some (select (min at (length rows - 1)) ap))"


section \<open>History\<close>

definition top_request :: "time_range option \<Rightarrow> group_by \<Rightarrow> request_body" where
  "top_request r g = TopIdentities \<lparr>ti_range = r, ti_tier = Tier_Unspecified, ti_scope = Scope_All,
     ti_group_by = g, ti_limit = 0, ti_direction = Direction_Unspecified, ti_project = [], ti_exe = [], ti_user = []\<rparr>"

definition scoped_total :: "scope \<Rightarrow> counter_row list \<Rightarrow> counts" where
  "scoped_total want cs =
     sum_list (map (\<lambda>c. Counts (cr_ingress c) (cr_egress c)) (filter (\<lambda>c. scope_matches want (cr_scope c)) cs))"

definition refresh :: "'d view_env \<Rightarrow> i64 \<Rightarrow> i64 \<Rightarrow> app \<Rightarrow> app" where
  "refresh ve instant now_ms ap =
     (let ap = ap\<lparr>ap_refreshed := Some instant, ap_history_for := None\<rparr>;
          today = ve_rpc ve (top_request (view_range (ve_time ve) now_ms W_Today) Group_User);
          stored = (case view_range (ve_time ve) now_ms (ap_window ap) of
                      Some r \<Rightarrow> ve_rpc ve (top_request (Some r) Group_Identity)
                    | None \<Rightarrow> Inr empty_rows)
      in case (today, stored) of
           (Inr today, Inr stored) \<Rightarrow>
             ap\<lparr>ap_error := None,
                ap_today := scoped_total (ap_scope ap) (r_counters today),
                ap_identities := map_extend (map (\<lambda>i. (id_id i, i)) (r_identities stored)) (ap_identities ap),
                ap_stored := r_counters stored\<rparr>
         | (Inl e, _) \<Rightarrow> ap\<lparr>ap_error := Some (chain_text e)\<rparr>
         | (_, Inl e) \<Rightarrow> ap\<lparr>ap_error := Some (chain_text e)\<rparr>)"

definition history_of :: "rows \<Rightarrow> view_history" where
  "history_of rows =
     (let buckets = fold (\<lambda>(k, d). btree_bump k d)
            (map (\<lambda>c. (cr_bucket_ms c, Counts (cr_ingress c) (cr_egress c))) (r_counters rows)) []
      in \<lparr>hi_ingress = map (ingress \<circ> snd) buckets, hi_egress = map (egress \<circ> snd) buckets,
          hi_tier = fmt_tier (r_tier rows)\<rparr>)"

definition fetch_history :: "'d view_env \<Rightarrow> i64 \<Rightarrow> app \<Rightarrow> app" where
  "fetch_history ve now_ms ap =
     (case (Option.bind (selected ap) rw_identity, view_range (ve_time ve) now_ms (ap_window ap)) of
        (Some n, Some r) \<Rightarrow>
          let wanted = Some (n, ap_window ap, ap_scope ap) in
          if ap_history_for ap = wanted then ap
          else (case ve_rpc ve (Series \<lparr>sr_identity_id = n, sr_tier = Tier_Unspecified, sr_range = Some r,
                       sr_scope = ap_scope ap\<rparr>) of
                  Inr rows \<Rightarrow> ap\<lparr>ap_history_for := wanted, ap_history := history_of rows\<rparr>
                | Inl e \<Rightarrow> ap\<lparr>ap_history_for := wanted, ap_error := Some (chain_text e),
                              ap_history := default_history\<rparr>)
      | _ \<Rightarrow> ap)"

definition take_feed :: "view_feed \<Rightarrow> app \<Rightarrow> app" where
  "take_feed f ap = (case f of V_Chunk rows ms \<Rightarrow> on_chunk rows ms ap | V_Down reason \<Rightarrow> ap\<lparr>ap_live := L_Down reason\<rparr>)"

text \<open>One frame's worth: what arrived, the instant, and the clock as \<open>refresh\<close> and \<open>fetch_history\<close> read it.\<close>

record frame_input =
  fi_feed :: "view_feed list"
  fi_instant :: i64
  fi_now :: i64
  fi_later :: i64

definition app_tick :: "'d view_env \<Rightarrow> frame_input \<Rightarrow> app \<Rightarrow> app option" where
  "app_tick ve fi ap =
     (let ap = fold take_feed (fi_feed fi) ap;
          due = (case ap_refreshed ap of None \<Rightarrow> True | Some at \<Rightarrow> REFRESH_MS \<le> fi_instant fi - at);
          ap = (if due then refresh ve (fi_instant fi) (fi_now fi) ap else ap)
      in map_option (fetch_history ve (fi_later fi)) (recompute ve ap))"


section \<open>Keys\<close>

datatype key_code =
    K_Char string | K_Esc | K_Enter | K_Backspace | K_Tab | K_BackTab | K_Left | K_Right
  | K_Down | K_Up | K_PageDown | K_PageUp | K_Home | K_End | K_Other

record key_event =
  ke_press :: bool
  ke_control :: bool
  ke_code :: key_code

definition app_theme :: "app \<Rightarrow> theme option" where
  "app_theme ap =
     map_option (\<lambda>t. if ap_transparent ap then see_through t else t) (nth_opt THEMES (ap_theme_index ap))"

definition choose_setting :: "choice \<Rightarrow> app \<Rightarrow> app" where
  "choose_setting c ap =
     (let ap = (case c of
                  Ch_Window w \<Rightarrow> ap\<lparr>ap_window := w\<rparr>
                | Ch_Group g \<Rightarrow> ap\<lparr>ap_group := g\<rparr>
                | Ch_Scope s \<Rightarrow> ap\<lparr>ap_scope := s\<rparr>);
          ap = (case c of Ch_Group _ \<Rightarrow> ap | _ \<Rightarrow> ap\<lparr>ap_refreshed := None\<rparr>)
      in ap\<lparr>ap_selected_key := None, ap_table := None\<rparr>)"

definition is_window :: "choice \<Rightarrow> bool" where
  "is_window c = (case c of Ch_Window _ \<Rightarrow> True | _ \<Rightarrow> False)"

definition is_group :: "choice \<Rightarrow> bool" where
  "is_group c = (case c of Ch_Group _ \<Rightarrow> True | _ \<Rightarrow> False)"

definition is_scope :: "choice \<Rightarrow> bool" where
  "is_scope c = (case c of Ch_Scope _ \<Rightarrow> True | _ \<Rightarrow> False)"

definition cycle :: "(choice \<Rightarrow> bool) \<Rightarrow> app \<Rightarrow> app option" where
  "cycle same_kind ap =
     (let current = {Ch_Window (ap_window ap), Ch_Group (ap_group ap), Ch_Scope (ap_scope ap)};
          options = filter same_kind CHOICES;
          at = (case position (\<lambda>c. c \<in> current) options of Some i \<Rightarrow> i | None \<Rightarrow> 0)
      in if options = [] then None
         else map_option (\<lambda>c. choose_setting c ap) (nth_opt options ((at + 1) mod length options)))"

text \<open>\<open>saturating_add_signed\<close>, then the last index: the upper bound of \<open>usize\<close> is above any length.\<close>

definition view_step :: "int \<Rightarrow> app \<Rightarrow> app" where
  "view_step by ap =
     (let (index, len) = (case ap_focus ap of
            F_Sidebar \<Rightarrow> (ap_sidebar ap, length CHOICES)
          | F_Table \<Rightarrow> (case ap_table ap of None \<Rightarrow> 0 | Some i \<Rightarrow> i, length (ap_rows ap)));
          index = min (nat (int index + by)) (len - 1)
      in case ap_focus ap of
           F_Sidebar \<Rightarrow> ap\<lparr>ap_sidebar := index\<rparr>
         | F_Table \<Rightarrow> select index ap)"

definition ISIZE_MIN :: int where "ISIZE_MIN = - (2 ^ 63)"
definition ISIZE_MAX :: int where "ISIZE_MAX = 2 ^ 63 - 1"

fun next_sort :: "sort_by \<Rightarrow> sort_by" where
  "next_sort S_Both = S_Ingress"
| "next_sort S_Ingress = S_Egress"
| "next_sort S_Egress = S_Both"

definition toggle_focus :: "app \<Rightarrow> app" where
  "toggle_focus ap = ap\<lparr>ap_focus := (case ap_focus ap of F_Sidebar \<Rightarrow> F_Table | F_Table \<Rightarrow> F_Sidebar)\<rparr>"

definition filter_key :: "key_code \<Rightarrow> app \<Rightarrow> app" where
  "filter_key k ap =
     (case k of
        K_Esc \<Rightarrow> ap\<lparr>ap_filter := [], ap_filtering := False\<rparr>
      | K_Enter \<Rightarrow> ap\<lparr>ap_filtering := False\<rparr>
      | K_Backspace \<Rightarrow> ap\<lparr>ap_filter := concat (butlast (chars (ap_filter ap)))\<rparr>
      | K_Char c \<Rightarrow> ap\<lparr>ap_filter := ap_filter ap @ c\<rparr>
      | _ \<Rightarrow> ap)"

text \<open>The arm for enter and space applies only in the sidebar.\<close>

definition sidebar_apply :: "app \<Rightarrow> app option" where
  "sidebar_apply ap =
     (if ap_focus ap = F_Sidebar then map_option (\<lambda>c. choose_setting c ap) (nth_opt CHOICES (ap_sidebar ap)) else Some ap)"

definition char_key :: "string \<Rightarrow> app \<Rightarrow> app option" where
  "char_key c ap =
     (if c = ''/'' then Some (ap\<lparr>ap_filtering := True, ap_focus := F_Table\<rparr>)
      else if c = ''h'' \<or> c = ''l'' then Some (toggle_focus ap)
      else if c = ''j'' then Some (view_step 1 ap)
      else if c = ''k'' then Some (view_step (- 1) ap)
      else if c = '' '' then sidebar_apply ap
      else if c = ''w'' then cycle is_window ap
      else if c = ''g'' then cycle is_group ap
      else if c = ''s'' then cycle is_scope ap
      else if c = ''o'' then Some (ap\<lparr>ap_sort := next_sort (ap_sort ap)\<rparr>)
      else if c = ''r'' then Some (ap\<lparr>ap_refreshed := None\<rparr>)
      else if c = ''t'' then Some (ap\<lparr>ap_theme_index := (ap_theme_index ap + 1) mod length THEMES\<rparr>)
      else if c = ''b'' then Some (ap\<lparr>ap_transparent := (\<not> ap_transparent ap)\<rparr>)
      else Some ap)"

definition view_key :: "key_code \<Rightarrow> app \<Rightarrow> app option" where
  "view_key k ap =
     (case k of
        K_Char c \<Rightarrow> char_key c ap
      | K_Esc \<Rightarrow> Some (ap\<lparr>ap_filter := []\<rparr>)
      | K_Tab \<Rightarrow> Some (toggle_focus ap)
      | K_BackTab \<Rightarrow> Some (toggle_focus ap)
      | K_Left \<Rightarrow> Some (toggle_focus ap)
      | K_Right \<Rightarrow> Some (toggle_focus ap)
      | K_Down \<Rightarrow> Some (view_step 1 ap)
      | K_Up \<Rightarrow> Some (view_step (- 1) ap)
      | K_PageDown \<Rightarrow> Some (view_step 10 ap)
      | K_PageUp \<Rightarrow> Some (view_step (- 10) ap)
      | K_Home \<Rightarrow> Some (view_step ISIZE_MIN ap)
      | K_End \<Rightarrow> Some (view_step ISIZE_MAX ap)
      | K_Enter \<Rightarrow> sidebar_apply ap
      | _ \<Rightarrow> Some ap)"

text \<open>A key press: whether it quits, and the view after it.\<close>

definition on_key :: "key_event \<Rightarrow> app \<Rightarrow> (bool \<times> app) option" where
  "on_key ke ap =
     (if \<not> ke_press ke then Some (False, ap)
      else if ke_control ke \<and> ke_code ke = K_Char ''c'' then Some (True, ap)
      else if ap_filtering ap then Some (False, filter_key (ke_code ke) ap)
      else if ke_code ke = K_Char ''q'' then Some (True, ap)
      else map_option (\<lambda>ap. (False, ap)) (view_key (ke_code ke) ap))"


section \<open>Running\<close>

text \<open>
  The event loop over a list of frames, each with the key event that ended its wait, if any; the flag
  says whether it quit. Drawing changes nothing but the table's scroll offset, which is not kept here.
\<close>

fun app_run :: "'d view_env \<Rightarrow> (frame_input \<times> key_event option) list \<Rightarrow> app \<Rightarrow> (bool \<times> app) option" where
  "app_run ve [] ap = Some (False, ap)"
| "app_run ve ((fi, key) # rest) ap =
     (case app_tick ve fi ap of
        None \<Rightarrow> None
      | Some ap \<Rightarrow>
          (case key of
             None \<Rightarrow> app_run ve rest ap
           | Some ke \<Rightarrow>
               (case on_key ke ap of
                  None \<Rightarrow> None
                | Some (True, ap) \<Rightarrow> Some (True, ap)
                | Some (False, ap) \<Rightarrow> app_run ve rest ap)))"

text \<open>What the feed thread sends for one connection, and for one after the other.\<close>

definition feed_of :: "anyhow + (rows \<times> u32) list \<times> anyhow option \<Rightarrow> view_feed list" where
  "feed_of live =
     (case live of
        Inl e \<Rightarrow> [V_Down (chain_text e)]
      | Inr (cs, err) \<Rightarrow> map (\<lambda>(rows, ms). V_Chunk rows ms) cs
          @ [V_Down (case err of None \<Rightarrow> ''the daemon ended the live stream'' | Some e \<Rightarrow> chain_text e)])"

definition watch_all :: watch_req where
  "watch_all = \<lparr>w_scope = Scope_All, w_group_by = Group_Unspecified, w_limit = 0\<rparr>"

definition spawn_feed :: "(watch_req \<Rightarrow> anyhow + (rows \<times> u32) list \<times> anyhow option) list \<Rightarrow> view_feed list" where
  "spawn_feed connections = concat (map (\<lambda>live. feed_of (live watch_all)) connections)"

text \<open>\<open>run\<close> up to the event loop; \<open>terminal\<close> is the error of taking over the screen.\<close>

definition view_start ::
    "anyhow + hello_ok \<Rightarrow> anyhow option \<Rightarrow> scope \<Rightarrow> group_by \<Rightarrow> nat \<Rightarrow> bool \<Rightarrow> anyhow + app" where
  "view_start hello terminal sc g theme transparent =
     (case hello of
        Inl e \<Rightarrow> Inl e
      | Inr daemon \<Rightarrow>
          (case terminal of
             Some e \<Rightarrow> Inl (''the interactive view needs a terminal; use a subcommand, or `procflow watch --json`'' # e)
           | None \<Rightarrow> Inr ((app_new daemon sc g)\<lparr>ap_theme_index := theme, ap_transparent := transparent\<rparr>)))"

end
