(* ===== verification/Tui_Props.thy ===== *)
theory Tui_Props
  imports Tui
begin

text \<open>
  Properties of the interactive view: it never panics whatever the daemon sends and whichever keys are
  pressed, its cursor always stands on a row and follows it through the ranking, what it remembers of the
  live stream is a function of the chunks alone, and the rows add up to the traffic in scope.
\<close>

section \<open>The invariant of the view\<close>

definition flows_ok :: "u32 list \<Rightarrow> ((i64 \<times> scope) \<times> flow) list \<Rightarrow> bool" where
  "flows_ok intervals flows \<longleftrightarrow>
     length intervals \<le> TREND_TICKS \<and> (\<forall>ms \<in> set intervals. ms \<noteq> 0) \<and>
     (\<forall>(k, f) \<in> set flows. length (fl_samples f) \<le> length intervals)"

text \<open>The table's cursor is on a row of the table and \<open>selected_key\<close> is that row's key.\<close>

definition cursor_ok :: "app \<Rightarrow> bool" where
  "cursor_ok ap \<longleftrightarrow>
     (case ap_table ap of
        None \<Rightarrow> ap_selected_key ap = None
      | Some i \<Rightarrow> i < length (ap_rows ap) \<and> ap_selected_key ap = Some (rw_key (ap_rows ap ! i)))"

definition app_ok :: "app \<Rightarrow> bool" where
  "app_ok ap \<longleftrightarrow>
     flows_ok (ap_intervals ap) (ap_flows ap) \<and> cursor_ok ap \<and> distinct (map rw_key (ap_rows ap)) \<and>
     ap_theme_index ap < length THEMES \<and> ap_sidebar ap < length CHOICES"

lemma push_capped_length: "length xs \<le> TREND_TICKS \<Longrightarrow> length (push_capped x xs) = min TREND_TICKS (Suc (length xs))"
  by (auto simp: push_capped_def TREND_TICKS_def)

lemma push_capped_set: "set (push_capped x xs) \<subseteq> insert x (set xs)"
  by (auto simp: push_capped_def dest: list.set_sel(2) split: if_splits) (metis list.set_sel(2) tl_Nil)

lemma push_capped_last: "push_capped x (drop (length xs - TREND_TICKS) xs) = drop (length (xs @ [x]) - TREND_TICKS) (xs @ [x])"
proof (cases "TREND_TICKS \<le> length xs")
  case True
  then have "length (xs @ [x]) - TREND_TICKS = Suc (length xs - TREND_TICKS)" by simp
  moreover have "Suc 0 - TREND_TICKS = 0" by (simp add: TREND_TICKS_def)
  ultimately show ?thesis using True by (simp add: push_capped_def tl_drop drop_Suc del: length_append)
next
  case False
  then show ?thesis by (simp add: push_capped_def not_le)
qed

lemma or_default_keys:
  "fst ` set (fold or_default_flow ks t) = fst ` set t \<union> set ks"
proof (induction ks arbitrary: t)
  case (Cons k ks)
  have "fst ` set (or_default_flow k t) = insert k (fst ` set t)"
    by (auto simp: or_default_flow_def map_of_eq_None_iff)
  with Cons show ?case by auto
qed simp

lemma or_default_values:
  "(k, f) \<in> set (fold or_default_flow ks t) \<Longrightarrow> (k, f) \<in> set t \<or> f = default_flow"
proof (induction ks arbitrary: t)
  case (Cons k' ks)
  have "(k, f) \<in> set (or_default_flow k' t) \<Longrightarrow> (k, f) \<in> set t \<or> f = default_flow"
    by (auto simp: or_default_flow_def split: if_splits)
  with Cons.IH [of "or_default_flow k' t"] Cons.prems show ?case by auto
qed simp

lemma or_default_map_of:
  "map_of (fold or_default_flow ks t) k =
     (case map_of t k of Some f \<Rightarrow> Some f | None \<Rightarrow> if k \<in> set ks then Some default_flow else None)"
  by (induction ks arbitrary: t) (auto simp: or_default_flow_def map_add_def split: option.splits)

lemma max_one_nonzero: "max (w :: u32) 1 \<noteq> 0"
  by (metis max.cobounded2 word_not_simps(1) word_zero_le antisym zero_neq_one)

lemma on_chunk_flows_ok:
  assumes "flows_ok (ap_intervals ap) (ap_flows ap)"
  shows "flows_ok (ap_intervals (on_chunk rows ms ap)) (ap_flows (on_chunk rows ms ap))"
proof -
  let ?iv = "ap_intervals ap"
  let ?fs = "fold or_default_flow (map fst (chunk_deltas (r_counters rows))) (ap_flows ap)"
  have len: "length (push_capped (max ms 1) ?iv) = min TREND_TICKS (Suc (length ?iv))"
    using assms by (simp add: flows_ok_def push_capped_length)
  have "length (fl_samples f) \<le> length ?iv" if "(k, f) \<in> set ?fs" for k f
    using or_default_values [OF that] assms by (auto simp: flows_ok_def default_flow_def)
  then have "length (push_capped d (fl_samples f)) \<le> min TREND_TICKS (Suc (length ?iv))"
    if "(k, f) \<in> set ?fs" for k f d
    using that assms by (subst push_capped_length) (fastforce simp: flows_ok_def)+
  moreover have "ms' \<noteq> 0" if "ms' \<in> set (push_capped (max ms 1) ?iv)" for ms'
    using that push_capped_set [of "max ms 1" ?iv] assms max_one_nonzero [of ms] by (auto simp: flows_ok_def)
  ultimately show ?thesis
    by (auto simp: on_chunk_def flows_ok_def Let_def len sample_flow_def)
qed


section \<open>Rates are always defined\<close>

lemma ucast_nonzero: "(ms :: u32) \<noteq> 0 \<Longrightarrow> (ucast ms :: u64) \<noteq> 0"
  by transfer (simp add: take_bit_take_bit)

lemma scaled_samples_total:
  "(\<And>ms. ms \<in> set mss \<Longrightarrow> ms \<noteq> 0) \<Longrightarrow> \<exists>ss. scaled_samples cs mss = Some ss \<and> length ss = min (length cs) (length mss)"
proof (induction cs mss rule: scaled_samples.induct)
  case (1 c cs ms mss)
  moreover have "(ucast ms :: u64) \<noteq> 0" using 1 by (intro ucast_nonzero) simp
  ultimately show ?case by (force simp: per_second_def)
qed auto

lemma flow_measure_total:
  assumes "length (fl_samples f) \<le> length iv" "\<And>ms. ms \<in> set iv \<Longrightarrow> ms \<noteq> 0"
  shows "\<exists>m. flow_measure iv f = Some m \<and> length (ms_samples m) = length iv"
proof -
  obtain ss where ss: "scaled_samples (fl_samples f) (drop (length iv - length (fl_samples f)) iv) = Some ss"
    "length ss = length (fl_samples f)"
    using scaled_samples_total [of "drop (length iv - length (fl_samples f)) iv" "fl_samples f"] assms
    by (fastforce dest: in_set_dropD)
  have "max w (1 :: u64) \<noteq> 0" for w
    by (metis max.cobounded2 word_zero_le antisym zero_neq_one)
  with ss assms(1) show ?thesis by (auto simp: flow_measure_def Let_def per_second_def not_less)
qed

text \<open>The live measures are the flows in scope, each with its measure, added up per identity.\<close>

definition scoped_measures :: "app \<Rightarrow> (i64 \<times> measure_sum) list" where
  "scoped_measures ap =
     map (\<lambda>((n, sc), f). (n, the (flow_measure (ap_intervals ap) f)))
       (filter (\<lambda>((n, sc), f). scope_matches (ap_scope ap) sc) (ap_flows ap))"

lemma add_flows_fold:
  assumes "\<And>k f. (k, f) \<in> set fs \<Longrightarrow> flow_measure iv f \<noteq> None"
  shows "add_flows iv want fs t = Some (fold (\<lambda>(k, d). hash_bump k d)
     (map (\<lambda>((n, sc), f). (n, the (flow_measure iv f))) (filter (\<lambda>((n, sc), f). scope_matches want sc) fs)) t)"
  using assms
proof (induction iv want fs t rule: add_flows.induct)
  case (2 iv want n sc f rest t)
  obtain m where "flow_measure iv f = Some m" using "2.prems" [of "(n, sc)" f] by auto
  moreover have "flow_measure iv f' \<noteq> None" if "(k, f') \<in> set rest" for k f'
    using that "2.prems" [of k f'] by simp
  ultimately show ?case using 2 by simp
qed simp

lemma live_measures_fold:
  assumes "flows_ok (ap_intervals ap) (ap_flows ap)"
  shows "live_measures ap = Some (fold (\<lambda>(k, d). hash_bump k d) (scoped_measures ap) [])"
  unfolding live_measures_def scoped_measures_def
  using assms by (intro add_flows_fold) (fastforce simp: flows_ok_def dest: flow_measure_total)


section \<open>Rows\<close>

lemma add_to_row_facts [simp]:
  "rw_key (add_to_row lower g i m row) = rw_key row"
  "rw_identity (add_to_row lower g i m row) = rw_identity row"
  "rw_sum (add_to_row lower g i m row) = rw_sum row + m"
  by (simp_all add: add_to_row_def)

lemma new_row_facts [simp]:
  "rw_key (new_row home g n i) = fst (group_of home i g)" "rw_sum (new_row home g n i) = 0"
  by (simp_all add: new_row_def split: prod.split)

lemma in_row_keys:
  assumes "\<And>r. rw_key (f r) = rw_key r" "rw_key new = key"
  shows "rw_key ` set (in_row key new f rs) = insert key (rw_key ` set rs)"
  using assms by (induction rs) auto

lemma in_row_distinct:
  assumes "\<And>r. rw_key (f r) = rw_key r" "rw_key new = key" "distinct (map rw_key rs)"
  shows "distinct (map rw_key (in_row key new f rs))"
  using assms(3)
proof (induction rs)
  case (Cons r rs)
  have "rw_key ` set (in_row key new f rs) = insert key (rw_key ` set rs)"
    by (rule in_row_keys [OF assms(1,2)])
  with Cons show ?case by (auto simp: assms)
qed (simp add: assms)

lemma in_row_sum:
  assumes "\<And>r. rw_sum (f r) = rw_sum r + m" "rw_sum new = 0"
  shows "sum_list (map rw_sum (in_row key new f rs)) = sum_list (map rw_sum rs) + m"
  using assms by (induction rs) (simp_all add: ac_simps)

definition described :: "(i64 \<times> identity) list \<Rightarrow> (i64 \<times> measure_sum) list \<Rightarrow> (i64 \<times> measure_sum) list" where
  "described identities mss = filter (\<lambda>nm. map_of identities (fst nm) \<noteq> None) mss"

lemma described_simps [simp]:
  "described ids [] = []"
  "described ids (nm # mss) = (if map_of ids (fst nm) = None then described ids mss else nm # described ids mss)"
  by (simp_all add: described_def)

text \<open>The row keys under one grouping of what is described.\<close>

definition group_keys :: "string option \<Rightarrow> group_by \<Rightarrow> (i64 \<times> identity) list \<Rightarrow> (i64 \<times> measure_sum) list \<Rightarrow> string list" where
  "group_keys home g ids mss = map (\<lambda>i. fst (group_of home i g)) (List.map_filter (map_of ids) (map fst mss))"

lemma group_keys_simps [simp]:
  "group_keys home g ids [] = []"
  "group_keys home g ids (nm # mss) =
     (case map_of ids (fst nm) of None \<Rightarrow> group_keys home g ids mss
      | Some i \<Rightarrow> fst (group_of home i g) # group_keys home g ids mss)"
  by (simp_all add: group_keys_def map_filter_simps split: option.split)

lemma build_rows_step:
  assumes "distinct (map rw_key rs)"
  shows "distinct (map rw_key (fold (add_measure ve g ids) mss rs)) \<and>
    rw_key ` set (fold (add_measure ve g ids) mss rs) = rw_key ` set rs \<union> set (group_keys (ve_home ve) g ids mss) \<and>
    sum_list (map rw_sum (fold (add_measure ve g ids) mss rs))
      = sum_list (map rw_sum rs) + sum_list (map snd (described ids mss))"
  using assms
proof (induction mss arbitrary: rs)
  case (Cons nm mss)
  show ?case
  proof (cases "map_of ids (fst nm)")
    case None
    then show ?thesis using Cons by (simp add: add_measure_def)
  next
    case (Some i)
    let ?key = "fst (group_of (ve_home ve) i g)" and ?new = "new_row (ve_home ve) g (fst nm) i"
      and ?f = "add_to_row (ve_lower ve) g i (snd nm)"
    have "distinct (map rw_key (in_row ?key ?new ?f rs))"
      by (rule in_row_distinct) (simp_all add: Cons.prems)
    moreover have "rw_key ` set (in_row ?key ?new ?f rs) = insert ?key (rw_key ` set rs)"
      by (rule in_row_keys) simp_all
    moreover have "sum_list (map rw_sum (in_row ?key ?new ?f rs)) = sum_list (map rw_sum rs) + snd nm"
      by (rule in_row_sum) simp_all
    ultimately show ?thesis
      using Cons.IH [of "in_row ?key ?new ?f rs"] Some by (simp add: add_measure_def add.assoc)
  qed
qed simp

lemma build_rows_distinct: "distinct (map rw_key (build_rows ve g ids mss))"
  and build_rows_keys: "rw_key ` set (build_rows ve g ids mss) = set (group_keys (ve_home ve) g ids mss)"
  and build_rows_sum: "sum_list (map rw_sum (build_rows ve g ids mss)) = sum_list (map snd (described ids mss))"
  using build_rows_step [of "[]" ve g ids mss] by (simp_all add: build_rows_def)

lemma finish_row_facts [simp]: "rw_key (finish_row s g row) = rw_key row" "rw_sum (finish_row s g row) = rw_sum row"
  by (simp_all add: finish_row_def Let_def)

lemma finish_mset:
  assumes "mset xs = mset (map (finish_row s g) ys)"
  shows "mset (map rw_key xs) = mset (map rw_key ys)" "mset (map rw_sum xs) = mset (map rw_sum ys)"
  using assms by (simp_all add: multiset.map_comp comp_def)

definition shown_rows :: "'d view_env \<Rightarrow> app \<Rightarrow> (i64 \<times> measure_sum) list \<Rightarrow> view_row list" where
  "shown_rows ve ap mss =
     rank_rows (ap_sort ap) (map (finish_row (ap_sort ap) (ap_group ap))
       (filter (\<lambda>r. contains (rw_haystack r) (ve_lower ve (ap_filter ap)))
         (build_rows ve (ap_group ap) (ap_identities ap) mss)))"

lemma shown_rows_mset:
  "mset (shown_rows ve ap mss) = mset (map (finish_row (ap_sort ap) (ap_group ap))
       (filter (\<lambda>r. contains (rw_haystack r) (ve_lower ve (ap_filter ap)))
         (build_rows ve (ap_group ap) (ap_identities ap) mss)))"
  by (simp add: shown_rows_def rank_rows_def)

lemma shown_rows_distinct: "distinct (map rw_key (shown_rows ve ap mss))"
proof -
  have "mset (map rw_key (shown_rows ve ap mss))
      = mset (map rw_key (filter (\<lambda>r. contains (rw_haystack r) (ve_lower ve (ap_filter ap)))
                (build_rows ve (ap_group ap) (ap_identities ap) mss)))"
    by (rule finish_mset) (rule shown_rows_mset)
  moreover have "distinct (map rw_key (filter P (build_rows ve (ap_group ap) (ap_identities ap) mss)))" for P
    using build_rows_distinct distinct_map_filter by blast
  ultimately show ?thesis by (metis mset_eq_imp_distinct_iff)
qed

lemma shown_rows_unfiltered:
  assumes "ve_lower ve [] = []" "ap_filter ap = []"
  shows "sum_list (map rw_sum (shown_rows ve ap mss)) = sum_list (map snd (described (ap_identities ap) mss))"
    and "length (shown_rows ve ap mss) = length (remdups (group_keys (ve_home ve) (ap_group ap) (ap_identities ap) mss))"
proof -
  have m: "mset (shown_rows ve ap mss)
      = mset (map (finish_row (ap_sort ap) (ap_group ap)) (build_rows ve (ap_group ap) (ap_identities ap) mss))"
    using assms by (simp add: shown_rows_mset)
  have "mset (map rw_sum (shown_rows ve ap mss)) = mset (map rw_sum (build_rows ve (ap_group ap) (ap_identities ap) mss))"
    by (rule finish_mset) (rule m)
  then show "sum_list (map rw_sum (shown_rows ve ap mss)) = sum_list (map snd (described (ap_identities ap) mss))"
    by (metis build_rows_sum sum_mset_sum_list)
  have "length (shown_rows ve ap mss) = length (build_rows ve (ap_group ap) (ap_identities ap) mss)"
    using m by (metis length_map size_mset)
  also have "\<dots> = card (rw_key ` set (build_rows ve (ap_group ap) (ap_identities ap) mss))"
    by (metis build_rows_distinct distinct_card length_map list.set_map)
  finally show "length (shown_rows ve ap mss) = length (remdups (group_keys (ve_home ve) (ap_group ap) (ap_identities ap) mss))"
    by (simp add: build_rows_keys length_remdups_card_conv)
qed


section \<open>A tick and a key keep the invariant\<close>

lemma select_cursor:
  assumes "ap_rows ap = [] \<or> index < length (ap_rows ap)"
  shows "cursor_ok (select index ap)"
  using assms by (auto simp: select_def cursor_ok_def nth_opt_def)

lemma select_facts [simp]:
  "ap_rows (select n ap) = ap_rows ap" "ap_flows (select n ap) = ap_flows ap"
  "ap_intervals (select n ap) = ap_intervals ap" "ap_theme_index (select n ap) = ap_theme_index ap"
  "ap_sidebar (select n ap) = ap_sidebar ap" "ap_identities (select n ap) = ap_identities ap"
  "ap_window (select n ap) = ap_window ap" "ap_scope (select n ap) = ap_scope ap"
  "ap_filter (select n ap) = ap_filter ap" "ap_group (select n ap) = ap_group ap"
  "ap_stored (select n ap) = ap_stored ap" "ap_total (select n ap) = ap_total ap"
  "ap_group_sizes (select n ap) = ap_group_sizes ap" "ap_sort (select n ap) = ap_sort ap"
  by (simp_all add: select_def)

text \<open>Where the cursor goes: to the row it was on, or to the last row when that is gone.\<close>

definition cursor_at :: "app \<Rightarrow> view_row list \<Rightarrow> nat" where
  "cursor_at ap rows =
     min (case Option.bind (ap_selected_key ap) (\<lambda>k. position (\<lambda>r. rw_key r = k) rows) of
            Some i \<Rightarrow> i
          | None \<Rightarrow> (case ap_table ap of Some i \<Rightarrow> i | None \<Rightarrow> 0)) (length rows - 1)"

definition shown_measures :: "app \<Rightarrow> (i64 \<times> measure_sum) list" where
  "shown_measures ap =
     (if ap_window ap = W_Live then fold (\<lambda>(k, d). hash_bump k d) (scoped_measures ap) [] else stored_measures ap)"

lemma recompute_unfold:
  assumes "flows_ok (ap_intervals ap) (ap_flows ap)"
  shows "recompute ve ap = Some (select (cursor_at ap (shown_rows ve ap (shown_measures ap)))
    (ap\<lparr>ap_total := sum_list (map snd (scoped_measures ap)),
        ap_group_sizes := group_sizes ve (ap_identities ap) (shown_measures ap),
        ap_rows := shown_rows ve ap (shown_measures ap)\<rparr>))"
  unfolding recompute_def live_measures_fold [OF assms] Let_def option.case
  by (simp add: shown_rows_def shown_measures_def cursor_at_def hash.total_fold cong: option.case_cong)

lemma recompute_keeps:
  assumes "app_ok ap" "recompute ve ap = Some ap'"
  shows "app_ok ap'"
proof -
  have fl: "flows_ok (ap_intervals ap) (ap_flows ap)" using assms(1) by (simp add: app_ok_def)
  let ?rows = "shown_rows ve ap (shown_measures ap)"
  have "?rows = [] \<or> cursor_at ap ?rows < length ?rows" by (cases ?rows) (auto simp: cursor_at_def)
  then show ?thesis
    using assms recompute_unfold [OF fl, of ve] shown_rows_distinct [of ve ap "shown_measures ap"]
    by (auto simp: app_ok_def intro!: select_cursor)
qed

lemma on_chunk_keeps: "app_ok ap \<Longrightarrow> app_ok (on_chunk rows ms ap)"
  using on_chunk_flows_ok [of ap rows ms] by (simp add: app_ok_def cursor_ok_def on_chunk_def Let_def split: option.splits)

lemma take_feed_keeps: "app_ok ap \<Longrightarrow> app_ok (take_feed f ap)"
  by (cases f) (simp_all add: take_feed_def on_chunk_keeps, simp add: app_ok_def cursor_ok_def split: option.splits)

lemma fold_feed_keeps: "app_ok ap \<Longrightarrow> app_ok (fold take_feed fs ap)"
  by (induction fs arbitrary: ap) (simp_all add: take_feed_keeps)

text \<open>\<open>refresh\<close> and \<open>fetch_history\<close> touch only what came from the stored history.\<close>

definition same_view :: "app \<Rightarrow> app \<Rightarrow> bool" where
  "same_view a b \<longleftrightarrow>
     ap_flows a = ap_flows b \<and> ap_intervals a = ap_intervals b \<and> ap_rows a = ap_rows b \<and>
     ap_table a = ap_table b \<and> ap_selected_key a = ap_selected_key b \<and>
     ap_theme_index a = ap_theme_index b \<and> ap_sidebar a = ap_sidebar b \<and> ap_window a = ap_window b \<and>
     ap_group a = ap_group b \<and> ap_scope a = ap_scope b \<and> ap_filter a = ap_filter b \<and>
     ap_total a = ap_total b \<and> ap_group_sizes a = ap_group_sizes b \<and> ap_sort a = ap_sort b"

lemma refresh_same: "same_view (refresh ve instant now ap) ap"
  by (auto simp: refresh_def Let_def same_view_def split: sum.split)

lemma fetch_history_same: "same_view (fetch_history ve now ap) ap"
  by (auto simp: fetch_history_def Let_def same_view_def split: sum.split option.split)

lemma fetch_history_data:
  "ap_identities (fetch_history ve now ap) = ap_identities ap" "ap_stored (fetch_history ve now ap) = ap_stored ap"
  by (auto simp: fetch_history_def Let_def split: sum.split option.split)

lemma same_view_ok: "same_view a b \<Longrightarrow> app_ok b \<Longrightarrow> app_ok a"
  by (simp add: same_view_def app_ok_def cursor_ok_def split: option.splits)

text \<open>A tick is the feed, a possible refresh, \<open>recompute\<close> and the history: it is always defined.\<close>

definition before_rows :: "'d view_env \<Rightarrow> frame_input \<Rightarrow> app \<Rightarrow> app" where
  "before_rows ve fi ap =
     (let ap = fold take_feed (fi_feed fi) ap;
          due = (case ap_refreshed ap of None \<Rightarrow> True | Some at \<Rightarrow> REFRESH_MS \<le> fi_instant fi - at)
      in if due then refresh ve (fi_instant fi) (fi_now fi) ap else ap)"

lemma app_tick_alt: "app_tick ve fi ap = map_option (fetch_history ve (fi_later fi)) (recompute ve (before_rows ve fi ap))"
  by (simp add: app_tick_def before_rows_def Let_def)

lemma before_rows_same: "same_view (before_rows ve fi ap) (fold take_feed (fi_feed fi) ap)"
  unfolding before_rows_def Let_def by (simp add: refresh_same) (simp add: same_view_def)

lemma before_rows_keeps: "app_ok ap \<Longrightarrow> app_ok (before_rows ve fi ap)"
  by (rule same_view_ok [OF before_rows_same]) (rule fold_feed_keeps)

lemma app_tick_total: "app_ok ap \<Longrightarrow> \<exists>ap'. app_tick ve fi ap = Some ap'"
  using recompute_unfold [of "before_rows ve fi ap" ve] before_rows_keeps [of ap ve fi]
  by (simp add: app_tick_alt app_ok_def)

lemma app_tick_keeps:
  assumes "app_ok ap" "app_tick ve fi ap = Some ap'"
  shows "app_ok ap'"
proof -
  obtain ap1 where "recompute ve (before_rows ve fi ap) = Some ap1" "ap' = fetch_history ve (fi_later fi) ap1"
    using assms(2) by (auto simp: app_tick_alt)
  then show ?thesis
    using recompute_keeps [OF before_rows_keeps [OF assms(1)]] same_view_ok [OF fetch_history_same] by blast
qed

lemma step_keeps: "app_ok ap \<Longrightarrow> app_ok (view_step by ap)"
proof -
  assume ok: "app_ok ap"
  have nonempty: "min n (length CHOICES - Suc 0) < length CHOICES" for n by (simp add: CHOICES_def)
  show ?thesis
  proof (cases "ap_focus ap")
    case F_Sidebar
    then show ?thesis
      using ok by (simp add: view_step_def app_ok_def cursor_ok_def nonempty split: option.splits)
  next
    case F_Table
    define n where "n = min (nat (int (case ap_table ap of None \<Rightarrow> 0 | Some i \<Rightarrow> i) + by)) (length (ap_rows ap) - 1)"
    have "ap_rows ap = [] \<or> n < length (ap_rows ap)" by (cases "ap_rows ap") (auto simp: n_def)
    moreover have "view_step by ap = select n ap" using F_Table by (simp add: view_step_def n_def)
    ultimately show ?thesis using ok by (simp add: app_ok_def select_cursor)
  qed
qed

lemma choose_keeps: "app_ok ap \<Longrightarrow> app_ok (choose_setting c ap)"
  by (cases c) (simp_all add: choose_setting_def app_ok_def cursor_ok_def)

lemma nth_opt_in: "n < length xs \<Longrightarrow> nth_opt xs n = Some (xs ! n)"
  by (simp add: nth_opt_def)

lemma cycle_total:
  assumes "filter kind CHOICES \<noteq> []"
  shows "\<exists>c. cycle kind ap = Some (choose_setting c ap)"
  using assms by (simp add: cycle_def Let_def nth_opt_in) blast

lemma key_simple [simp]:
  "app_ok (ap\<lparr>ap_filtering := x\<rparr>) = app_ok ap" "app_ok (ap\<lparr>ap_filter := y\<rparr>) = app_ok ap"
  "app_ok (ap\<lparr>ap_focus := z\<rparr>) = app_ok ap" "app_ok (ap\<lparr>ap_sort := u\<rparr>) = app_ok ap"
  "app_ok (ap\<lparr>ap_refreshed := v\<rparr>) = app_ok ap" "app_ok (ap\<lparr>ap_transparent := w\<rparr>) = app_ok ap"
  by (simp_all add: app_ok_def cursor_ok_def split: option.splits)

lemma toggle_keeps: "app_ok ap \<Longrightarrow> app_ok (toggle_focus ap)"
  by (simp add: toggle_focus_def)

lemma sidebar_apply_total: "app_ok ap \<Longrightarrow> \<exists>ap'. sidebar_apply ap = Some ap' \<and> app_ok ap'"
  using choose_keeps [of ap "CHOICES ! ap_sidebar ap"]
  by (cases "ap_focus ap") (simp_all add: sidebar_apply_def nth_opt_in app_ok_def [of ap])

lemma theme_keeps: "app_ok ap \<Longrightarrow> app_ok (ap\<lparr>ap_theme_index := (ap_theme_index ap + 1) mod length THEMES\<rparr>)"
  by (simp add: app_ok_def cursor_ok_def THEMES_def split: option.splits)

lemma kinds: "filter is_window CHOICES \<noteq> []" "filter is_group CHOICES \<noteq> []" "filter is_scope CHOICES \<noteq> []"
  by (simp_all add: CHOICES_def is_window_def is_group_def is_scope_def)

lemma cycle_keeps: "app_ok ap \<Longrightarrow> filter kind CHOICES \<noteq> [] \<Longrightarrow> \<exists>ap'. cycle kind ap = Some ap' \<and> app_ok ap'"
  using cycle_total [of kind ap] choose_keeps by blast

lemmas key_keeps = toggle_keeps step_keeps sidebar_apply_total theme_keeps [simplified]
  cycle_keeps [OF _ kinds(1)] cycle_keeps [OF _ kinds(2)] cycle_keeps [OF _ kinds(3)]

lemma view_key_total: "app_ok ap \<Longrightarrow> \<exists>ap'. view_key k ap = Some ap' \<and> app_ok ap'"
  by (cases k) (simp_all add: view_key_def char_key_def key_keeps)

lemma on_key_total: "app_ok ap \<Longrightarrow> \<exists>q ap'. on_key ke ap = Some (q, ap') \<and> app_ok ap'"
  using view_key_total [of ap "ke_code ke"]
  by (auto simp: on_key_def filter_key_def split: key_code.split)

lemma app_run_total: "app_ok ap \<Longrightarrow> \<exists>q ap'. app_run ve frames ap = Some (q, ap') \<and> app_ok ap'"
proof (induction ve frames ap rule: app_run.induct)
  case (2 ve fi key rest ap)
  obtain ap1 where tick: "app_tick ve fi ap = Some ap1" using app_tick_total [OF 2(3)] by blast
  have ok1: "app_ok ap1" by (rule app_tick_keeps [OF 2(3) tick])
  show ?case
  proof (cases key)
    case None
    with 2(1) [OF tick] tick ok1 show ?thesis by simp
  next
    case (Some ke)
    obtain q ap2 where key: "on_key ke ap1 = Some (q, ap2)" "app_ok ap2" using on_key_total [OF ok1] by blast
    with 2(2) [OF tick Some key(1)] tick Some show ?thesis by (cases q) auto
  qed
qed (auto intro: exI [of _ False])

lemma app_new_ok: "theme < length THEMES \<Longrightarrow> app_ok ((app_new daemon sc g)\<lparr>ap_theme_index := theme, ap_transparent := tr\<rparr>)"
  by (simp add: app_new_def app_ok_def cursor_ok_def flows_ok_def CHOICES_def)


section \<open>The cursor follows its row\<close>

lemma app_tick_parts:
  assumes "app_ok ap" "app_tick ve fi ap = Some ap'"
  obtains b where "app_ok b" "same_view b (fold take_feed (fi_feed fi) ap)"
    "b = before_rows ve fi ap" "ap' = fetch_history ve (fi_later fi) (select (cursor_at b (shown_rows ve b (shown_measures b)))
      (b\<lparr>ap_total := sum_list (map snd (scoped_measures b)),
         ap_group_sizes := group_sizes ve (ap_identities b) (shown_measures b),
         ap_rows := shown_rows ve b (shown_measures b)\<rparr>))"
proof -
  let ?b = "before_rows ve fi ap"
  have ok: "app_ok ?b" by (rule before_rows_keeps [OF assms(1)])
  then have "flows_ok (ap_intervals ?b) (ap_flows ?b)" by (simp add: app_ok_def)
  from recompute_unfold [OF this, of ve] assms(2) show thesis
    by (intro that [of ?b]) (simp_all add: ok app_tick_alt before_rows_same)
qed

lemma take_feed_cursor: "ap_selected_key (fold take_feed fs ap) = ap_selected_key ap"
  by (induction fs arbitrary: ap) (simp_all add: take_feed_def on_chunk_def Let_def split: view_feed.split)

lemma selected_same: "same_view a b \<Longrightarrow> selected a = selected b"
  by (simp add: same_view_def selected_def)

lemma cursor_selected: "cursor_ok ap \<Longrightarrow> map_option rw_key (selected ap) = ap_selected_key ap"
  by (auto simp: cursor_ok_def selected_def nth_opt_in split: option.splits)

lemma app_tick_rows:
  assumes "app_ok ap" "app_tick ve fi ap = Some ap'"
  obtains b where "app_ok b" "same_view b (fold take_feed (fi_feed fi) ap)" "app_ok ap'"
    "ap_rows ap' = shown_rows ve b (shown_measures b)"
    "ap_selected_key ap' = map_option rw_key (nth_opt (ap_rows ap') (cursor_at b (ap_rows ap')))"
    "ap_table ap' = (if ap_rows ap' = [] then None else Some (cursor_at b (ap_rows ap')))"
    "ap_total ap' = sum_list (map snd (scoped_measures b))"
    "ap_group_sizes ap' = group_sizes ve (ap_identities b) (shown_measures b)"
    "ap_identities ap' = ap_identities b" "ap_stored ap' = ap_stored b"
    "ap_flows ap' = ap_flows b" "ap_intervals ap' = ap_intervals b" "ap_window ap' = ap_window b"
    "ap_scope ap' = ap_scope b" "ap_filter ap' = ap_filter b" "ap_group ap' = ap_group b" "ap_sort ap' = ap_sort b"
proof -
  from app_tick_parts [OF assms] obtain b where b: "app_ok b" "same_view b (fold take_feed (fi_feed fi) ap)"
    "b = before_rows ve fi ap" and ap': "ap' = fetch_history ve (fi_later fi) (select (cursor_at b (shown_rows ve b (shown_measures b)))
      (b\<lparr>ap_total := sum_list (map snd (scoped_measures b)),
         ap_group_sizes := group_sizes ve (ap_identities b) (shown_measures b),
         ap_rows := shown_rows ve b (shown_measures b)\<rparr>))" (is "_ = fetch_history _ _ ?s") by blast
  have same: "same_view ap' ?s" unfolding ap' by (rule fetch_history_same)
  have data: "ap_identities ap' = ap_identities ?s" "ap_stored ap' = ap_stored ?s"
    unfolding ap' by (simp_all add: fetch_history_data)
  show thesis
    by (rule that [OF b(1,2) app_tick_keeps [OF assms]])
      (use same data in \<open>simp_all add: same_view_def, simp_all add: select_def\<close>)
qed

lemma nth_opt_None: "length xs \<le> n \<Longrightarrow> nth_opt xs n = None"
  by (simp add: nth_opt_def)

lemma take_feed_settings: "same_view (fold take_feed fs ap) ((fold take_feed fs ap)\<lparr>ap_rows := ap_rows ap, ap_table := ap_table ap,
    ap_selected_key := ap_selected_key ap, ap_window := ap_window ap, ap_group := ap_group ap, ap_scope := ap_scope ap,
    ap_filter := ap_filter ap, ap_sort := ap_sort ap\<rparr>)"
proof (induction fs arbitrary: ap)
  case (Cons f fs)
  show ?case using Cons [of "take_feed f ap"]
    by (simp add: same_view_def take_feed_def on_chunk_def Let_def split: view_feed.splits)
qed (simp add: same_view_def)

text \<open>C40. The cursor follows its row: if the row it was on is still in the table, whatever its new rank, the
  cursor is on it after the next frame; the cursor is on some row whenever there is one.\<close>

theorem cursor_follows_its_row:
  assumes "app_ok ap" and "app_tick ve fi ap = Some ap'"
  shows "(selected ap' = None \<longleftrightarrow> ap_rows ap' = []) \<and>
    (\<forall>key. ap_selected_key ap = Some key \<longrightarrow> key \<in> rw_key ` set (ap_rows ap') \<longrightarrow>
       map_option rw_key (selected ap') = Some key)"
proof -
  from app_tick_rows [OF assms] obtain b where b: "same_view b (fold take_feed (fi_feed fi) ap)" "app_ok ap'"
    and at: "ap_selected_key ap' = map_option rw_key (nth_opt (ap_rows ap') (cursor_at b (ap_rows ap')))"
      "ap_table ap' = (if ap_rows ap' = [] then None else Some (cursor_at b (ap_rows ap')))" by blast
  let ?rows = "ap_rows ap'"
  have key: "ap_selected_key b = ap_selected_key ap"
    using b(1) take_feed_cursor [of "fi_feed fi" ap] by (simp add: same_view_def)
  have in_range: "cursor_at b ?rows < length ?rows" if "?rows \<noteq> []"
    using that by (cases ?rows) (auto simp: cursor_at_def)
  have sel: "selected ap' = (if ?rows = [] then None else Some (?rows ! cursor_at b ?rows))"
    using in_range by (simp add: selected_def at(2) nth_opt_in)
  have follows: "rw_key (?rows ! cursor_at b ?rows) = k"
    if "ap_selected_key ap = Some k" "k \<in> rw_key ` set ?rows" for k
  proof -
    note on = that
    obtain i where i: "position (\<lambda>r. rw_key r = k) ?rows = Some i"
      using on(2) position_None [of "\<lambda>r. rw_key r = k" ?rows] by (cases "position (\<lambda>r. rw_key r = k) ?rows") auto
    have "cursor_at b ?rows = i" using on(1) i position_Some [OF i] by (auto simp: cursor_at_def key min_def)
    then show ?thesis using position_Some [OF i] by simp
  qed
  from sel follows show ?thesis by (auto simp: sel)
qed

text \<open>Surroundings to try the view in: UTC, ASCII lower case, and a daemon that has stored nothing.\<close>

definition quiet_view :: "int view_env" where
  "quiet_view = \<lparr>ve_home = None, ve_lower = map ascii_lower, ve_time = utc, ve_rpc = (\<lambda>_. Inr empty_rows)\<rparr>"

definition quiet_hello :: hello_ok where
  "quiet_hello = \<lparr>ho_version = ''0.1.0'', ho_proto_min = 1, ho_proto_max = 1, ho_collector_active = True, ho_demo = False\<rparr>"

definition one_counter :: "i64 \<Rightarrow> u64 \<Rightarrow> counter_row" where
  "one_counter n bytes = \<lparr>cr_identity_id = n, cr_bucket_ms = 0, cr_scope = Scope_External, cr_ingress = bytes,
     cr_egress = 0, cr_group_key = []\<rparr>"

definition one_identity :: "i64 \<Rightarrow> string \<Rightarrow> identity" where
  "one_identity n comm = \<lparr>id_id = n, id_uid = 1000, id_unit = [], id_exe = comm, id_project = ''-'', id_cmdline = comm,
     id_comm = comm, id_username = ''eve'', id_raw_cmdline = [], id_first_seen_ms = 0, id_last_seen_ms = 0\<rparr>"

definition chunk_rows :: "counter_row list \<Rightarrow> identity list \<Rightarrow> rows" where
  "chunk_rows cs is = \<lparr>r_counters = cs, r_identities = is, r_tier = Tier_Unspecified, r_demo = False\<rparr>"

definition quiet_app :: app where
  "quiet_app = app_new quiet_hello Scope_External Group_Identity"

lemma quiet_app_ok: "app_ok quiet_app"
  using app_new_ok [where theme = 0 and daemon = quiet_hello and sc = Scope_External and g = Group_Identity and tr = False]
  by (simp add: quiet_app_def app_new_def THEMES_def)

lemma cursor_follows_its_row_witness:
  "\<exists>ap'. app_tick quiet_view \<lparr>fi_feed = [V_Chunk (chunk_rows [one_counter 1 5] [one_identity 1 ''curl'']) 1000],
       fi_instant = 0, fi_now = 0, fi_later = 0\<rparr> quiet_app = Some ap' \<and>
     (selected ap' = None \<longleftrightarrow> ap_rows ap' = [])"
proof -
  let ?fi = "\<lparr>fi_feed = [V_Chunk (chunk_rows [one_counter 1 5] [one_identity 1 ''curl'']) 1000],
    fi_instant = 0, fi_now = 0, fi_later = 0\<rparr>"
  obtain ap' where tick: "app_tick quiet_view ?fi quiet_app = Some ap'"
    using app_tick_total [OF quiet_app_ok] by blast
  from cursor_follows_its_row [OF quiet_app_ok tick]
  have "selected ap' = None \<longleftrightarrow> ap_rows ap' = []" by (rule conjunct1)
  with tick show ?thesis by (intro exI conjI)
qed


section \<open>No panic\<close>

text \<open>C11. The view never panics: started on a known theme, it gets through every sequence of frames and key
  events, whatever the daemon sends and answers, and afterwards its cursor is on a row of the table, its
  theme and its sidebar position exist, every remembered interval is positive, and no flow has more samples
  than there are intervals, of which it keeps at most 60.\<close>

theorem view_never_panics:
  assumes "view_start hello terminal sc g theme transparent = Inr ap" and "theme < length THEMES"
  shows "\<exists>q ap'. app_run ve frames ap = Some (q, ap') \<and>
    (\<forall>i. ap_table ap' = Some i \<longrightarrow> i < length (ap_rows ap') \<and> ap_selected_key ap' = Some (rw_key (ap_rows ap' ! i))) \<and>
    distinct (map rw_key (ap_rows ap')) \<and> app_theme ap' \<noteq> None \<and> ap_sidebar ap' < length CHOICES \<and>
    0 \<notin> set (ap_intervals ap') \<and> length (ap_intervals ap') \<le> TREND_TICKS \<and>
    (\<forall>k f. (k, f) \<in> set (ap_flows ap') \<longrightarrow> length (fl_samples f) \<le> length (ap_intervals ap'))"
proof -
  have "app_ok ap" using assms app_new_ok by (auto simp: view_start_def split: sum.splits option.splits)
  from app_run_total [OF this, of ve frames] obtain q ap' where "app_run ve frames ap = Some (q, ap')" "app_ok ap'" by blast
  then show ?thesis
    by (fastforce simp: app_ok_def flows_ok_def cursor_ok_def app_theme_def nth_opt_in)
qed

lemma view_never_panics_witness:
  "\<exists>ap. view_start (Inr quiet_hello) None Scope_External Group_Identity 3 True = Inr ap \<and>
     (\<exists>q ap'. app_run quiet_view
        [(\<lparr>fi_feed = [V_Chunk (chunk_rows [one_counter 1 5] []) 0], fi_instant = 0, fi_now = 0, fi_later = 0\<rparr>,
          Some \<lparr>ke_press = True, ke_control = False, ke_code = K_Char ''t''\<rparr>)] ap = Some (q, ap') \<and>
        distinct (map rw_key (ap_rows ap')))"
proof -
  let ?fr = "[(\<lparr>fi_feed = [V_Chunk (chunk_rows [one_counter 1 5] []) 0], fi_instant = 0, fi_now = 0, fi_later = 0\<rparr>,
    Some \<lparr>ke_press = True, ke_control = False, ke_code = K_Char ''t''\<rparr>)]"
  obtain ap where ap: "view_start (Inr quiet_hello) None Scope_External Group_Identity 3 True = Inr ap"
    by (simp add: view_start_def)
  have "(3 :: nat) < length THEMES" by (simp add: THEMES_def)
  from view_never_panics [OF ap this, of quiet_view ?fr] ap show ?thesis by blast
qed


section \<open>The view of the live stream\<close>

text \<open>What one chunk says of a flow, and what the view should remember after a list of chunks.\<close>

definition chunk_delta :: "(i64 \<times> scope) \<Rightarrow> rows \<times> u32 \<Rightarrow> counts" where
  "chunk_delta k c = sum_at k (map (\<lambda>r. ((cr_identity_id r, cr_scope r), Counts (cr_ingress r) (cr_egress r))) (r_counters (fst c)))"

definition mentions :: "(i64 \<times> scope) \<Rightarrow> rows \<times> u32 \<Rightarrow> bool" where
  "mentions k c \<longleftrightarrow> k \<in> set (map (\<lambda>r. (cr_identity_id r, cr_scope r)) (r_counters (fst c)))"

definition newest :: "'a list \<Rightarrow> 'a list" where
  "newest xs = drop (length xs - TREND_TICKS) xs"

definition flow_spec :: "(i64 \<times> scope) \<Rightarrow> (rows \<times> u32) list \<Rightarrow> flow option" where
  "flow_spec k cs =
     (case dropWhile (\<lambda>c. \<not> mentions k c) cs of
        [] \<Rightarrow> None
      | since \<Rightarrow> Some \<lparr>fl_samples = newest (map (chunk_delta k) since), fl_session = sum_list (map (chunk_delta k) since)\<rparr>)"

fun chunks_of :: "view_feed list \<Rightarrow> (rows \<times> u32) list" where
  "chunks_of [] = []"
| "chunks_of (V_Chunk rows ms # fs) = (rows, ms) # chunks_of fs"
| "chunks_of (V_Down reason # fs) = chunks_of fs"

lemma chunks_of_append: "chunks_of (a @ b) = chunks_of a @ chunks_of b"
  by (induction a rule: chunks_of.induct) simp_all

lemma push_newest: "push_capped x (newest xs) = newest (xs @ [x])"
  unfolding newest_def by (rule push_capped_last)

lemma delta_notin: "\<not> mentions k c \<Longrightarrow> chunk_delta k c = 0"
  unfolding chunk_delta_def mentions_def by (rule sum_at_notin) (auto simp: comp_def)

lemma chunk_deltas_keys: "set (map fst (chunk_deltas (r_counters (fst c)))) = {k. mentions k c}"
  unfolding chunk_deltas_def mentions_def by (simp add: hash.keys_fold image_image)

lemma chunk_deltas_get: "get_or_zero (chunk_deltas (r_counters (fst c))) k = chunk_delta k c"
  unfolding chunk_deltas_def chunk_delta_def by (simp add: hash.get_fold) (simp add: get_or_zero_def)

lemma flow_spec_snoc:
  "flow_spec k (cs @ [c]) =
     (case (case flow_spec k cs of None \<Rightarrow> if mentions k c then Some default_flow else None | Some f \<Rightarrow> Some f) of
        None \<Rightarrow> None | Some f \<Rightarrow> Some (sample_flow (chunk_delta k c) f))"
proof (cases "dropWhile (\<lambda>c. \<not> mentions k c) cs")
  case Nil
  then have "dropWhile (\<lambda>c. \<not> mentions k c) (cs @ [c]) = (if mentions k c then [c] else [])"
    by (simp add: dropWhile_append dropWhile_eq_Nil_conv)
  then have "flow_spec k (cs @ [c]) = (if mentions k c then Some \<lparr>fl_samples = [chunk_delta k c], fl_session = chunk_delta k c\<rparr> else None)"
    unfolding flow_spec_def by (simp add: newest_def TREND_TICKS_def)
  moreover have "flow_spec k cs = None" unfolding flow_spec_def Nil by simp
  ultimately show ?thesis
    by (simp add: sample_flow_def default_flow_def push_capped_def TREND_TICKS_def)
next
  case (Cons d ds)
  then have "dropWhile (\<lambda>c. \<not> mentions k c) (cs @ [c]) = d # ds @ [c]"
    by (metis append_Cons dropWhile_append1 dropWhile_append3 dropWhile_eq_Nil_conv list.distinct(1))
  then have "flow_spec k (cs @ [c]) = Some \<lparr>fl_samples = newest (map (chunk_delta k) (d # ds) @ [chunk_delta k c]),
      fl_session = sum_list (map (chunk_delta k) (d # ds)) + chunk_delta k c\<rparr>"
    unfolding flow_spec_def by (simp add: add.assoc)
  moreover have "flow_spec k cs = Some \<lparr>fl_samples = newest (map (chunk_delta k) (d # ds)),
      fl_session = sum_list (map (chunk_delta k) (d # ds))\<rparr>" unfolding flow_spec_def Cons by simp
  ultimately show ?thesis by (simp add: sample_flow_def push_newest)
qed

lemma on_chunk_map_of:
  "map_of (ap_flows (on_chunk rows ms ap)) k =
     (case (case map_of (ap_flows ap) k of None \<Rightarrow> if mentions k (rows, ms) then Some default_flow else None | Some f \<Rightarrow> Some f) of
        None \<Rightarrow> None | Some f \<Rightarrow> Some (sample_flow (chunk_delta k (rows, ms)) f))"
proof -
  have keys: "k \<in> set (map fst (chunk_deltas (r_counters rows))) \<longleftrightarrow> mentions k (rows, ms)"
    using chunk_deltas_keys [of "(rows, ms)"] by auto
  have "map_of (map (\<lambda>(k, f). (k, sample_flow (get_or_zero (chunk_deltas (r_counters rows)) k) f)) t) k
      = map_option (sample_flow (chunk_delta k (rows, ms))) (map_of t k)" for t
    using chunk_deltas_get [of "(rows, ms)" k] by (induction t) auto
  then show ?thesis
    by (simp add: on_chunk_def Let_def or_default_map_of keys del: set_map) (simp split: option.split)
qed

text \<open>The view agrees with what the chunks so far say.\<close>

definition remembers :: "(rows \<times> u32) list \<Rightarrow> app \<Rightarrow> bool" where
  "remembers cs ap \<longleftrightarrow>
     (\<forall>k. map_of (ap_flows ap) k = flow_spec k cs) \<and> ap_intervals ap = newest (map (\<lambda>c. max (snd c) 1) cs)"

lemma remembers_chunk: "remembers cs ap \<Longrightarrow> remembers (cs @ [(rows, ms)]) (on_chunk rows ms ap)"
  unfolding remembers_def by (simp add: on_chunk_map_of flow_spec_snoc) (simp add: on_chunk_def Let_def push_newest)

lemma remembers_feed: "remembers cs ap \<Longrightarrow> remembers (cs @ chunks_of fs) (fold take_feed fs ap)"
proof (induction fs arbitrary: cs ap)
  case (Cons f fs)
  show ?case
  proof (cases f)
    case (V_Chunk rows ms)
    with Cons.IH [OF remembers_chunk [OF Cons.prems]] show ?thesis by (simp add: take_feed_def)
  next
    case (V_Down reason)
    have "remembers cs (ap\<lparr>ap_live := L_Down reason\<rparr>)" using Cons.prems by (simp add: remembers_def)
    with Cons.IH V_Down show ?thesis by (simp add: take_feed_def)
  qed
qed simp

lemma remembers_same: "ap_flows a = ap_flows b \<Longrightarrow> ap_intervals a = ap_intervals b \<Longrightarrow> remembers cs a = remembers cs b"
  by (simp add: remembers_def)

lemma remembers_tick:
  assumes "app_ok ap" "app_tick ve fi ap = Some ap'" "remembers cs ap"
  shows "remembers (cs @ chunks_of (fi_feed fi)) ap'"
proof -
  from app_tick_rows [OF assms(1,2)] obtain b where "same_view b (fold take_feed (fi_feed fi) ap)"
    "ap_flows ap' = ap_flows b" "ap_intervals ap' = ap_intervals b" by blast
  then have "remembers cs' ap' = remembers cs' (fold take_feed (fi_feed fi) ap)" for cs'
    by (intro remembers_same) (simp_all add: same_view_def)
  with remembers_feed [OF assms(3)] show ?thesis by simp
qed

lemma choose_flows [simp]:
  "ap_flows (choose_setting c ap) = ap_flows ap" "ap_intervals (choose_setting c ap) = ap_intervals ap"
  by (cases c; simp add: choose_setting_def)+

lemma step_flows [simp]: "ap_flows (view_step by ap) = ap_flows ap" "ap_intervals (view_step by ap) = ap_intervals ap"
  by (simp_all add: view_step_def Let_def split: prod.split focus.split)

lemma view_key_flows:
  assumes "view_key k ap = Some ap'"
  shows "ap_flows ap' = ap_flows ap \<and> ap_intervals ap' = ap_intervals ap"
proof -
  have cyc: "ap_flows b = ap_flows ap \<and> ap_intervals b = ap_intervals ap" if "cycle kind ap = Some b" for kind b
    using that by (auto simp: cycle_def Let_def split: if_splits)
  have side: "ap_flows b = ap_flows ap \<and> ap_intervals b = ap_intervals ap" if "sidebar_apply ap = Some b" for b
    using that by (auto simp: sidebar_apply_def split: if_splits)
  show ?thesis
    using assms by (cases k) (auto simp: view_key_def char_key_def toggle_focus_def cyc side split: if_splits)
qed

lemma on_key_flows:
  "on_key ke ap = Some (q, ap') \<Longrightarrow> ap_flows ap' = ap_flows ap \<and> ap_intervals ap' = ap_intervals ap"
  by (auto simp: on_key_def filter_key_def dest: view_key_flows split: if_splits key_code.splits)

lemma remembers_run:
  assumes "app_ok ap" "remembers cs ap" "app_run ve frames ap = Some (False, ap')"
  shows "remembers (cs @ chunks_of (concat (map (fi_feed \<circ> fst) frames))) ap'"
  using assms
proof (induction ve frames ap arbitrary: cs rule: app_run.induct)
  case (2 ve fi key rest ap)
  obtain ap1 where tick: "app_tick ve fi ap = Some ap1" using app_tick_total [OF 2(3)] by blast
  have ok1: "app_ok ap1" by (rule app_tick_keeps [OF 2(3) tick])
  have rem1: "remembers (cs @ chunks_of (fi_feed fi)) ap1" by (rule remembers_tick [OF 2(3) tick 2(4)])
  show ?case
  proof (cases key)
    case None
    with 2(1) [OF tick None ok1 rem1] 2(5) tick show ?thesis by (simp add: chunks_of_append)
  next
    case (Some ke)
    obtain q ap2 where k: "on_key ke ap1 = Some (q, ap2)" "app_ok ap2" using on_key_total [OF ok1] by blast
    have "\<not> q" using 2(5) tick Some k(1) by auto
    with k have k': "on_key ke ap1 = Some (False, ap2)" by simp
    have rem2: "remembers (cs @ chunks_of (fi_feed fi)) ap2"
      using rem1 on_key_flows [OF k'] by (simp add: remembers_def)
    from 2(2) [OF tick Some k' refl refl k(2) rem2] 2(5) tick Some k' show ?thesis by (simp add: chunks_of_append)
  qed
qed (simp add: chunks_of.simps)

text \<open>C14. What the view remembers of the live stream is a function of the chunks it was sent, whatever keys
  were pressed and whatever the daemon answered meanwhile: a flow exists once some chunk mentioned it, its
  session total is the sum of its bytes in every chunk since, and its samples are its bytes in each of the
  newest 60 chunks since then, zeros included, aligned with the newest 60 intervals.\<close>

theorem view_remembers_the_stream:
  assumes "app_run ve frames (app_new hello sc g) = Some (False, ap)"
  shows "(\<forall>k. map_of (ap_flows ap) k = flow_spec k (chunks_of (concat (map (fi_feed \<circ> fst) frames)))) \<and>
    ap_intervals ap = newest (map (\<lambda>c. max (snd c) 1) (chunks_of (concat (map (fi_feed \<circ> fst) frames))))"
proof -
  have "app_ok (app_new hello sc g)"
    using app_new_ok [where theme = 0 and daemon = hello and sc = sc and g = g and tr = False]
    by (simp add: app_new_def THEMES_def)
  moreover have "remembers [] (app_new hello sc g)"
    by (simp add: remembers_def app_new_def flow_spec_def newest_def)
  ultimately show ?thesis using remembers_run [of _ "[]", OF _ _ assms] by (simp add: remembers_def)
qed

lemma view_remembers_the_stream_witness:
  "\<exists>ap. app_run quiet_view
     [(\<lparr>fi_feed = [V_Chunk (chunk_rows [one_counter 1 5] []) 1000, V_Down ''x'', V_Chunk (chunk_rows [one_counter 1 7] []) 0],
        fi_instant = 0, fi_now = 0, fi_later = 0\<rparr>, None)] quiet_app = Some (False, ap) \<and>
     map_of (ap_flows ap) (1, Scope_External) = Some \<lparr>fl_samples = [Counts 5 0, Counts 7 0], fl_session = Counts 12 0\<rparr> \<and>
     ap_intervals ap = [1000, 1]"
proof -
  let ?fi = "\<lparr>fi_feed = [V_Chunk (chunk_rows [one_counter 1 5] []) 1000, V_Down ''x'', V_Chunk (chunk_rows [one_counter 1 7] []) 0],
        fi_instant = 0, fi_now = 0, fi_later = 0\<rparr>"
  obtain ap where "app_tick quiet_view ?fi quiet_app = Some ap" using app_tick_total [OF quiet_app_ok] by blast
  then have run: "app_run quiet_view [(?fi, None)] (app_new quiet_hello Scope_External Group_Identity) = Some (False, ap)"
    by (simp add: quiet_app_def)
  from view_remembers_the_stream [OF run] run show ?thesis
    by (intro exI [of _ ap])
      (simp add: quiet_app_def flow_spec_def mentions_def chunk_rows_def one_counter_def chunk_delta_def newest_def TREND_TICKS_def)
qed


section \<open>What the rows add up to\<close>

lemma rank_rows_sorted: "i \<le> j \<Longrightarrow> j < length rs \<Longrightarrow>
    sort_value s (ms_now (rw_sum (rank_rows s rs ! j))) \<le> sort_value s (ms_now (rw_sum (rank_rows s rs ! i)))"
proof -
  let ?key = "\<lambda>r. (- uint (sort_value s (ms_now (rw_sum r))), - uint (sort_value s (ms_session (rw_sum r))), rw_name r, rw_key r)"
  assume ij: "i \<le> j" "j < length rs"
  have "sorted (map ?key (rank_rows s rs))" by (simp add: rank_rows_def)
  moreover have len: "length (rank_rows s rs) = length rs" by (simp add: rank_rows_def)
  ultimately have "?key (rank_rows s rs ! i) \<le> ?key (rank_rows s rs ! j)"
    using ij sorted_nth_mono [of "map ?key (rank_rows s rs)" i j] by simp
  then show ?thesis by (auto simp: less_eq_prod_def word_le_def)
qed

lemma group_sizes_alt:
  "group_sizes ve ids mss = map (\<lambda>g. length (remdups (group_keys (ve_home ve) g ids mss))) [Group_Identity, Group_Project, Group_Exe, Group_User]"
  by (simp add: group_sizes_def group_keys_def)

lemma shown_measures_cong:
  assumes "ap_flows a = ap_flows b" "ap_intervals a = ap_intervals b" "ap_window a = ap_window b"
    "ap_scope a = ap_scope b" "ap_stored a = ap_stored b"
  shows "shown_measures a = shown_measures b"
  using assms by (simp add: shown_measures_def scoped_measures_def stored_measures_def)

lemma described_all: "fst ` set mss \<subseteq> dom (map_of ids) \<Longrightarrow> described ids mss = mss"
  unfolding described_def by (rule filter_True) (auto simp: subset_iff image_iff dom_def)

lemma scoped_described:
  "fst ` set (scoped_measures ap) \<subseteq> fst ` fst ` set (ap_flows ap)"
  by (force simp: scoped_measures_def)

lemma take_feed_frame:
  "ap_filter (fold take_feed fs ap) = ap_filter ap \<and> ap_group (fold take_feed fs ap) = ap_group ap"
  by (induction fs arbitrary: ap) (simp_all add: take_feed_def on_chunk_def Let_def split: view_feed.split)

text \<open>C13. The rows add up: with no filter, the rows' traffic is, whatever the grouping, the traffic of every
  described identity in scope; in the live view with every identity described that is the header's total; the
  sidebar's count for the current grouping is the number of rows; and the busiest rows come first.\<close>

theorem rows_add_up:
  assumes "app_ok ap" and "app_tick ve fi ap = Some ap'" and "ve_lower ve [] = []" and "ap_filter ap = []"
  shows "sum_list (map rw_sum (ap_rows ap')) = sum_list (map snd (described (ap_identities ap') (shown_measures ap'))) \<and>
    (ap_window ap' = W_Live \<and> fst ` fst ` set (ap_flows ap') \<subseteq> dom (map_of (ap_identities ap')) \<longrightarrow>
       sum_list (map rw_sum (ap_rows ap')) = ap_total ap') \<and>
    (\<forall>n < 4. [Group_Identity, Group_Project, Group_Exe, Group_User] ! n = ap_group ap' \<longrightarrow>
       ap_group_sizes ap' ! n = length (ap_rows ap')) \<and>
    (\<forall>i j. i \<le> j \<and> j < length (ap_rows ap') \<longrightarrow>
       sort_value (ap_sort ap') (ms_now (rw_sum (ap_rows ap' ! j))) \<le> sort_value (ap_sort ap') (ms_now (rw_sum (ap_rows ap' ! i))))"
proof -
  from app_tick_rows [OF assms(1,2)] obtain b where same: "same_view b (fold take_feed (fi_feed fi) ap)"
    and rows: "ap_rows ap' = shown_rows ve b (shown_measures b)"
    and tot: "ap_total ap' = sum_list (map snd (scoped_measures b))"
      "ap_group_sizes ap' = group_sizes ve (ap_identities b) (shown_measures b)"
    and eqs: "ap_identities ap' = ap_identities b" "ap_stored ap' = ap_stored b"
      "ap_flows ap' = ap_flows b" "ap_intervals ap' = ap_intervals b" "ap_window ap' = ap_window b"
      "ap_scope ap' = ap_scope b" "ap_group ap' = ap_group b" "ap_sort ap' = ap_sort b" by blast
  have mss: "shown_measures ap' = shown_measures b"
    by (rule shown_measures_cong) (simp_all add: eqs)
  have filt: "ap_filter b = []" using same take_feed_frame [of "fi_feed fi" ap] assms(4) by (simp add: same_view_def)
  note unfiltered = shown_rows_unfiltered [OF assms(3) filt, of "shown_measures b"]
  have sum: "sum_list (map rw_sum (ap_rows ap')) = sum_list (map snd (described (ap_identities ap') (shown_measures ap')))"
    by (simp add: rows mss eqs unfiltered)
  have live: "sum_list (map rw_sum (ap_rows ap')) = ap_total ap'"
    if "ap_window ap' = W_Live" "fst ` fst ` set (ap_flows ap') \<subseteq> dom (map_of (ap_identities ap'))"
  proof -
    have shown: "shown_measures ap' = fold (\<lambda>(k, d). hash_bump k d) (scoped_measures ap') []"
      using that(1) by (simp add: shown_measures_def)
    have "fst ` set (shown_measures ap') \<subseteq> dom (map_of (ap_identities ap'))"
      unfolding shown hash.keys_fold using scoped_described [of ap'] that(2) by auto
    moreover have "scoped_measures ap' = scoped_measures b" by (simp add: scoped_measures_def eqs)
    ultimately show ?thesis
      unfolding sum by (simp add: described_all shown hash.total_fold tot)
  qed
  have count: "ap_group_sizes ap' ! n = length (ap_rows ap')"
    if "n < 4" "[Group_Identity, Group_Project, Group_Exe, Group_User] ! n = ap_group ap'" for n
    using that by (simp add: tot(2) group_sizes_alt rows unfiltered(2) eqs numeral_eq_Suc less_Suc_eq) auto
  have ranked: "sort_value (ap_sort ap') (ms_now (rw_sum (ap_rows ap' ! j))) \<le> sort_value (ap_sort ap') (ms_now (rw_sum (ap_rows ap' ! i)))"
    if "i \<le> j" "j < length (ap_rows ap')" for i j
    using that unfolding rows eqs shown_rows_def by (intro rank_rows_sorted) (simp_all add: rank_rows_def)
  show ?thesis using sum live count ranked by blast
qed

lemma rows_add_up_witness:
  "\<exists>ap'. app_tick quiet_view \<lparr>fi_feed = [V_Chunk (chunk_rows [one_counter 1 5] [one_identity 1 ''curl'']) 1000],
       fi_instant = 0, fi_now = 0, fi_later = 0\<rparr> quiet_app = Some ap' \<and>
     sum_list (map rw_sum (ap_rows ap')) = sum_list (map snd (described (ap_identities ap') (shown_measures ap')))"
proof -
  let ?fi = "\<lparr>fi_feed = [V_Chunk (chunk_rows [one_counter 1 5] [one_identity 1 ''curl'']) 1000],
    fi_instant = 0, fi_now = 0, fi_later = 0\<rparr>"
  obtain ap' where tick: "app_tick quiet_view ?fi quiet_app = Some ap'"
    using app_tick_total [OF quiet_app_ok] by blast
  have "ve_lower quiet_view [] = []" "ap_filter quiet_app = []"
    by (simp_all add: quiet_view_def quiet_app_def app_new_def)
  from rows_add_up [OF quiet_app_ok tick this]
  have "sum_list (map rw_sum (ap_rows ap')) = sum_list (map snd (described (ap_identities ap') (shown_measures ap')))"
    by (rule conjunct1)
  with tick show ?thesis by (intro exI conjI)
qed


section \<open>Failures of the history\<close>

text \<open>A failed refresh keeps the totals of the window that was on screen before, whatever window is now.\<close>

lemma failed_refresh_keeps_totals:
  assumes "\<And>q. ve_rpc ve q = Inl e"
  shows "ap_stored (refresh ve instant now (choose_setting (Ch_Window w) ap)) = ap_stored ap
    \<and> ap_window (refresh ve instant now (choose_setting (Ch_Window w) ap)) = w
    \<and> ap_error (refresh ve instant now (choose_setting (Ch_Window w) ap)) = Some (chain_text e)"
  using assms by (simp add: refresh_def choose_setting_def Let_def split: option.split)

text \<open>A series that arrives does not clear the error of one that failed.\<close>

lemma fetched_history_keeps_error:
  assumes "\<And>q. ve_rpc ve q = Inr rows"
  shows "ap_error (fetch_history ve now ap) = ap_error ap"
  using assms by (simp add: fetch_history_def Let_def split: option.split)

end
