(* ===== verification/Tui_Tests.thy ===== *)
theory Tui_Tests
  imports Tui_Props
begin

text \<open>
  The fixture of the tests of the interactive view (\<open>procflow/src/tui.rs\<close>) over the model: the daemon it
  talks to, the chunks it has seen and the keys it is given, with the test that follows the cursor through
  the ranking. A step that the view would not survive makes the predicate false.
\<close>

definition test_identity :: "i64 \<Rightarrow> string \<Rightarrow> string \<Rightarrow> string \<Rightarrow> identity" where
  "test_identity n comm project user =
     \<lparr>id_id = n, id_uid = 1000, id_unit = [], id_exe = ''/usr/bin/'' @ comm, id_project = project,
      id_cmdline = comm @ '' --serve'', id_comm = comm, id_username = user, id_raw_cmdline = [],
      id_first_seen_ms = 0, id_last_seen_ms = 0\<rparr>"

definition test_counter :: "i64 \<Rightarrow> scope \<Rightarrow> u64 \<Rightarrow> u64 \<Rightarrow> counter_row" where
  "test_counter n sc ingress_bytes egress_bytes =
     \<lparr>cr_identity_id = n, cr_bucket_ms = 0, cr_scope = sc, cr_ingress = ingress_bytes, cr_egress = egress_bytes,
      cr_group_key = []\<rparr>"

definition test_identities :: "identity list" where
  "test_identities =
     [test_identity 1 ''firefox'' ''<none>'' ''eve'', test_identity 2 ''node'' ''/home/eve/web'' ''eve'',
      test_identity 3 ''postgres'' ''/home/eve/web'' ''eve'']"

definition test_rpc :: rpc where
  "test_rpc body =
     (case body of
        TopIdentities q \<Rightarrow>
          if ti_group_by q = Group_User
          then Inr (empty_rows\<lparr>r_counters := [test_counter 0 Scope_External (5 * 2 ^ 30) (2 ^ 30),
                                test_counter 0 Scope_Loopback 9 9]\<rparr>)
          else Inr (empty_rows\<lparr>r_counters := [test_counter 1 Scope_External (3 * 2 ^ 30) (100 * 2 ^ 20),
                                test_counter 2 Scope_External (2 ^ 20) (2 * 2 ^ 30),
                                test_counter 3 Scope_Loopback (7 * 2 ^ 30) (7 * 2 ^ 30)],
                              r_identities := test_identities\<rparr>)
      | Series _ \<Rightarrow>
          Inr (empty_rows\<lparr>r_counters := map (\<lambda>hour. (test_counter 1 Scope_External (of_nat hour * 1000) 500)
                                  \<lparr>cr_bucket_ms := int hour * 3600000\<rparr>) [0..<24],
                           r_tier := Tier_Hour\<rparr>)
      | _ \<Rightarrow> Inl [''unexpected request''])"

definition test_view :: "int view_env" where
  "test_view = \<lparr>ve_home = None, ve_lower = map ascii_lower, ve_time = utc, ve_rpc = test_rpc\<rparr>"

definition test_chunk :: "nat \<Rightarrow> view_feed" where
  "test_chunk tick =
     V_Chunk (empty_rows\<lparr>r_counters := [test_counter 1 Scope_External (2000000 + of_nat tick * 1000) 100000,
                                  test_counter 2 Scope_External 50000 400000,
                                  test_counter 3 Scope_Loopback 9000000 9000000],
                         r_identities := (if tick = 0 then test_identities else [])\<rparr>) 1000"

text \<open>A frame in which nothing arrives; the test's frames are closer together than a refresh.\<close>

definition quiet_frame :: frame_input where
  "quiet_frame = \<lparr>fi_feed = [], fi_instant = 0, fi_now = 1783337400000, fi_later = 1783337400000\<rparr>"

definition test_app :: "nat \<Rightarrow> app option" where
  "test_app ticks =
     app_tick test_view (quiet_frame\<lparr>fi_feed := map test_chunk [0..<ticks]\<rparr>)
       (app_new \<lparr>ho_version = ''0.1.0'', ho_proto_min = 0, ho_proto_max = 0, ho_collector_active = True,
                ho_demo = False\<rparr> Scope_External Group_Identity)"

definition plain_key :: "key_code \<Rightarrow> key_event" where
  "plain_key k = \<lparr>ke_press = True, ke_control = False, ke_code = k\<rparr>"

text \<open>A key that must not quit, and the frame after it.\<close>

definition press_key :: "key_code \<Rightarrow> app \<Rightarrow> app option" where
  "press_key k ap =
     Option.bind (on_key (plain_key k) ap) (\<lambda>(quit, ap). if quit then None else app_tick test_view quiet_frame ap)"

fun press :: "string \<Rightarrow> app \<Rightarrow> app option" where
  "press [] ap = Some ap"
| "press (c # cs) ap = Option.bind (press_key (K_Char [c]) ap) (press cs)"

definition names :: "app \<Rightarrow> string list" where
  "names ap = map rw_name (ap_rows ap)"

definition holds :: "('a \<Rightarrow> bool) \<Rightarrow> 'a option \<Rightarrow> bool" where
  "holds P x = (case x of None \<Rightarrow> False | Some v \<Rightarrow> P v)"

definition cursor_through_the_ranking :: bool where
  "cursor_through_the_ranking \<longleftrightarrow>
     holds (\<lambda>ap.
         map_option rw_name (selected ap) = Some ''node''
         \<and> holds (\<lambda>ap. ap_table ap = Some 0 \<and> map_option rw_name (selected ap) = Some ''node'') (press ''oo'' ap))
       (Option.bind (test_app 3) (press ''j''))"

lemma cursor_through_the_ranking: cursor_through_the_ranking
  by code_simp

end
