(* ===== verification/Ui.thy ===== *)
theory Ui
  imports Tui
begin

text \<open>
  Drawing (\<open>procflow/src/ui.rs\<close>): what is put on the screen for a state of the view. Ratatui's layout and
  widgets are not under \<open>src/\<close>: the splitting of an area, the inside of a bordered block and the display
  width of a text are the parameter \<open>ui_env\<close>, and a frame is the list of widgets with their areas in the
  order they are drawn. A panic is \<open>None\<close>. Coordinates are natural numbers; text is UTF-8.
\<close>

section \<open>Text\<close>

definition utf8 :: "nat list \<Rightarrow> string" where
  "utf8 bytes = map char_of bytes"

definition MIDDOT :: string where "MIDDOT = '' '' @ utf8 [0xC2, 0xB7] @ '' ''"

record ui_style =
  sy_fg :: "color option"
  sy_bg :: "color option"
  sy_bold :: bool

definition raw :: ui_style where
  "raw = \<lparr>sy_fg = None, sy_bg = None, sy_bold = False\<rparr>"

definition fg :: "color \<Rightarrow> ui_style" where
  "fg c = raw\<lparr>sy_fg := Some c\<rparr>"

definition bold :: "color \<Rightarrow> ui_style" where
  "bold c = (fg c)\<lparr>sy_bold := True\<rparr>"

type_synonym span = "ui_style \<times> string"

datatype ui_align = Align_Left | Align_Center | Align_Right

record ui_line =
  ln_align :: ui_align
  ln_style :: ui_style
  ln_spans :: "span list"

definition line_of :: "span list \<Rightarrow> ui_line" where
  "line_of spans = \<lparr>ln_align = Align_Left, ln_style = raw, ln_spans = spans\<rparr>"

definition line_styled :: "string \<Rightarrow> ui_style \<Rightarrow> ui_line" where
  "line_styled text st = \<lparr>ln_align = Align_Left, ln_style = st, ln_spans = [(raw, text)]\<rparr>"

definition aligned_right :: "ui_line \<Rightarrow> ui_line" where
  "aligned_right l = l\<lparr>ln_align := Align_Right\<rparr>"

definition pad_left :: "nat \<Rightarrow> string \<Rightarrow> string" where
  "pad_left w s = spaces (w - text_width s) @ s"

text \<open>\<open>spark\<close>: \<open>value * 7\<close> wraps at 64 bits; \<open>div_ceil\<close> is exact.\<close>

definition TREND_WIDTH :: nat where "TREND_WIDTH = 16"

definition BARS :: "string list" where
  "BARS = map (\<lambda>b. utf8 [0xE2, 0x96, b]) [0x81, 0x82, 0x83, 0x84, 0x85, 0x86, 0x87, 0x88]"

definition div_ceil :: "u64 \<Rightarrow> u64 \<Rightarrow> u64" where
  "div_ceil a b = (if a mod b = 0 then a div b else a div b + 1)"

definition bar :: "u64 \<Rightarrow> u64 \<Rightarrow> nat" where
  "bar peak v = unat (min (div_ceil (v * 7) peak) 7)"

definition newest_of :: "nat \<Rightarrow> 'a list \<Rightarrow> 'a list" where
  "newest_of width values = drop (length values - width) values"

definition spark :: "u64 list \<Rightarrow> nat \<Rightarrow> string" where
  "spark values width =
     (let shown = newest_of width values; peak = max (fold max shown 0) 1
      in spaces (width - length shown) @ concat (map (\<lambda>v. BARS ! bar peak v) shown))"

text \<open>The quotient of two doubles that are whole numbers, \<open>b \<noteq> 0\<close>, as \<open>(p, s)\<close> for \<open>p / 2 ^ s\<close>.\<close>

definition f64_quot :: "nat \<Rightarrow> nat \<Rightarrow> nat \<times> nat" where
  "f64_quot a b =
     (let s = 53 + bit_len b - bit_len a; k = bit_len a - bit_len b - 53; num = a * 2 ^ s; den = b * 2 ^ k
      in if den * 2 ^ 53 \<le> num then (round_half_even num (den * 2) * 2 * 2 ^ k, s)
         else (round_half_even num den * 2 ^ k, s))"

definition f64_round :: "nat \<times> nat \<Rightarrow> nat" where
  "f64_round x = (case x of (p, s) \<Rightarrow> (2 * p + 2 ^ s) div (2 * 2 ^ s))"

definition gauge_filled :: "u64 \<Rightarrow> u64 \<Rightarrow> nat \<Rightarrow> nat" where
  "gauge_filled part whole width =
     (let exact = f64_quot (f64_of (f64_of (unat part) * f64_of width)) (f64_of (unat (max whole 1)))
      in min (max (f64_round exact) (if 0 < part then 1 else 0)) width)"

definition gauge :: "u64 \<Rightarrow> u64 \<Rightarrow> nat \<Rightarrow> string" where
  "gauge part whole width =
     (let filled = gauge_filled part whole width
      in concat (replicate filled (utf8 [0xE2, 0x96, 0xB0]))
         @ concat (replicate (width - filled) (utf8 [0xE2, 0x96, 0xB1])))"

definition rate :: "u64 \<Rightarrow> string" where
  "rate bytes_per_second = human_bytes bytes_per_second @ ''/s''"

definition group_label :: "group_by \<Rightarrow> string" where
  "group_label g =
     (case g of Group_Project \<Rightarrow> ''project'' | Group_Exe \<Rightarrow> ''exe'' | Group_User \<Rightarrow> ''user'' | _ \<Rightarrow> ''identity'')"

text \<open>\<open>label[..1].make_ascii_uppercase()\<close>; slicing the empty string panics.\<close>

fun capitalised :: "string \<Rightarrow> string option" where
  "capitalised [] = None"
| "capitalised (c # cs) = Some (ascii_upper c # cs)"

definition lower_label :: "view_window \<Rightarrow> string" where
  "lower_label w = map ascii_lower (window_label w)"

text \<open>\<open>{seconds:.0}\<close> of \<open>ms as f64 / 1000.0\<close>: no double near a half lies on the other side of it.\<close>

definition poll_seconds :: "app \<Rightarrow> nat option" where
  "poll_seconds ap = (if ap_intervals ap = [] then None else Some (unat (last (ap_intervals ap))))"

definition whole_seconds :: "nat \<Rightarrow> string" where
  "whole_seconds ms = dec (round_half_even ms 1000) @ ''s''"


section \<open>Areas and widgets\<close>

record rect =
  rc_x :: nat
  rc_y :: nat
  rc_width :: nat
  rc_height :: nat

datatype ui_constraint = C_Length nat | C_Min nat | C_Fill nat

record ui_pane =
  pn_title :: span
  pn_border :: ui_style
  pn_top :: "ui_line list"

datatype widget =
    U_Background ui_style
  | U_Line ui_line
  | U_Span span
  | U_Pane ui_pane
  | U_Paragraph "ui_line list" "ui_pane option"
  | U_Table "ui_line list list" "ui_constraint list" "ui_line list" ui_style ui_style ui_pane "nat option"
  | U_Sparkline "u64 list" ui_style

type_synonym frame = "(rect \<times> widget) list"

record ui_env =
  ue_vertical :: "ui_constraint list \<Rightarrow> rect \<Rightarrow> rect list"
  ue_horizontal :: "ui_constraint list \<Rightarrow> rect \<Rightarrow> rect list"
  ue_inner :: "rect \<Rightarrow> rect"
  ue_width :: "ui_line \<Rightarrow> nat"

definition pane :: "theme \<Rightarrow> string \<Rightarrow> bool \<Rightarrow> ui_pane" where
  "pane t title focused =
     \<lparr>pn_title = (if focused then bold (th_accent t) else fg (th_subtext t), '' '' @ title @ '' ''),
      pn_border = fg (if focused then th_focus t else th_border t), pn_top = []\<rparr>"

definition title_top :: "ui_line \<Rightarrow> ui_pane \<Rightarrow> ui_pane" where
  "title_top l p = p\<lparr>pn_top := pn_top p @ [l]\<rparr>"

definition hint :: "theme \<Rightarrow> string \<Rightarrow> string \<Rightarrow> span list" where
  "hint t key label =
     [(fg (th_muted t), ''[ ''), (bold (th_accent t), key), (fg (th_subtext t), '' '' @ label @ '' ] '')]"


section \<open>The header\<close>

definition divider :: "theme \<Rightarrow> span" where
  "divider t = (fg (th_border t), ''  '' @ utf8 [0xE2, 0x94, 0x82] @ ''  '')"

definition fact_spans :: "theme \<Rightarrow> string \<Rightarrow> string \<Rightarrow> color \<Rightarrow> span list" where
  "fact_spans t label v c = [(fg (th_subtext t), label @ '' ''), (bold c, v)]"

definition collector_status :: "theme \<Rightarrow> live_status \<Rightarrow> string \<times> color" where
  "collector_status t live =
     (case live of
        L_Live \<Rightarrow> (''live'', th_good t)
      | L_Connecting \<Rightarrow> (''connecting'', th_warn t)
      | L_Down _ \<Rightarrow> (''down'', th_bad t))"

definition header_left :: "theme \<Rightarrow> app \<Rightarrow> ui_line" where
  "header_left t ap =
     (let (collector, color) = collector_status t (ap_live ap)
      in line_of ([(bold (th_accent t), '' '' @ utf8 [0xE2, 0x87, 0x85] @ '' procflow'')]
           @ (if ho_demo (ap_daemon ap)
              then [(raw, '' ''), ((bold (th_base t))\<lparr>sy_bg := Some (th_warn t)\<rparr>, '' DEMO '')] else [])
           @ [divider t] @ fact_spans t ''daemon'' (ho_version (ap_daemon ap)) (th_text t)
           @ [divider t] @ fact_spans t ''collector'' collector color))"

definition header_right :: "theme \<Rightarrow> app \<Rightarrow> ui_line" where
  "header_right t ap =
     line_of (fact_spans t ''window'' (lower_label (ap_window ap)) (th_warn t)
       @ [divider t] @ fact_spans t ''scope'' (fmt_scope (ap_scope ap)) (th_warn t)
       @ [divider t] @ fact_spans t ''by'' (group_label (ap_group ap)) (th_warn t)
       @ [divider t] @ fact_spans t ''theme'' (th_name t) (th_warn t) @ [(raw, '' '')])"

definition meter :: "theme \<Rightarrow> string \<Rightarrow> color \<Rightarrow> u64 \<Rightarrow> u64 list \<Rightarrow> span list" where
  "meter t label color now trend =
     [(fg (th_subtext t), label @ '' ''), (fg color, spark trend 24),
      (bold color, '' '' @ pad_right 14 (rate now))]"

definition header_meters :: "theme \<Rightarrow> app \<Rightarrow> ui_line" where
  "header_meters t ap =
     line_of ((raw, '' '') #
       (case ap_live ap of
          L_Down reason \<Rightarrow> [(fg (th_warn t), ''no live traffic: '' @ reason)]
        | _ \<Rightarrow>
            meter t (DOWN @ '' IN '') (th_ingress t) (ingress (ms_now (ap_total ap))) (map ingress (ms_samples (ap_total ap)))
            @ meter t (UP @ '' OUT'') (th_egress t) (egress (ms_now (ap_total ap))) (map egress (ms_samples (ap_total ap)))))"

definition header_today :: "theme \<Rightarrow> app \<Rightarrow> ui_line" where
  "header_today t ap =
     line_of [(fg (th_subtext t), ''TODAY ''),
       (bold (th_ingress t), DOWN @ '' '' @ human_bytes (ingress (ap_today ap))),
       (bold (th_egress t), ''  '' @ UP @ '' '' @ human_bytes (egress (ap_today ap)) @ '' '')]"

definition draw_header :: "ui_env \<Rightarrow> app \<Rightarrow> theme \<Rightarrow> rect \<Rightarrow> frame option" where
  "draw_header ue ap t area =
     (case ue_vertical ue [C_Length 1, C_Length 1, C_Length 1] area of
        [facts, gauges, rule] \<Rightarrow>
          Some [(facts, U_Line (header_left t ap)), (facts, U_Line (aligned_right (header_right t ap))),
                (gauges, U_Line (header_meters t ap)), (gauges, U_Line (aligned_right (header_today t ap))),
                (rule, U_Span (fg (th_border t), concat (replicate (rc_width rule) (utf8 [0xE2, 0x95, 0x8C]))))]
      | _ \<Rightarrow> None)"


section \<open>The sidebar\<close>

fun group_number :: "group_by \<Rightarrow> nat" where
  "group_number Group_Unspecified = 0"
| "group_number Group_Identity = 1"
| "group_number Group_Project = 2"
| "group_number Group_Exe = 3"
| "group_number Group_User = 4"

text \<open>Heading, label, whether it is the current choice, and the note; \<open>group as usize - 1\<close> underflows on
  the unspecified grouping and an index past the sizes panics.\<close>

fun sidebar_entry :: "app \<Rightarrow> choice \<Rightarrow> (string \<times> string \<times> bool \<times> string) option" where
  "sidebar_entry ap (Ch_Window w) =
     Some (''WINDOW'', window_label w, ap_window ap = w,
       (case (w, poll_seconds ap) of (W_Live, Some ms) \<Rightarrow> whole_seconds ms | _ \<Rightarrow> []))"
| "sidebar_entry ap (Ch_Group g) =
     (case capitalised (group_label g) of
        None \<Rightarrow> None
      | Some label \<Rightarrow>
          if group_number g = 0 then None
          else map_option (\<lambda>size. (''GROUP BY'', label, ap_group ap = g, dec size))
                 (nth_opt (ap_group_sizes ap) (group_number g - 1)))"
| "sidebar_entry ap (Ch_Scope s) =
     map_option (\<lambda>label. (''SCOPE'', label, ap_scope ap = s, [])) (capitalised (fmt_scope s))"

definition same_kind :: "choice \<Rightarrow> choice \<Rightarrow> bool" where
  "same_kind a b \<longleftrightarrow> is_window a = is_window b \<and> is_group a = is_group b \<and> is_scope a = is_scope b"

definition entry_line :: "theme \<Rightarrow> nat \<Rightarrow> bool \<Rightarrow> string \<Rightarrow> bool \<Rightarrow> string \<Rightarrow> ui_line" where
  "entry_line t width here label active note =
     (let marker = (if active then utf8 [0xE2, 0x96, 0xB8] else '' '');
          text = ''  '' @ marker @ '' '' @ label;
          pad = width - (text_width text + text_width note + 1);
          st = (if active then bold (th_text t) else fg (th_subtext t));
          note_st = fg (if active then th_warn t else th_muted t);
          st = (if here then st\<lparr>sy_bg := Some (th_accent t), sy_fg := Some (th_base t)\<rparr> else st);
          note_st = (if here then note_st\<lparr>sy_bg := Some (th_accent t)\<rparr> else note_st)
      in line_of [(st, text @ spaces pad), (note_st, note @ '' '')])"

fun sidebar_lines :: "app \<Rightarrow> theme \<Rightarrow> nat \<Rightarrow> choice option \<Rightarrow> nat \<Rightarrow> choice list \<Rightarrow> ui_line list option" where
  "sidebar_lines ap t width before index [] = Some []"
| "sidebar_lines ap t width before index (c # cs) =
     (case sidebar_entry ap c of
        None \<Rightarrow> None
      | Some (heading, label, active, note) \<Rightarrow>
          let first = (case before of None \<Rightarrow> True | Some b \<Rightarrow> \<not> same_kind b c);
              above = (if first
                then (if before = None then [] else [line_of []])
                  @ [line_styled ('' '' @ utf8 [0xE2, 0x96, 0xBE] @ '' '' @ heading) (bold (th_muted t))]
                else []);
              here = (ap_focus ap = F_Sidebar \<and> index = ap_sidebar ap)
          in map_option (\<lambda>rest. above @ entry_line t width here label active note # rest)
               (sidebar_lines ap t width (Some c) (index + 1) cs))"

definition draw_sidebar :: "ui_env \<Rightarrow> app \<Rightarrow> theme \<Rightarrow> rect \<Rightarrow> frame option" where
  "draw_sidebar ue ap t area =
     (let block = pane t ''Views'' (ap_focus ap = F_Sidebar)
      in map_option (\<lambda>lines. [(area, U_Paragraph lines (Some block))])
           (sidebar_lines ap t (rc_width (ue_inner ue area)) None 0 CHOICES))"


section \<open>The table\<close>

definition empty_message :: "app \<Rightarrow> string" where
  "empty_message ap =
     (if ap_filter ap \<noteq> [] then ''nothing matches the filter, esc clears it''
      else if ap_window ap = W_Live then
        (case ap_live ap of
           L_Down reason \<Rightarrow> ''no live traffic: '' @ reason
         | L_Connecting \<Rightarrow> ''waiting for the first poll interval'' @ ELLIPSIS
         | L_Live \<Rightarrow> ''no traffic in this scope yet'')
      else ''no traffic recorded in this window'')"

definition table_pane :: "theme \<Rightarrow> app \<Rightarrow> ui_pane" where
  "table_pane t ap =
     title_top (aligned_right (line_of (hint t ''/'' ''filter'' @ hint t ''o'' (''sort '' @ sort_label (ap_sort ap)))))
       (pane t (''Top talkers'' @ MIDDOT @ lower_label (ap_window ap)) (ap_focus ap = F_Table))"

text \<open>Which of the optional columns fit: second, third, session, trend.\<close>

record columns_shown =
  sh_second :: bool
  sh_third :: bool
  sh_session :: bool
  sh_trend :: bool

definition columns_for :: "bool \<Rightarrow> nat \<Rightarrow> columns_shown" where
  "columns_for live room =
     \<lparr>sh_second = 60 \<le> room, sh_third = 100 \<le> room, sh_session = (live \<and> 124 \<le> room), sh_trend = 76 \<le> room\<rparr>"

definition group_columns :: "group_by \<Rightarrow> string \<times> string" where
  "group_columns g =
     (if g \<in> {Group_Project, Group_Exe} then (''PATH'', ''MEMBERS'')
      else if g = Group_User then (''UID'', ''MEMBERS'') else (''PROJECT'', ''USER''))"

definition plain_line :: "string \<Rightarrow> ui_line" where
  "plain_line s = line_of [(raw, s)]"

definition ui_headers :: "app \<Rightarrow> columns_shown \<Rightarrow> (ui_line \<times> ui_constraint) list" where
  "ui_headers ap sh =
     (let live = (ap_window ap = W_Live);
          number_width = (if live then 12 else 10);
          name = (if grouped (ap_group ap) then map ascii_upper (group_label (ap_group ap)) else ''NAME'');
          (second, third) = group_columns (ap_group ap);
          right = (\<lambda>s. aligned_right (plain_line s));
          (name_fill, second_fill) = (if grouped (ap_group ap) then (2, 3) else (3, 2));
          (ingress_h, egress_h) = (if live then (DOWN @ '' IN/s'', UP @ '' OUT/s'') else (DOWN @ '' INGRESS'', UP @ '' EGRESS''))
      in [(right ''#'', C_Length 3), (plain_line name, C_Fill name_fill)]
         @ (if sh_second sh then [(plain_line second, C_Fill second_fill)] else [])
         @ (if sh_third sh then [(plain_line third, C_Length 13)] else [])
         @ [(right ingress_h, C_Length number_width), (right egress_h, C_Length number_width)]
         @ (if sh_session sh then [(right (DOWN @ '' SESSION''), C_Length 10), (right (UP @ '' SESSION''), C_Length 10)] else [])
         @ (if sh_trend sh then [(plain_line (if live then ''TREND'' else ''SHARE''), C_Length TREND_WIDTH)] else []))"

definition biggest_row :: "app \<Rightarrow> u64" where
  "biggest_row ap = fold max (map (\<lambda>r. sort_value (ap_sort ap) (ms_now (rw_sum r))) (ap_rows ap)) 0"

definition row_last :: "app \<Rightarrow> view_row \<Rightarrow> string" where
  "row_last ap row =
     (if ap_window ap = W_Live
      then spark (map (sort_value (ap_sort ap)) (ms_samples (rw_sum row))) TREND_WIDTH
      else gauge (sort_value (ap_sort ap) (ms_now (rw_sum row))) (biggest_row ap) TREND_WIDTH)"

definition row_cells :: "theme \<Rightarrow> app \<Rightarrow> columns_shown \<Rightarrow> nat \<Rightarrow> view_row \<Rightarrow> ui_line list" where
  "row_cells t ap sh index row =
     (let live = (ap_window ap = W_Live);
          now = ms_now (rw_sum row); session = ms_session (rw_sum row);
          idle = (live \<and> ingress now = 0 \<and> egress now = 0);
          tone = (\<lambda>c. fg (if idle then th_muted t else c));
          number = (\<lambda>v c. aligned_right (line_styled v (tone c)));
          cell = (\<lambda>v c. line_of [(tone c, v)]);
          shown_bytes = (\<lambda>v. if live then rate v else human_bytes v)
      in map snd (filter fst
           [(True, number (dec (index + 1)) (th_muted t)),
            (True, cell (rw_name row) (if rw_unresolved row then th_warn t else th_text t)),
            (sh_second sh, cell (rw_second row) (th_subtext t)),
            (sh_third sh, cell (rw_third row) (th_subtext t)),
            (True, number (shown_bytes (ingress now)) (th_ingress t)),
            (True, number (shown_bytes (egress now)) (th_egress t)),
            (sh_session sh, number (human_bytes (ingress session)) (th_subtext t)),
            (sh_session sh, number (human_bytes (egress session)) (th_subtext t)),
            (sh_trend sh, cell (row_last ap row) (th_trend t))]))"

definition draw_table :: "ui_env \<Rightarrow> app \<Rightarrow> theme \<Rightarrow> rect \<Rightarrow> frame option" where
  "draw_table ue ap t area =
     (let block = table_pane t ap in
      if ap_rows ap = [] then
        (case ue_vertical ue [C_Fill 1, C_Length 1, C_Fill 1] (ue_inner ue area) of
           [_, middle, _] \<Rightarrow>
             Some [(area, U_Pane block),
                   (middle, U_Line ((line_styled (empty_message ap) (fg (th_subtext t)))\<lparr>ln_align := Align_Center\<rparr>))]
         | _ \<Rightarrow> None)
      else
        (let sh = columns_for (ap_window ap = W_Live) (rc_width area - 2);
             headers = ui_headers ap sh
         in Some [(area, U_Table (map (\<lambda>(index, row). row_cells t ap sh index row) (enumerate 0 (ap_rows ap)))
                    (map snd headers) (map fst headers) (bold (th_subtext t))
                    \<lparr>sy_fg = Some (th_base t), sy_bg = Some (th_accent t), sy_bold = True\<rparr> block (ap_table ap))]))"


section \<open>The detail pane\<close>

definition detail_title :: "app \<Rightarrow> string option" where
  "detail_title ap =
     (case selected ap of
        Some row \<Rightarrow> (if rw_identity row \<noteq> None then Some ''Identity'' else capitalised (group_label (ap_group ap)))
      | None \<Rightarrow> Some ''Identity'')"

definition KEYS :: "(string \<times> string) list" where
  "KEYS = [(''w'', ''Window''), (''g'', ''Group by''), (''s'', ''Scope''), (''o'', ''Sort column''),
     (''/'', ''Filter''), (''tab'', ''Switch pane''), (''r'', ''Refresh history''), (''t'', ''Theme''),
     (''b'', ''Background on/off''), (''q'', ''Quit'')]"

definition key_line :: "theme \<Rightarrow> string \<times> string \<Rightarrow> ui_line" where
  "key_line t ka =
     line_of [(fg (th_muted t), '' [''), (bold (th_accent t), fst ka), (fg (th_muted t), ''] ''), (fg (th_text t), snd ka)]"

definition field_line :: "theme \<Rightarrow> nat \<Rightarrow> string \<Rightarrow> string \<Rightarrow> ui_line" where
  "field_line t width label v =
     line_of [(fg (th_subtext t), '' '' @ pad_right 9 label), (fg (th_text t), ellipsis v (width - 9))]"

definition identity_lines :: "string option \<Rightarrow> theme \<Rightarrow> nat \<Rightarrow> view_row \<Rightarrow> identity \<Rightarrow> ui_line list" where
  "identity_lines home t width row i =
     [line_styled ('' '' @ ellipsis (id_cmdline i) width) (fg (th_subtext t)), line_of [],
      field_line t width ''user'' (fmt_user i), field_line t width ''project'' (tilde home (id_project i)),
      field_line t width ''exe'' (tilde home (id_exe i)), field_line t width ''unit'' (basename (id_unit i))]
     @ (if rw_unresolved row then [line_styled '' exited before it could be read'' (fg (th_warn t))] else [])"

definition member_line :: "theme \<Rightarrow> string \<times> counts \<Rightarrow> ui_line" where
  "member_line t m =
     line_of [(fg (th_text t), '' '' @ pad_right 12 (ellipsis (fst m) 12)),
       (fg (th_ingress t), pad_left 11 (human_bytes (ingress (snd m)))),
       (fg (th_egress t), pad_left 11 (human_bytes (egress (snd m))))]"

definition selection_lines :: "string option \<Rightarrow> app \<Rightarrow> theme \<Rightarrow> view_row \<Rightarrow> nat \<Rightarrow> ui_line list" where
  "selection_lines home ap t row width =
     line_styled ('' '' @ ellipsis (rw_name row) width) (bold (th_accent t)) #
       (case Option.bind (rw_identity row) (map_of (ap_identities ap)) of
          Some i \<Rightarrow> identity_lines home t width row i
        | None \<Rightarrow>
            [line_styled ('' '' @ ellipsis (rw_second row) width) (fg (th_subtext t)), line_of []]
            @ map (member_line t) (take 6 (rw_members row)))"

text \<open>The two charts: live samples, or the stored series of an identity; a group has none in a history window.\<close>

definition chart_data :: "app \<Rightarrow> view_row \<Rightarrow> (u64 list \<times> u64 list \<times> string \<times> string) option" where
  "chart_data ap row =
     (if ap_window ap = W_Live then
        Some (map ingress (ms_samples (rw_sum row)), map egress (ms_samples (rw_sum row)),
              ''total '' @ human_bytes (ingress (ms_session (rw_sum row))),
              ''total '' @ human_bytes (egress (ms_session (rw_sum row))))
      else if rw_identity row \<noteq> None then
        Some (hi_ingress (ap_history ap), hi_egress (ap_history ap),
              ''per '' @ hi_tier (ap_history ap), ''per '' @ hi_tier (ap_history ap))
      else None)"

text \<open>\<open>a - b\<close> where the source does not saturate: an underflow gives no frame. The sums of coordinates are not
  checked: a screen has far fewer than \<open>2 ^ 16\<close> rows and columns.\<close>

definition checked_diff :: "nat \<Rightarrow> nat \<Rightarrow> nat option" where
  "checked_diff a b = (if a < b then None else Some (a - b))"

definition draw_chart ::
    "theme \<Rightarrow> bool \<Rightarrow> rect \<Rightarrow> rect list \<Rightarrow> nat \<Rightarrow> string \<times> color \<times> u64 list \<times> u64 \<times> string \<Rightarrow> frame option" where
  "draw_chart t live area areas slot ch =
     (case ch of (label, color, values, now, caption) \<Rightarrow>
      (case (nth_opt areas (slot * 3), nth_opt areas (slot * 3 + 1)) of
         (Some caption_area, Some body) \<Rightarrow>
           (let heading = line_of [(fg (th_subtext t), '' '' @ pad_right 6 label),
                             (bold color, human_bytes now @ (if live then ''/s'' else []))];
                caption = aligned_right (line_of [(fg (th_muted t), caption @ '' '')]);
                chart = body\<lparr>rc_x := rc_x area + 1, rc_width := rc_width area - 2\<rparr>;
                shown = newest_of (rc_width chart) values
            in map_option (\<lambda>pad.
                 [(caption_area, U_Line caption), (caption_area, U_Line heading),
                  (chart, U_Sparkline (replicate pad 0 @ shown) (fg color))])
                 (checked_diff (rc_width chart) (length shown)))
       | _ \<Rightarrow> None))"

definition draw_selection :: "ui_env \<Rightarrow> string option \<Rightarrow> app \<Rightarrow> theme \<Rightarrow> view_row \<Rightarrow> rect \<Rightarrow> frame option" where
  "draw_selection ue home ap t row area =
     (let lines = selection_lines home ap t row (rc_width area - 2);
          text_height = length lines + 1;
          texts = [(area, U_Paragraph lines None)];
          live = (ap_window ap = W_Live)
      in case chart_data ap row of
           None \<Rightarrow> Some texts
         | Some (ins, outs, in_caption, out_caption) \<Rightarrow>
             (let charts = area\<lparr>rc_y := rc_y area + text_height, rc_height := rc_height area - text_height\<rparr> in
              if rc_height charts < 5 then Some texts
              else
                (case checked_diff (rc_height charts) 3 of None \<Rightarrow> None | Some rest \<Rightarrow>
                 let h = min (rest div 2) 4;
                     areas = ue_vertical ue [C_Length 1, C_Length h, C_Length 1, C_Length 1, C_Length h] charts;
                     now = ms_now (rw_sum row)
                 in case (draw_chart t live area areas 0 (DOWN @ '' in'', th_ingress t, ins, ingress now, in_caption),
                          draw_chart t live area areas 1 (UP @ '' out'', th_egress t, outs, egress now, out_caption)) of
                      (Some a, Some b) \<Rightarrow> Some (texts @ a @ b)
                    | _ \<Rightarrow> None)))"

definition draw_detail :: "ui_env \<Rightarrow> string option \<Rightarrow> app \<Rightarrow> theme \<Rightarrow> rect \<Rightarrow> frame option" where
  "draw_detail ue home ap t area =
     (case (ue_vertical ue [C_Min 6, C_Length 12] area, detail_title ap) of
        ([detail, keys], Some title) \<Rightarrow>
          map_option (\<lambda>selection. (detail, U_Pane (pane t title False)) # selection
                @ [(keys, U_Paragraph (map (key_line t) KEYS) (Some (pane t ''Keys'' False)))])
            (case selected ap of
               None \<Rightarrow> Some []
             | Some row \<Rightarrow> draw_selection ue home ap t row (ue_inner ue detail))
      | _ \<Rightarrow> None)"


section \<open>The filter and the status line\<close>

definition draw_filter :: "app \<Rightarrow> theme \<Rightarrow> rect \<Rightarrow> frame" where
  "draw_filter ap t area =
     (let block = title_top (aligned_right (line_of (hint t ''esc'' ''clear''))) (pane t ''Filter'' (ap_filtering ap));
          prompt = '' '' @ utf8 [0xE2, 0x9D, 0xAF] @ '' '';
          line = (if ap_filtering ap \<or> ap_filter ap \<noteq> []
            then line_of [(bold (th_accent t), prompt), (fg (th_text t), ap_filter ap),
                          (fg (th_accent t), if ap_filtering ap then utf8 [0xE2, 0x96, 0x8F] else [])]
            else line_of [(fg (th_muted t), prompt), (fg (th_muted t), ''press / to filter by name, project or user'')])
      in [(area, U_Paragraph [line] (Some block))])"

definition status_text :: "theme \<Rightarrow> app \<Rightarrow> color \<times> string" where
  "status_text t ap =
     (case ap_error ap of
        Some error \<Rightarrow> (th_bad t, ''daemon unreachable: '' @ error)
      | None \<Rightarrow>
          if ap_window ap = W_Live then
            (case ap_live ap of
               L_Down reason \<Rightarrow> (th_warn t, ''no live traffic: '' @ reason)
             | _ \<Rightarrow>
                 (th_good t, ''live'' @ MIDDOT
                    @ (case poll_seconds ap of None \<Rightarrow> ''waiting for the daemon'' | Some ms \<Rightarrow> whole_seconds ms @ '' polls'')
                    @ MIDDOT @ dec (length (ap_rows ap)) @ '' rows''))
          else (th_trend t, ''history'' @ MIDDOT @ lower_label (ap_window ap) @ MIDDOT @ dec (length (ap_rows ap)) @ '' rows''))"

definition STATUS_KEYS :: string where
  "STATUS_KEYS = ''tab panes'' @ MIDDOT @ utf8 [0xE2, 0x86, 0x91, 0xE2, 0x86, 0x93] @ '' move'' @ MIDDOT
     @ ''enter apply'' @ MIDDOT @ ''/ filter'' @ MIDDOT @ ''q quit ''"

definition status_left :: "theme \<Rightarrow> app \<Rightarrow> ui_line" where
  "status_left t ap =
     (let (dot, text) = status_text t ap
      in line_of ([(fg dot, '' '' @ utf8 [0xE2, 0x97, 0x8F] @ '' '')]
           @ (if ho_demo (ap_daemon ap) \<and> ap_error ap = None then [(bold (th_warn t), DEMO_NOTE @ MIDDOT)] else [])
           @ [(fg (th_subtext t), text)]))"

definition draw_status :: "ui_env \<Rightarrow> app \<Rightarrow> theme \<Rightarrow> rect \<Rightarrow> frame" where
  "draw_status ue ap t area =
     (let left = status_left t ap
      in (if ue_width ue left + text_width STATUS_KEYS < rc_width area
          then [(area, U_Line (aligned_right (line_of [(fg (th_muted t), STATUS_KEYS)])))] else [])
         @ [(area, U_Line left)])"


section \<open>The frame\<close>

text \<open>Drawing one pane after the other; a panic in one ends the frame.\<close>

fun all_of :: "frame option list \<Rightarrow> frame option" where
  "all_of [] = Some []"
| "all_of (None # fs) = None"
| "all_of (Some f # fs) = map_option (\<lambda>rest. f @ rest) (all_of fs)"

definition draw_body :: "ui_env \<Rightarrow> string option \<Rightarrow> app \<Rightarrow> theme \<Rightarrow> rect \<Rightarrow> frame option" where
  "draw_body ue home ap t body =
     (let sidebar_width = (if 84 \<le> rc_width body then 22 else 0);
          detail_width = (if 124 \<le> rc_width body then 38 else 0)
      in case ue_horizontal ue [C_Length sidebar_width, C_Min 40, C_Length detail_width] body of
           [side, middle, right] \<Rightarrow>
             all_of [if 0 < rc_width side then draw_sidebar ue ap t side else Some [],
                     draw_table ue ap t middle,
                     if 0 < rc_width right then draw_detail ue home ap t right else Some []]
         | _ \<Rightarrow> None)"

definition draw :: "ui_env \<Rightarrow> string option \<Rightarrow> rect \<Rightarrow> app \<Rightarrow> frame option" where
  "draw ue home screen ap =
     (case app_theme ap of
        None \<Rightarrow> None
      | Some t \<Rightarrow>
          (let background = (if ap_transparent ap then []
                 else [(screen, U_Background \<lparr>sy_fg = Some (th_text t), sy_bg = Some (th_base t), sy_bold = False\<rparr>)])
           in case ue_vertical ue [C_Length 3, C_Min 8, C_Length 3, C_Length 1] screen of
                [header, body, filter_area, status] \<Rightarrow>
                  all_of [Some background, draw_header ue ap t header, draw_body ue home ap t body,
                          Some (draw_filter ap t filter_area), Some (draw_status ue ap t status)]
              | _ \<Rightarrow> None))"


end
