(* ===== verification/Ui_Props.thy ===== *)
theory Ui_Props
  imports Ui Tui_Props
begin

text \<open>
  Properties of drawing: whatever state the view is in after a tick and whatever size the screen has, every
  frame is drawn, and the table in it is rectangular, one row per row of the view, with the cursor inside.
\<close>

section \<open>Every frame is drawn\<close>

text \<open>What the code relies on in ratatui's layout: as many areas as constraints, so that \<open>areas\<close> succeeds.\<close>

definition layout_ok :: "ui_env \<Rightarrow> bool" where
  "layout_ok ue \<longleftrightarrow> (\<forall>cs r. length (ue_vertical ue cs r) = length cs \<and> length (ue_horizontal ue cs r) = length cs)"

lemma listed:
  "length xs = 2 \<Longrightarrow> \<exists>a b. xs = [a, b]" "length xs = 3 \<Longrightarrow> \<exists>a b c. xs = [a, b, c]"
  "length xs = 4 \<Longrightarrow> \<exists>a b c d. xs = [a, b, c, d]"
  by (auto simp: numeral_eq_Suc length_Suc_conv)

lemma split_vertical:
  assumes "layout_ok ue"
  shows "\<exists>a b. ue_vertical ue [c1, c2] r = [a, b]"
    and "\<exists>a b c. ue_vertical ue [c1, c2, c3] r = [a, b, c]"
    and "\<exists>a b c d. ue_vertical ue [c1, c2, c3, c4] r = [a, b, c, d]"
    and "\<exists>a b c. ue_horizontal ue [c1, c2, c3] r = [a, b, c]"
  using assms by (auto intro!: listed simp: layout_ok_def)

lemma capitalised_labels: "\<exists>l. capitalised (group_label g) = Some l" "\<exists>l. capitalised (fmt_scope s) = Some l"
  by (cases g; simp add: group_label_def) (cases s; simp)

lemma sidebar_entry_total:
  assumes "length (ap_group_sizes ap) = 4" "c \<in> set CHOICES"
  shows "\<exists>e. sidebar_entry ap c = Some e"
  using assms capitalised_labels
  by (auto simp: CHOICES_def nth_opt_in group_label_def split: option.splits)

lemma sidebar_lines_total:
  assumes "length (ap_group_sizes ap) = 4" "set cs \<subseteq> set CHOICES"
  shows "\<exists>ls. sidebar_lines ap t width before index cs = Some ls"
  using assms(2)
proof (induction cs arbitrary: before index)
  case (Cons c cs)
  obtain h l a n where e: "sidebar_entry ap c = Some (h, l, a, n)"
    using sidebar_entry_total [OF assms(1)] Cons.prems by (metis list.set_intros(1) prod_cases4 subsetD)
  with Cons.IH [of "Some c" "index + 1"] Cons.prems show ?case by (auto simp: Let_def)
qed simp

lemma all_of_total: "\<forall>f \<in> set fs. f \<noteq> None \<Longrightarrow> \<exists>fr. all_of fs = Some fr"
  by (induction fs rule: all_of.induct) auto

lemma draw_chart_total: "length areas = 5 \<Longrightarrow> slot < 2 \<Longrightarrow> \<exists>f. draw_chart t live area areas slot ch = Some f"
  by (cases ch) (auto simp: draw_chart_def nth_opt_in checked_diff_def newest_of_def Let_def)

lemma draw_selection_total: "layout_ok ue \<Longrightarrow> \<exists>f. draw_selection ue home ap t row area = Some f"
proof -
  assume ok: "layout_ok ue"
  have five: "length (ue_vertical ue [c1, c2, c3, c4, c5] r) = 5" for c1 c2 c3 c4 c5 r
    using ok by (simp add: layout_ok_def)
  note c0 = draw_chart_total [OF five, of 0, simplified] and c1 = draw_chart_total [OF five, of 1, simplified]
  show ?thesis
    using c0 c1 by (auto simp: draw_selection_def checked_diff_def Let_def split: option.splits) (metis option.distinct(1))+
qed

lemma detail_title_total: "\<exists>s. detail_title ap = Some s"
  using capitalised_labels(1) by (auto simp: detail_title_def split: option.split)

lemma draw_detail_total: "layout_ok ue \<Longrightarrow> \<exists>f. draw_detail ue home ap t area = Some f"
proof -
  assume ok: "layout_ok ue"
  obtain a b where ab: "ue_vertical ue [C_Min 6, C_Length 12] area = [a, b]" using split_vertical(1) [OF ok] by blast
  obtain s where s: "detail_title ap = Some s" using detail_title_total by blast
  have "\<exists>f. (case selected ap of None \<Rightarrow> Some [] | Some row \<Rightarrow> draw_selection ue home ap t row (ue_inner ue a)) = Some f"
    using draw_selection_total [OF ok] by (cases "selected ap") auto
  then show ?thesis by (auto simp: draw_detail_def ab s)
qed

lemma draw_table_total: "layout_ok ue \<Longrightarrow> \<exists>f. draw_table ue ap t area = Some f"
  using split_vertical(2) [of ue "C_Fill 1" "C_Length 1" "C_Fill 1" "ue_inner ue area"]
  by (auto simp: draw_table_def Let_def)

lemma draw_total:
  assumes ok: "layout_ok ue" and sizes: "length (ap_group_sizes ap) = 4" and theme: "app_theme ap = Some t"
  shows "\<exists>f. draw ue home screen ap = Some f"
proof -
  obtain a b c d where v: "ue_vertical ue [C_Length 3, C_Min 8, C_Length 3, C_Length 1] screen = [a, b, c, d]"
    using split_vertical(3) [OF ok] by blast
  have header: "\<exists>f. draw_header ue ap t a = Some f"
    using split_vertical(2) [OF ok, of "C_Length 1" "C_Length 1" "C_Length 1" a] by (auto simp: draw_header_def)
  have side: "draw_sidebar ue ap t r \<noteq> None" for r
    using sidebar_lines_total [OF sizes, of CHOICES] by (auto simp: draw_sidebar_def Let_def)
  have tab: "draw_table ue ap t r \<noteq> None" and det: "draw_detail ue home ap t r \<noteq> None" for r
    using draw_table_total [OF ok] draw_detail_total [OF ok] by (auto simp: option.split_sel)
  have body: "\<exists>f. draw_body ue home ap t b = Some f"
    unfolding draw_body_def Let_def
    using split_vertical(4) [OF ok, of "C_Length (if 84 \<le> rc_width b then 22 else 0)" "C_Min 40"
        "C_Length (if 124 \<le> rc_width b then 38 else 0)" b] side tab det
    by (elim exE, simp only: list.case) (rule all_of_total, auto)
  show ?thesis
    using header body by (auto simp: draw_def theme v [simplified] Let_def intro!: all_of_total)
qed


section \<open>Columns and cells\<close>

definition one_cell :: "string \<Rightarrow> bool" where
  "one_cell s \<longleftrightarrow> at_char s \<and> text_width s = 1"

lemma concat_cells: "list_all one_cell cs \<Longrightarrow> at_char (concat cs) \<and> text_width (concat cs) = length cs"
proof (induction cs)
  case (Cons c cs)
  then show ?case by (auto simp: one_cell_def at_char_append text_width_append)
qed (simp add: at_char_def text_width_def)

lemma utf8_cell: "b \<in> {0x80..<0xC0} \<Longrightarrow> one_cell (utf8 [0xE2, 0x96, b])"
  by (auto simp: one_cell_def at_char_def text_width_def utf8_def is_cont_def)

lemma bar_cell: "one_cell (BARS ! bar peak v)"
proof -
  have "min (div_ceil (v * 7) peak) 7 \<le> 7" by simp
  then have "bar peak v \<le> 7" unfolding bar_def word_le_nat_alt by simp
  then have "bar peak v < length BARS" by (simp add: BARS_def)
  then have "BARS ! bar peak v \<in> set BARS" by (rule nth_mem)
  moreover have "\<forall>s \<in> set BARS. one_cell s" unfolding BARS_def by (auto intro!: utf8_cell)
  ultimately show ?thesis by blast
qed

lemma spark_width: "text_width (spark values width) = width"
proof -
  let ?shown = "newest_of width values"
  have "list_all one_cell (map (\<lambda>v. BARS ! bar (max (fold max ?shown 0) 1) v) ?shown)"
    by (auto simp: list_all_iff bar_cell)
  from concat_cells [OF this] show ?thesis
    by (simp add: spark_def Let_def text_width_append newest_of_def)
qed

lemma gauge_width: "text_width (gauge part whole width) = width"
proof -
  have cells: "at_char (concat (replicate n (utf8 [0xE2, 0x96, b]))) \<and> text_width (concat (replicate n (utf8 [0xE2, 0x96, b]))) = n"
    if "b \<in> {0x80..<0xC0}" for n b
    using concat_cells [of "replicate n (utf8 [0xE2, 0x96, b])"] utf8_cell [OF that] by (simp add: list_all_iff)
  have "gauge_filled part whole width \<le> width" by (simp add: gauge_filled_def Let_def)
  with cells [of "0xB0"] cells [of "0xB1"] show ?thesis
    by (simp add: gauge_def Let_def text_width_append)
qed

text \<open>Anything above zero stands clear of the baseline, as long as seven times it fits.\<close>

lemma div_ceil_pos:
  assumes "a \<noteq> 0" "b \<noteq> 0"
  shows "div_ceil a b \<noteq> 0"
proof (cases "a mod b = 0")
  case True
  then show ?thesis using assms div_mult_mod_eq [of a b] by (auto simp: div_ceil_def)
next
  case False
  then have "unat b \<noteq> 1" by (metis mod_by_1 unat_eq_zero unat_mod unsigned_1 unsigned_0)
  moreover have "unat b \<noteq> 0" using assms(2) by (simp add: unat_eq_zero)
  ultimately have "2 \<le> unat b" by linarith
  have "unat a div unat b \<le> unat a div 2" by (rule div_le_mono2) (use \<open>2 \<le> unat b\<close> in simp_all)
  moreover have "unat a < 2 ^ LENGTH(64)" by (rule unsigned_less)
  ultimately have "unat (a div b) < 2 ^ 63" by (simp add: unat_div)
  moreover have "unat (- 1 :: u64) = 2 ^ 64 - 1" by (simp add: unsigned_minus_1_eq_mask mask_eq_exp_minus_1)
  ultimately have "a div b \<noteq> - 1" by auto
  then have "a div b + 1 \<noteq> 0" by (simp add: eq_neg_iff_add_eq_0 [symmetric])
  then show ?thesis using False by (simp add: div_ceil_def)
qed

lemma bar_zero:
  assumes "uint v * 7 < 2 ^ 64" "peak \<noteq> 0"
  shows "bar peak v = 0 \<longleftrightarrow> v = 0"
proof -
  have "uint (v * 7) = uint v * 7" using assms(1) by (simp add: uint_word_ariths)
  moreover have "uint (v * 7) = 0 \<longleftrightarrow> v * 7 = 0" "uint v = 0 \<longleftrightarrow> v = 0" by (rule uint_0_iff)+
  ultimately have "v * 7 = 0 \<longleftrightarrow> v = 0" by linarith
  moreover have "div_ceil 0 peak = 0" by (simp add: div_ceil_def)
  ultimately have "div_ceil (v * 7) peak = 0 \<longleftrightarrow> v = 0" using div_ceil_pos [of "v * 7" peak] assms(2) by metis
  then show ?thesis by (auto simp: bar_def unat_eq_zero min_def)
qed

lemma row_cells_length: "length (row_cells t ap sh index row) = length (ui_headers ap sh)"
  by (simp add: row_cells_def ui_headers_def Let_def split: prod.split)

lemma all_of_members: "all_of fs = Some fr \<Longrightarrow> p \<in> set fr \<Longrightarrow> \<exists>f. Some f \<in> set fs \<and> p \<in> set f"
  by (induction fs arbitrary: fr rule: all_of.induct) (auto, blast+)

definition no_table :: "frame \<Rightarrow> bool" where
  "no_table f \<longleftrightarrow> (\<forall>(area, w) \<in> set f. case w of U_Table _ _ _ _ _ _ _ \<Rightarrow> False | _ \<Rightarrow> True)"

lemma no_table_simps [simp]:
  "no_table []" "no_table ((area, w) # f) \<longleftrightarrow> (case w of U_Table _ _ _ _ _ _ _ \<Rightarrow> False | _ \<Rightarrow> True) \<and> no_table f"
  "no_table (f @ g) \<longleftrightarrow> no_table f \<and> no_table g"
  by (auto simp: no_table_def)

lemma header_no_table: "draw_header ue ap t area = Some f \<Longrightarrow> no_table f"
  by (auto simp: draw_header_def split: list.splits)

lemma sidebar_no_table: "draw_sidebar ue ap t area = Some f \<Longrightarrow> no_table f"
  by (auto simp: draw_sidebar_def Let_def)

lemma chart_no_table: "draw_chart t live area areas slot ch = Some f \<Longrightarrow> no_table f"
  by (auto simp: draw_chart_def Let_def split: prod.splits option.splits)

lemma selection_no_table: "draw_selection ue home ap t row area = Some f \<Longrightarrow> no_table f"
  by (auto simp: draw_selection_def Let_def chart_no_table split: option.splits if_splits)

lemma detail_no_table: "draw_detail ue home ap t area = Some f \<Longrightarrow> no_table f"
  by (auto simp: draw_detail_def selection_no_table split: list.splits option.splits)

lemma filter_no_table: "no_table (draw_filter ap t area)"
  by (simp add: draw_filter_def Let_def)

lemma status_no_table: "no_table (draw_status ue ap t area)"
  by (simp add: draw_status_def Let_def)

lemma no_tableD: "no_table f \<Longrightarrow> (area, U_Table rs ws hs a b c d) \<notin> set f"
  by (force simp: no_table_def)


section \<open>The frame after a tick\<close>

lemma app_tick_sizes:
  assumes "app_ok ap" "app_tick ve fi ap = Some ap'"
  shows "length (ap_group_sizes ap') = 4"
proof -
  have "length (group_sizes ve ids mss) = 4" for ids mss by (simp add: group_sizes_alt)
  then show ?thesis by (metis app_tick_rows [OF assms])
qed

definition table_fits :: "app \<Rightarrow> widget \<Rightarrow> bool" where
  "table_fits ap w =
     (case w of
        U_Table rows widths headers _ _ _ cursor \<Rightarrow>
          length rows = length (ap_rows ap) \<and> length headers = length widths \<and>
          list_all (\<lambda>row. length row = length widths) rows \<and>
          (case cursor of None \<Rightarrow> False | Some i \<Rightarrow> i < length rows)
      | _ \<Rightarrow> True)"

lemma no_table_fits: "no_table f \<Longrightarrow> (area, w) \<in> set f \<Longrightarrow> table_fits ap w"
  by (force simp: no_table_def table_fits_def split: widget.splits)

lemma draw_table_fits:
  assumes "draw_table ue ap t area = Some f" "(r, w) \<in> set f"
    and "ap_rows ap \<noteq> [] \<Longrightarrow> \<exists>i < length (ap_rows ap). ap_table ap = Some i"
  shows "table_fits ap w"
proof (cases "ap_rows ap = []")
  case True
  then show ?thesis using assms(1,2) by (auto simp: draw_table_def Let_def table_fits_def split: list.splits)
next
  case False
  with assms show ?thesis
    by (auto simp: draw_table_def Let_def table_fits_def list_all_iff row_cells_length)
qed

lemma three_areas:
  "(case xs of [a, b, c] \<Rightarrow> F a b c | _ \<Rightarrow> None) = Some f \<Longrightarrow> \<exists>a b c. F a b c = Some f"
  by (auto split: list.splits)

lemma draw_fits:
  assumes "draw ue home screen ap = Some fr" "(area, w) \<in> set fr"
    and cursor: "ap_rows ap \<noteq> [] \<Longrightarrow> \<exists>i < length (ap_rows ap). ap_table ap = Some i"
  shows "table_fits ap w"
proof -
  have body: "table_fits ap w" if "draw_body ue home ap t b = Some f" "(area, w) \<in> set f" for t b f
  proof -
    note drawn = that
    obtain side middle right where
      "all_of [if 0 < rc_width side then draw_sidebar ue ap t side else Some [], draw_table ue ap t middle,
        if 0 < rc_width right then draw_detail ue home ap t right else Some []] = Some f"
      using three_areas [OF drawn(1) [unfolded draw_body_def Let_def]] by blast
    from all_of_members [OF this drawn(2)] show ?thesis
      by (auto split: if_splits intro: draw_table_fits [OF sym _ cursor]
          no_table_fits [OF sidebar_no_table [OF sym]] no_table_fits [OF detail_no_table [OF sym]])
  qed
  obtain t bg a b c d where fr: "all_of [Some bg, draw_header ue ap t a, draw_body ue home ap t b,
      Some (draw_filter ap t c), Some (draw_status ue ap t d)] = Some fr" "no_table bg"
    using assms(1) by (auto simp: draw_def Let_def split: option.splits list.splits if_splits)
  from all_of_members [OF fr(1) assms(2)] show ?thesis
    using fr(2)
    by (auto intro: body [OF sym] no_table_fits no_table_fits [OF header_no_table [OF sym]]
        no_table_fits [OF filter_no_table] no_table_fits [OF status_no_table])
qed

text \<open>C12. Every frame is drawn: after any tick of a view that keeps its invariant, whatever the size of the
  screen, drawing finds every area, label and count it looks up; the table on it has one row for each row
  of the view, as many cells in each as there are headers and widths, and its cursor is on one of them; and
  the trend or share of a row is exactly as wide as its column.\<close>

theorem every_frame_is_drawn:
  assumes "app_ok ap" and "app_tick ve fi ap = Some ap'" and "layout_ok ue"
  shows "\<exists>fr. draw ue home screen ap' = Some fr \<and> (\<forall>(area, w) \<in> set fr. table_fits ap' w) \<and>
    (\<forall>row \<in> set (ap_rows ap'). text_width (row_last ap' row) = TREND_WIDTH)"
proof -
  have ok: "app_ok ap'" by (rule app_tick_keeps [OF assms(1,2)])
  then obtain t where t: "app_theme ap' = Some t" by (auto simp: app_ok_def app_theme_def nth_opt_in)
  obtain fr where fr: "draw ue home screen ap' = Some fr"
    using draw_total [OF assms(3) app_tick_sizes [OF assms(1,2)] t] by blast
  have cursor: "\<exists>i < length (ap_rows ap'). ap_table ap' = Some i" if "ap_rows ap' \<noteq> []"
  proof -
    have "\<exists>i. ap_table ap' = Some i" by (rule app_tick_rows [OF assms(1,2)]) (use that in simp)
    with ok show ?thesis by (auto simp: app_ok_def cursor_ok_def)
  qed
  have "table_fits ap' w" if "(area, w) \<in> set fr" for area w
    by (rule draw_fits [OF fr that cursor])
  moreover have "text_width (row_last ap' row) = TREND_WIDTH" for row
    by (simp add: row_last_def spark_width gauge_width)
  ultimately show ?thesis using fr by blast
qed

text \<open>A layout to try it with: every pane gets the whole area.\<close>

definition stacked :: ui_env where
  "stacked = \<lparr>ue_vertical = (\<lambda>cs r. map (\<lambda>_. r) cs), ue_horizontal = (\<lambda>cs r. map (\<lambda>_. r) cs),
     ue_inner = (\<lambda>r. r), ue_width = (\<lambda>l. sum_list (map (text_width \<circ> snd) (ln_spans l)))\<rparr>"

lemma every_frame_is_drawn_witness:
  "\<exists>ap' fr. app_tick quiet_view \<lparr>fi_feed = [V_Chunk (chunk_rows [one_counter 1 5] [one_identity 1 ''curl'']) 1000],
       fi_instant = 0, fi_now = 0, fi_later = 0\<rparr> quiet_app = Some ap' \<and>
     draw stacked None \<lparr>rc_x = 0, rc_y = 0, rc_width = 150, rc_height = 36\<rparr> ap' = Some fr"
proof -
  let ?fi = "\<lparr>fi_feed = [V_Chunk (chunk_rows [one_counter 1 5] [one_identity 1 ''curl'']) 1000],
    fi_instant = 0, fi_now = 0, fi_later = 0\<rparr>"
  obtain ap' where tick: "app_tick quiet_view ?fi quiet_app = Some ap'"
    using app_tick_total [OF quiet_app_ok] by blast
  have "layout_ok stacked" by (simp add: layout_ok_def stacked_def)
  from every_frame_is_drawn [OF quiet_app_ok tick this] tick show ?thesis by blast
qed


section \<open>The module's test of bars and gauges\<close>

definition bars :: "nat list \<Rightarrow> string" where
  "bars ns = concat (map (\<lambda>n. BARS ! n) ns)"

definition tenths :: "nat \<Rightarrow> nat \<Rightarrow> string" where
  "tenths full rest = concat (replicate full (utf8 [0xE2, 0x96, 0xB0])) @ concat (replicate rest (utf8 [0xE2, 0x96, 0xB1]))"

definition sparklines_and_gauges_scale :: bool where
  "sparklines_and_gauges_scale \<longleftrightarrow>
     spark [0, 1, 4, 8] 6 = ''  '' @ bars [0, 1, 4, 7] \<and> spark [1, 2, 3, 4, 8] 2 = bars [4, 7] \<and> spark [] 3 = ''   ''
     \<and> gauge 1 2 4 = tenths 2 2 \<and> gauge 95 100 16 = tenths 15 1 \<and> gauge 1 1000 4 = tenths 1 3 \<and> gauge 0 0 3 = tenths 0 3"

lemma spark_examples: "spark [0, 1, 4, 8] 6 = ''  '' @ bars [0, 1, 4, 7]" "spark [1, 2, 3, 4, 8] 2 = bars [4, 7]" "spark [] 3 = ''   ''"
  by code_simp+

lemma gauge_quotients:
  "f64_quot 4 2 = (2 ^ 53, 52)" "f64_quot 1520 100 = (8556839292003942, 49)" "f64_quot 4 1000 = (4611686018427388, 60)" "f64_quot 0 (Suc 0) = (0, 54)"
  by (simp_all add: f64_quot_def bit_len_numeral bit_len_small round_half_even_def Let_def)

lemma gauge_wholes: "max 2 (1 :: u64) = 2" "max 100 (1 :: u64) = 100" "max 1000 (1 :: u64) = 1000" "max 0 (1 :: u64) = 1"
  by code_simp+

lemma gauge_examples: "gauge_filled 1 2 4 = 2" "gauge_filled 95 100 16 = 15" "gauge_filled 1 1000 4 = 1" "gauge_filled 0 0 3 = 0"
  by (simp_all add: gauge_filled_def f64_of_small gauge_wholes gauge_quotients f64_round_def)

lemma sparklines_and_gauges_scale: "sparklines_and_gauges_scale"
  by (simp add: sparklines_and_gauges_scale_def spark_examples gauge_def gauge_examples tenths_def)

end
