(* ===== verification/Enrich_Tests.thy ===== *)
theory Enrich_Tests
  imports Enrich
begin

text \<open>The unit tests of the enrichment (\<open>procflowd/src/enrich.rs\<close>) over the model.\<close>

lemma normalization_masks_volatile_tokens:
  "normalize_cmdline ''npm run dev --port 3000'' = normalize_cmdline ''npm run dev --port 3001''"
  "normalize_cmdline ''npm run dev'' \<noteq> normalize_cmdline ''npm run build''"
  "normalize_cmdline ''--config=/etc/app.conf'' = ''--config=<v>''"
  "normalize_cmdline ''worker 550e8400-e29b-41d4-a716-446655440000'' = ''worker <uuid>''"
  "normalize_cmdline ''cat /tmp/build-123/log'' = ''cat <path>''"
  "normalize_cmdline ''sleep 3.5'' = ''sleep <n>''"
  "normalize_cmdline ''python3 serve.py'' = ''python3 serve.py''"
  by code_simp+

text \<open>The directories of the test: the marker of the repository exists, and then it does not.\<close>

definition project_root_walk :: bool where
  "project_root_walk \<longleftrightarrow>
     (let base = path_of ''/tmp/procflow-enrich-test''; nested = path_of ''/tmp/procflow-enrich-test/repo/sub/dir'';
          repo = path_join base ''repo''; marker = path_str (path_join repo ''Cargo.toml'')
      in find_project_root (\<lambda>p. p = marker) nested = Some repo \<and> find_project_root (\<lambda>_. False) nested = None)"

lemma project_root_walk: project_root_walk
  by code_simp

definition unresolved_identity_keys_by_uid_cgroup_comm :: bool where
  "unresolved_identity_keys_by_uid_cgroup_comm \<longleftrightarrow>
     (let r = from_pid_meta \<lparr>fs_exists = (\<lambda>_. False), fs_passwd = None\<rparr>
                \<lparr>pm_cgroup_id = 42, pm_uid = 1000,
                 pm_comm = map (\<lambda>c. of_char c) ''curl'' @ replicate 12 0, pm_pad = [0, 0, 0, 0]\<rparr>
      in ir_exe r = UNRESOLVED \<and> ir_unit r = ''cgroup-id:42'' \<and> ir_cmdline r = ''<unresolved:curl>''
         \<and> ir_comm r = ''curl'')"

lemma unresolved_identity_keys_by_uid_cgroup_comm: unresolved_identity_keys_by_uid_cgroup_comm
  by code_simp

end
