(* ===== verification/Fixtures.thy ===== *)
theory Fixtures
  imports Gregorian Query "HOL-Library.Monad_Syntax"
begin

text \<open>
  What the unit tests of the daemon's database (\<open>procflowd/src/rollup.rs\<close>, \<open>store.rs\<close>, \<open>query.rs\<close>) share:
  stores in memory on the Gregorian calendar, and the calls the tests make. An \<open>unwrap\<close> that would panic
  makes a test \<open>None\<close>.
\<close>

section \<open>Stores\<close>

text \<open>\<open>utc\<close> of \<open>lib.rs\<close>: the seconds of a time written like \<open>2026-07-06 10:05\<close>.\<close>

definition decimal :: "string \<Rightarrow> int" where
  "decimal s = fold (\<lambda>c n. 10 * n + (of_char c - 48)) s 0"

definition utc_epoch :: "string \<Rightarrow> i64" where
  "utc_epoch s =
     (month_start (12 * decimal (take 4 s) + decimal (take 2 (drop 5 s)) - 1) + decimal (take 2 (drop 8 s)) - 1) * 86400
       + decimal (take 2 (drop 11 s)) * 3600 + decimal (drop 14 s) * 60"

definition unwrap :: "('e + 'a) \<times> store \<Rightarrow> ('a \<times> store) option" where
  "unwrap r = (case r of (Inl _, _) \<Rightarrow> None | (Inr x, st) \<Rightarrow> Some (x, st))"

definition in_memory :: "int \<Rightarrow> store option" where
  "in_memory offset_minutes =
     (case open_in_memory False False False of
        Inl _ \<Rightarrow> None
      | Inr st \<Rightarrow> Some (st\<lparr>st_zone := Fixed (offset_minutes * 60)\<rparr>))"

definition store_in :: "int \<Rightarrow> (store \<times> i64) option" where
  "store_in offset_minutes = do {
     st \<leftarrow> in_memory offset_minutes;
     (n, st) \<leftarrow> unwrap (upsert_identity False 0 fully_unresolved st);
     Some (st, n)
   }"

fun record_all :: "(string \<times> i64 \<times> string \<times> u64 \<times> u64) list \<Rightarrow> store \<Rightarrow> store option" where
  "record_all [] st = Some st"
| "record_all ((at, n, sc, ing, eg) # ms) st = do {
     (_, st) \<leftarrow> unwrap (record_minute False (utc_epoch at) n sc ing eg st);
     record_all ms st
   }"

definition roll_at :: "string \<Rightarrow> store \<Rightarrow> store option" where
  "roll_at at st = do {
     r \<leftarrow> rollup gregorian no_faults (utc_epoch at) st;
     (_, st) \<leftarrow> unwrap r;
     Some st
   }"

text \<open>The rows of a tier: bucket, bytes in, bytes out.\<close>

definition tier_rows :: "store \<Rightarrow> tier \<Rightarrow> (i64 \<times> u64 \<times> u64) list" where
  "tier_rows st t =
     map (\<lambda>(k, c). (fk_bucket k, ingress c, egress c)) (sort_key (\<lambda>(k, _). fk_bucket k) (tier_table t (st_db st)))"


section \<open>Queries\<close>

definition plain_query :: query_env where
  "plain_query = \<lparr>qe_lower = map ascii_lower, qe_wm_fails = (\<lambda>_. False), qe_ids_fail = False, qe_rows_fail = False\<rparr>"

definition seed_identity :: "u32 \<Rightarrow> string \<Rightarrow> string \<Rightarrow> store \<Rightarrow> (i64 \<times> store) option" where
  "seed_identity uid comm project st =
     unwrap (upsert_identity False 0
       \<lparr>ir_uid = uid, ir_unit = ''/user.slice'', ir_exe = ''/usr/bin/'' @ comm, ir_project = project,
        ir_cmdline = comm, ir_comm = comm, ir_raw_cmdline = comm,
        ir_username = (if uid = 1000 then Some ''eve'' else None)\<rparr> st)"

text \<open>Node and curl for uid 1000 (two projects), sshd for uid 0.\<close>

definition seeded :: "(store \<times> i64 \<times> i64 \<times> i64) option" where
  "seeded = do {
     st \<leftarrow> in_memory 0;
     (node, st) \<leftarrow> seed_identity 1000 ''node'' ''/home/eve/web'' st;
     (curl, st) \<leftarrow> seed_identity 1000 ''curl'' ''/home/eve/api'' st;
     (sshd, st) \<leftarrow> seed_identity 0 ''sshd'' ''<none>'' st;
     st \<leftarrow> record_all
       [(''2026-07-06 10:05'', node, ''external'', 100, 10), (''2026-07-06 10:05'', node, ''loopback'', 900, 900),
        (''2026-07-06 11:10'', node, ''external'', 50, 5), (''2026-07-06 11:10'', curl, ''external'', 400, 1),
        (''2026-07-06 11:10'', sshd, ''external'', 7000, 7000)] st;
     Some (st, node, curl, sshd)
   }"

definition window :: "string \<Rightarrow> string \<Rightarrow> time_range option" where
  "window from to = Some \<lparr>from_unix_ms = utc_epoch from * 1000, to_unix_ms = utc_epoch to * 1000\<rparr>"

definition today :: "time_range option" where
  "today = window ''2026-07-06 00:00'' ''2026-07-07 00:00''"

definition totals :: "rows \<Rightarrow> (string \<times> u64 \<times> u64) list" where
  "totals r =
     map (\<lambda>c. (if cr_identity_id c \<noteq> 0 then dec_int (cr_identity_id c) else cr_group_key c, cr_ingress c, cr_egress c))
       (r_counters r)"

text \<open>\<open>unwrap\<close> of a query.\<close>

definition answered :: "query_error + 'a \<Rightarrow> 'a option" where
  "answered r = (case r of Inl _ \<Rightarrow> None | Inr x \<Rightarrow> Some x)"

text \<open>\<open>Default::default()\<close> of the request messages, with the range the tests ask for.\<close>

definition test_top :: "time_range option \<Rightarrow> top_identities" where
  "test_top r = \<lparr>ti_range = r, ti_tier = Tier_Unspecified, ti_scope = Scope_Unspecified,
     ti_group_by = Group_Unspecified, ti_limit = 0, ti_direction = Direction_Unspecified,
     ti_project = [], ti_exe = [], ti_user = []\<rparr>"

definition test_series :: "i64 \<Rightarrow> time_range option \<Rightarrow> series_req" where
  "test_series n r = \<lparr>sr_identity_id = n, sr_tier = Tier_Unspecified, sr_range = r, sr_scope = Scope_Unspecified\<rparr>"

definition test_list :: list_identities where
  "test_list = \<lparr>li_filter = [], li_project = [], li_exe = [], li_user = []\<rparr>"

definition top_at :: "store \<Rightarrow> visibility \<Rightarrow> top_identities \<Rightarrow> string \<Rightarrow> rows option" where
  "top_at st vis q now = answered (q_top plain_query vis q (utc_epoch now) st)"

definition comms :: "rows \<Rightarrow> string list" where
  "comms r = map id_comm (r_identities r)"

definition is_not_found :: "query_error + 'a \<Rightarrow> bool" where
  "is_not_found r = (case r of Inl (E_NotFound _) \<Rightarrow> True | _ \<Rightarrow> False)"

definition is_bad_request :: "query_error + 'a \<Rightarrow> bool" where
  "is_bad_request r = (case r of Inl (E_BadRequest _) \<Rightarrow> True | _ \<Rightarrow> False)"

end
