(* ===== verification/Store_Tests.thy ===== *)
theory Store_Tests
  imports Fixtures
begin

text \<open>
  The unit tests of the rollup and the store (\<open>procflowd/src/rollup.rs\<close>, \<open>store.rs\<close>) over the model: the
  definitions compute what the code is tested to compute.
\<close>

section \<open>Rollup\<close>

definition calendar_bounds_follow_the_zone :: bool where
  "calendar_bounds_follow_the_zone \<longleftrightarrow>
     (let india = zone_bounds gregorian (Fixed (330 * 60)); t = utc_epoch ''2026-07-06 20:00''
      in india Tier_Day t = Some (utc_epoch ''2026-07-06 18:30'', utc_epoch ''2026-07-07 18:30'')
         \<and> india Tier_Month t = Some (utc_epoch ''2026-06-30 18:30'', utc_epoch ''2026-07-31 18:30'')
         \<and> india Tier_Hour (t + 61) = Some (t, t + 3600)
         \<and> india Tier_Minute (t + 61) = Some (t + 60, t + 120))"

lemma calendar_bounds_follow_the_zone: calendar_bounds_follow_the_zone
  by code_simp

definition three_minutes :: "store option" where
  "three_minutes = do {
     (st, n) \<leftarrow> store_in 0;
     record_all [(''2026-07-06 10:05'', n, ''external'', 100, 10), (''2026-07-06 10:55'', n, ''external'', 50, 5),
                 (''2026-07-06 11:10'', n, ''external'', 7, 1)] st
   }"

definition rollup_moves_only_closed_buckets :: "bool option" where
  "rollup_moves_only_closed_buckets = do {
     st \<leftarrow> three_minutes;
     st \<leftarrow> roll_at ''2026-07-06 11:30'' st;
     st \<leftarrow> roll_at ''2026-07-06 11:30'' st;
     Some (tier_rows st Tier_Hour = [(utc_epoch ''2026-07-06 10:00'', 150, 15)]
       \<and> watermark False Tier_Hour st = Inr (Some (utc_epoch ''2026-07-06 11:00''))
       \<and> tier_rows st Tier_Day = [])
   }"

lemma rollup_moves_only_closed_buckets: "rollup_moves_only_closed_buckets = Some True"
  by code_simp

text \<open>
  The second half of the same test: days and months later everything has closed. The repeated job at 11:30
  changes nothing and is left out.
\<close>

definition everything_closes_later :: "bool option" where
  "everything_closes_later = do {
     st \<leftarrow> three_minutes;
     st \<leftarrow> roll_at ''2026-07-06 11:30'' st;
     st \<leftarrow> roll_at ''2026-07-08 00:10'' st;
     st' \<leftarrow> roll_at ''2026-08-01 00:10'' st;
     Some (tier_rows st Tier_Hour
             = [(utc_epoch ''2026-07-06 10:00'', 150, 15), (utc_epoch ''2026-07-06 11:00'', 7, 1)]
       \<and> tier_rows st Tier_Day = [(utc_epoch ''2026-07-06 00:00'', 157, 16)]
       \<and> tier_rows st Tier_Month = []
       \<and> tier_rows st' Tier_Month = [(utc_epoch ''2026-07-01 00:00'', 157, 16)])
   }"

lemma everything_closes_later: "everything_closes_later = Some True"
  by code_simp

definition a_bucket_inside_the_grace_period_waits :: "bool option" where
  "a_bucket_inside_the_grace_period_waits = do {
     (st, n) \<leftarrow> store_in 0;
     st \<leftarrow> record_all [(''2026-07-06 10:59'', n, ''external'', 1, 1)] st;
     st1 \<leftarrow> roll_at ''2026-07-06 11:01'' st;
     st2 \<leftarrow> roll_at ''2026-07-06 11:02'' st1;
     Some (tier_rows st1 Tier_Hour = [] \<and> length (tier_rows st2 Tier_Hour) = 1)
   }"

lemma a_bucket_inside_the_grace_period_waits: "a_bucket_inside_the_grace_period_waits = Some True"
  by code_simp

definition day_buckets_split_at_local_midnight :: "bool option" where
  "day_buckets_split_at_local_midnight = do {
     (st, n) \<leftarrow> store_in 330;
     st \<leftarrow> record_all [(''2026-07-06 18:29'', n, ''external'', 1, 0), (''2026-07-06 18:30'', n, ''external'', 2, 0)] st;
     st \<leftarrow> roll_at ''2026-07-08 00:00'' st;
     Some (tier_rows st Tier_Day
             = [(utc_epoch ''2026-07-05 18:30'', 1, 0), (utc_epoch ''2026-07-06 18:30'', 2, 0)])
   }"

lemma day_buckets_split_at_local_midnight: "day_buckets_split_at_local_midnight = Some True"
  by code_simp

definition prune_respects_retention_and_watermarks :: "bool option" where
  "prune_respects_retention_and_watermarks = do {
     (st, n) \<leftarrow> store_in 0;
     st \<leftarrow> record_all [(''2026-07-06 10:05'', n, ''external'', 100, 10), (''2026-07-06 11:10'', n, ''external'', 7, 1)]
            (st\<lparr>st_retention := \<lparr>minute_s = 3600, hour_s = 7200, day_s = 86400\<rparr>\<rparr>);
     st1 \<leftarrow> roll_at ''2026-07-06 13:00'' st;
     st2 \<leftarrow> roll_at ''2026-07-07 00:10'' st1;
     Some (length (tier_rows st1 Tier_Minute) = 2
       \<and> tier_rows st2 Tier_Minute = [] \<and> tier_rows st2 Tier_Hour = []
       \<and> tier_rows st2 Tier_Day = [(utc_epoch ''2026-07-06 00:00'', 107, 11)])
   }"

lemma prune_respects_retention_and_watermarks: "prune_respects_retention_and_watermarks = Some True"
  by code_simp


section \<open>Identities and counters\<close>

definition test_record :: identity_record where
  "test_record =
     \<lparr>ir_uid = 1000, ir_unit = ''/user.slice/app.slice/dev.scope'', ir_exe = ''/usr/bin/node'',
      ir_project = ''/home/x/proj'', ir_cmdline = ''npm run dev --port <n>'', ir_comm = ''node'',
      ir_raw_cmdline = ''npm run dev --port 3000'', ir_username = Some ''x''\<rparr>"

definition identity_upsert_returns_stable_id :: "bool option" where
  "identity_upsert_returns_stable_id = do {
     st \<leftarrow> in_memory 0;
     (id1, st) \<leftarrow> unwrap (upsert_identity False 0 test_record st);
     (id2, st) \<leftarrow> unwrap (upsert_identity False 0 (test_record\<lparr>ir_raw_cmdline := ''npm run dev --port 3001''\<rparr>) st);
     row \<leftarrow> find (\<lambda>w. row_id w = id1) (db_identity (st_db st));
     (id3, _) \<leftarrow> unwrap (upsert_identity False 0
                 (test_record\<lparr>ir_raw_cmdline := ''npm run dev --port 3001'', ir_cmdline := ''npm run build''\<rparr>) st);
     Some (id1 = id2 \<and> ir_raw_cmdline (row_rec row) = ''npm run dev --port 3001'' \<and> id3 \<noteq> id1)
   }"

lemma identity_upsert_returns_stable_id: "identity_upsert_returns_stable_id = Some True"
  by code_simp

definition record_minute_accumulates :: "bool option" where
  "record_minute_accumulates = do {
     (st, n) \<leftarrow> store_in 0;
     let bucket = 1782000000 div 60 * 60;
     (_, st) \<leftarrow> unwrap (record_minute False bucket n ''external'' 100 50 st);
     (_, st) \<leftarrow> unwrap (record_minute False bucket n ''external'' 20 5 st);
     c \<leftarrow> map_of (tier_table Tier_Minute (st_db st)) (bucket, n, ''external'');
     Some ((ingress c, egress c) = (120, 55))
   }"

lemma record_minute_accumulates: "record_minute_accumulates = Some True"
  by code_simp

end
