(* ===== verification/Query_Tests.thy ===== *)
theory Query_Tests
  imports Fixtures
begin

text \<open>
  The unit tests of the queries (\<open>procflowd/src/query.rs\<close>) over the model: who sees what, how filters, groups
  and limits act, and which tier answers.
\<close>

section \<open>Ranking and visibility\<close>

definition top_ranks_external_traffic :: "bool option" where
  "top_ranks_external_traffic = do {
     (st, node, curl, sshd) \<leftarrow> seeded;
     r \<leftarrow> top_at st Vis_All (test_top today) ''2026-07-06 11:30'';
     r' \<leftarrow> top_at st Vis_All ((test_top today)\<lparr>ti_direction := Direction_Egress, ti_limit := 2\<rparr>) ''2026-07-06 11:30'';
     Some (totals r = [(dec_int sshd, 7000, 7000), (dec_int curl, 400, 1), (dec_int node, 150, 15)]
       \<and> r_tier r = Tier_Minute
       \<and> sort (comms r) = [''curl'', ''node'', ''sshd'']
       \<and> totals r' = [(dec_int sshd, 7000, 7000), (dec_int node, 150, 15)])
   }"

lemma top_ranks_external_traffic: "top_ranks_external_traffic = Some True"
  by code_simp

text \<open>The missing identity the test asks for is 9999; any unused id is alike.\<close>

definition a_non_root_caller_sees_only_their_own :: "bool option" where
  "a_non_root_caller_sees_only_their_own = do {
     (st, node, curl, sshd) \<leftarrow> seeded;
     let eve = Vis_Uid 1000;
     r \<leftarrow> top_at st eve (test_top today) ''2026-07-06 11:30'';
     mine \<leftarrow> answered (q_list_identities plain_query eve test_list st);
     everyone \<leftarrow> answered (q_list_identities plain_query Vis_All test_list st);
     own \<leftarrow> answered (q_resolve plain_query eve node st);
     Some (totals r = [(dec_int curl, 400, 1), (dec_int node, 150, 15)]
       \<and> list_all (\<lambda>i. id_uid i = 1000) (r_identities r)
       \<and> length (r_identities mine) = 2 \<and> length (r_identities everyone) = 3
       \<and> is_not_found (q_resolve plain_query eve sshd st)
       \<and> is_not_found (q_resolve plain_query eve 99 st)
       \<and> is_not_found (q_series gregorian plain_query eve (test_series sshd today) (utc_epoch ''2026-07-06 11:30'') st)
       \<and> id_comm own = ''node''
       \<and> for_peer 0 = Vis_All \<and> for_peer 1000 = eve)
   }"

lemma a_non_root_caller_sees_only_their_own: "a_non_root_caller_sees_only_their_own = Some True"
  by code_simp

definition by_loopback :: top_identities where
  "by_loopback = (test_top today)\<lparr>ti_scope := Scope_Loopback\<rparr>"
definition by_all_of_web :: top_identities where
  "by_all_of_web = (test_top today)\<lparr>ti_scope := Scope_All, ti_project := ''web''\<rparr>"
definition by_user :: top_identities where
  "by_user = (test_top today)\<lparr>ti_group_by := Group_User\<rparr>"
definition by_project_of_eve :: top_identities where
  "by_project_of_eve = (test_top today)\<lparr>ti_group_by := Group_Project, ti_user := ''eve''\<rparr>"

definition totals_at :: "top_identities \<Rightarrow> (string \<times> u64 \<times> u64) list option" where
  "totals_at q = do {
     (st, _) \<leftarrow> seeded;
     r \<leftarrow> top_at st Vis_All q ''2026-07-06 11:30'';
     Some (totals r)
   }"

text \<open>Node is the first identity stored.\<close>

lemma scope_filters:
  "totals_at by_loopback = Some [(dec_int 1, 900, 900)]"
  "totals_at by_all_of_web = Some [(dec_int 1, 900, 900), (dec_int 1, 150, 15)]"
  by code_simp+

lemma group_filters:
  "totals_at by_user = Some [(''0'', 7000, 7000), (''eve'', 550, 16)]"
  "totals_at by_project_of_eve = Some [(''/home/eve/api'', 400, 1), (''/home/eve/web'', 150, 15)]"
  by code_simp+

definition list_filters :: "bool option" where
  "list_filters = do {
     (st, _) \<leftarrow> seeded;
     by_text \<leftarrow> answered (q_list_identities plain_query Vis_All (test_list\<lparr>li_filter := ''CURL''\<rparr>) st);
     by_exe \<leftarrow> answered (q_list_identities plain_query Vis_All (test_list\<lparr>li_exe := ''bin/ssh''\<rparr>) st);
     Some (comms by_text = [''curl''] \<and> comms by_exe = [''sshd''])
   }"

lemma list_filters: "list_filters = Some True"
  by code_simp


section \<open>Tiers and ranges\<close>

definition series_points :: "store \<Rightarrow> i64 \<Rightarrow> tier \<Rightarrow> string \<Rightarrow> (i64 \<times> u64) list option" where
  "series_points st n t now = do {
     r \<leftarrow> answered (q_series gregorian plain_query Vis_All
            ((test_series n (window ''2026-07-01 00:00'' ''2026-08-01 00:00''))\<lparr>sr_tier := t\<rparr>) (utc_epoch now) st);
     Some (map (\<lambda>c. (cr_bucket_ms c div 1000, cr_ingress c)) (r_counters r))
   }"

definition coarse_tiers_include_unrolled_buckets :: "bool option" where
  "coarse_tiers_include_unrolled_buckets = do {
     (st, node, _) \<leftarrow> seeded;
     st \<leftarrow> roll_at ''2026-07-06 11:30'' st;
     tops \<leftarrow> those (map (\<lambda>t. top_at st Vis_All ((test_top today)\<lparr>ti_tier := t, ti_user := ''eve'', ti_limit := 1\<rparr>)
                               ''2026-07-06 11:30'') [Tier_Minute, Tier_Hour, Tier_Day, Tier_Month]);
     hours \<leftarrow> series_points st node Tier_Hour ''2026-07-06 11:30'';
     days \<leftarrow> series_points st node Tier_Day ''2026-07-06 11:30'';
     months \<leftarrow> series_points st node Tier_Month ''2026-07-06 11:30'';
     Some (list_all (\<lambda>r. map cr_ingress (r_counters r) = [400]) tops
       \<and> hours = [(utc_epoch ''2026-07-06 10:00'', 100), (utc_epoch ''2026-07-06 11:00'', 50)]
       \<and> days = [(utc_epoch ''2026-07-06 00:00'', 150)]
       \<and> months = [(utc_epoch ''2026-07-01 00:00'', 150)])
   }"

lemma coarse_tiers_include_unrolled_buckets: "coarse_tiers_include_unrolled_buckets = Some True"
  by code_simp

text \<open>Nothing is counted twice once everything has rolled all the way up.\<close>

definition rolled_up_series :: "bool option" where
  "rolled_up_series = do {
     (st, node, _) \<leftarrow> seeded;
     st \<leftarrow> roll_at ''2026-07-06 11:30'' st;
     st \<leftarrow> roll_at ''2026-08-01 00:10'' st;
     months \<leftarrow> series_points st node Tier_Month ''2026-07-06 11:30'';
     days \<leftarrow> series_points st node Tier_Day ''2026-07-06 11:30'';
     Some (months = [(utc_epoch ''2026-07-01 00:00'', 150)] \<and> days = [(utc_epoch ''2026-07-06 00:00'', 150)])
   }"

lemma rolled_up_series: "rolled_up_series = Some True"
  by code_simp

definition series_tier :: "store \<Rightarrow> i64 \<Rightarrow> string \<Rightarrow> tier option" where
  "series_tier st n from =
     map_option r_tier (answered (q_series gregorian plain_query Vis_All
       (test_series n (window from ''2026-07-06 12:00'')) (utc_epoch ''2026-07-06 12:00'') st))"

definition top_tier :: "store \<Rightarrow> string \<Rightarrow> tier option" where
  "top_tier st from =
     map_option r_tier (top_at st Vis_All (test_top (window from ''2026-07-06 12:00'')) ''2026-07-06 12:00'')"

definition auto_tier_follows_the_window :: "bool option" where
  "auto_tier_follows_the_window = do {
     (st, node, _) \<leftarrow> seeded;
     Some (map (series_tier st node) [''2026-07-06 10:00'', ''2026-07-05 12:00'', ''2026-06-06 12:00'', ''2025-07-06 12:00'']
           = map Some [Tier_Minute, Tier_Hour, Tier_Day, Tier_Month]
       \<and> map (top_tier st) [''2026-07-05 12:00'', ''2026-06-06 12:00'', ''2025-07-06 12:00'']
           = map Some [Tier_Minute, Tier_Hour, Tier_Day])
   }"

lemma auto_tier_follows_the_window: "auto_tier_follows_the_window = Some True"
  by code_simp

definition a_missing_or_empty_range_is_a_bad_request :: "bool option" where
  "a_missing_or_empty_range_is_a_bad_request = do {
     (st, _) \<leftarrow> seeded;
     Some (is_bad_request (q_top plain_query Vis_All (test_top None) 0 st)
       \<and> is_bad_request (q_top plain_query Vis_All (test_top (window ''2026-07-06 12:00'' ''2026-07-06 12:00'')) 0 st))
   }"

lemma a_missing_or_empty_range_is_a_bad_request: "a_missing_or_empty_range_is_a_bad_request = Some True"
  by code_simp

end
