(* ===== verification/Spec2Isabelle.thy ===== *)
theory Spec2Isabelle
  imports Kernel Gregorian Enrich Rollup_Props Query_Props Server Collector_Live Daemon Demo Tui_Tests Ui_Props
    Enrich_Tests Store_Tests Query_Tests
begin

text \<open>
  procflow: per-process network traffic accounting.

  \<^bold>\<open>The program.\<close> Six eBPF hooks (\<open>crates/procflow-ebpf\<close>) count payload bytes per process, scope and direction
  in BPF maps. The daemon (\<open>crates/procflowd\<close>) drains the counters once a second, resolves each process to an
  identity, keeps the current minute in memory and flushes closed minutes to a database, where a job rolls
  minutes up to hours, days and months and prunes what is past retention. A server answers queries over a
  Unix socket, each under the visibility of its caller's uid, and streams the deltas of every poll to watchers
  through a hub. The client (\<open>crates/procflow\<close>) is a command line and an interactive view over that socket.

  A byte's path is the order of the theories:

    hook -- \<open>TRAFFIC\<close>, \<open>PID_META\<close>, \<open>NEW_PIDS\<close> -- drain -- accumulator -- minute table -- hour, day, month tables
    -- stitched rows -- response -- rows of the client; and drain -- hub -- \<open>Watch\<close> chunks -- rows of the view.

  \<^bold>\<open>The theories and the code they model.\<close>

    \<^item> \<open>Prelude\<close>: machine integers, the counter pair, association lists as the code's maps, and the interface
      \<open>accumulator\<close> of a map of counters. \<open>Rust_Str\<close>: the string functions of Rust's standard library that the
      program calls, on UTF-8 bytes.
    \<^item> \<open>Abi\<close> (\<open>procflow-common/src/lib.rs\<close>): keys and values of the BPF maps with their bytes.
    \<^item> \<open>Kernel\<close> (\<open>procflow-ebpf/src/main.rs\<close>): \<open>bpf_maps\<close> are the three maps, \<open>fire\<close> runs one hook, \<open>trace\<close> a
      sequence of them. What the kernel decides (probe reads, whether a map is full) is part of an event.
    \<^item> \<open>Protocol\<close> (\<open>procflow-ipc/src/lib.rs\<close>, \<open>procflow.proto\<close>): messages, and frames with a length prefix and
      a limit. The protobuf codec is a parameter; its round trip is the only hypothesis on it.
    \<^item> \<open>Calendar\<close> (\<open>Zone\<close>, \<open>Retention\<close> of \<open>procflowd/src/rollup.rs\<close>): buckets of a tier. The \<open>chrono\<close> crate is a
      parameter; \<open>Gregorian\<close> instantiates it at a fixed offset and proves what the job needs of it.
    \<^item> \<open>Enrich\<close> (\<open>enrich.rs\<close>): \<open>/proc\<close> files to identity records, masked command lines, project roots.
    \<^item> \<open>Store\<close> (\<open>store.rs\<close>, \<open>0001_init.sql\<close>): the tables as association lists with the constraints of the schema;
      every statement takes a flag that says whether the engine fails it, and a failed one changes nothing.
    \<^item> \<open>Rollup\<close>, \<open>Rollup_Props\<close> (\<open>impl Store\<close> of \<open>rollup.rs\<close>): one step of a tier, the loop, the prune, the job.
    \<^item> \<open>Query\<close>, \<open>Query_Props\<close> (\<open>query.rs\<close>): the four verbs, with \<open>WHERE\<close> clauses as datatypes and their meaning.
    \<^item> \<open>Live\<close> (\<open>live.rs\<close>): the hub and its channels. \<open>Server\<close> (\<open>server.rs\<close>): requests, streams, connections, the
      accept loop.
    \<^item> \<open>Collector\<close> (\<open>collector.rs\<close>): \<open>drain\<close> is the thread's state, \<open>tick\<close> one pass, with the hooks that run between
      the read and the removal of a counter. \<open>Collector_Props\<close> and \<open>Collector_Live\<close> hold its safety and its liveness.
      \<open>Collector_Steps\<close> splits the pass into steps of at most one lock, which \<open>phase\<close> tells apart, and proves that
      undisturbed they come to \<open>tick\<close>.
    \<^item> \<open>Daemon\<close> (\<open>procflowd/src/main.rs\<close>): the start, and all threads as one step relation, in which the
      collector moves by the steps of \<open>Collector_Steps\<close>. \<open>Demo\<close>
      (\<open>examples/demo.rs\<close>): the daemon over invented traffic.
    \<^item> \<open>Client\<close> (\<open>client.rs\<close>), \<open>Fmt\<close> (\<open>fmt.rs\<close>), \<open>Theme\<close> (\<open>theme.rs\<close>), \<open>Cli\<close> (\<open>procflow/src/main.rs\<close>): a request over a
      connection, text and tables, colours, the flags and the commands.
    \<^item> \<open>Tui\<close>, \<open>Tui_Props\<close> (\<open>tui.rs\<close>): the state \<open>app\<close> of the view, what a frame's input and a key do to it.
      \<open>Ui\<close>, \<open>Ui_Props\<close> (\<open>ui.rs\<close>): a drawn frame as the list of widgets with their areas.
    \<^item> \<open>Fixtures\<close>, \<open>Enrich_Tests\<close>, \<open>Store_Tests\<close>, \<open>Query_Tests\<close>, \<open>Tui_Tests\<close>: unit tests of the repository, evaluated
      on the definitions. \<open>Fmt\<close>, \<open>Cli\<close>, \<open>Theme\<close> and \<open>Ui_Props\<close> end with those of their modules.

  Definitions have the names of the code where Isabelle allows it; suffixes and prefixes (\<open>q_top\<close>, \<open>p_scope\<close>,
  \<open>ap_rows\<close>) keep apart what Rust keeps in modules and structs.

  \<^bold>\<open>The interfaces.\<close> \<open>accumulator\<close>: adding to a key adds there and nowhere else; provided by the hash map
  (accumulator, grouping) and the ordered map (series). \<open>bucketing\<close>: the buckets of a tier are half-open intervals
  that contain their instants; provided by minute and hour for any zone, by day and month of the Gregorian
  calendar. \<open>refining\<close>: coarse buckets begin and end where fine ones do; provided by minutes in hours and by days in
  months. \<open>uid_scoped\<close>: an answer depends only on what the caller may see; provided by each verb and by the
  server's dispatch of them.

  \<^bold>\<open>What is proved.\<close> The comment before each theorem numbers and states it; together they show that

    \<^item> bytes are neither lost nor invented: a counter has grown by exactly the payload of the accepted calls, when
      the trampoline sign-extends the hooks' \<open>int\<close> into its 64-bit slot (otherwise a failed call counts as nearly
      4 GiB, as \<open>zero_extended_error_counts\<close> shows), the account of maps, accumulator and minute table is constant over any run of passes without a race or a failed
      statement, everything counted is in the minute table after the first pass of a later minute, a minute is
      folded into exactly one cell or the whole statement fails, a bucket rolls up to exactly its minutes, the
      history read in any tier is the same before and after the job, a second job changes nothing, and a
      prune deletes only rows past retention that every coarser tier already has;
    \<^item> nobody sees what is not theirs: answers of the server, the stream and the labels depend only on the
      visible part of the store, and a hidden identity looks like a missing one;
    \<^item> identities are permanent: ids are one to one with natural keys over any sequence of upserts and
      in any reachable state of the daemon, however its threads interleave between two locks; and the daemon
      starts whether or not its kernel part does;
    \<^item> reads mean what they say: \<open>top\<close> is the exact ranking of the visible totals, \<open>series\<close> the bytes
      per bucket, a stream introduces each identity before its first row, once, and carries exactly the visible
      deltas; the client returns what the query selects, or an error; text output is aligned and complete;
    \<^item> the view survives: any sequence of frames and keys keeps its invariant, every frame is drawn, the cursor
      follows its row, and what it shows is a function of the chunks it was sent.

  Where a theorem needs a hypothesis on the state, it is the invariant of the component (\<open>store_ok\<close>, \<open>maps_ok\<close>,
  \<open>drain_ok\<close>, \<open>daemon_ok\<close>, \<open>app_ok\<close>), which the operations are proved to keep, or a condition the witness shows to
  be satisfiable. Bytes can be lost when the kernel counts between a read and its removal, when an upsert
  of an identity fails, and when a flush fails: \<open>Collector_Props\<close> has each of these as a theorem.

  \<^bold>\<open>Termination and bounds.\<close> No definition uses fuel. The loop of the rollup is a \<open>partial_function\<close>, and
  \<open>rollup_terminates\<close> proves that the job returns for every fault; other loops are structural or have a measure. Byte
  counters, uids and request ids are words that wrap or are checked as in the code; times and row ids are
  integers. \<open>seconds * 1_000_000\<close> wraps as in a release build where an identity or a minute is written (\<open>stamp\<close>) and
  in the bounds of a query (\<open>micros\<close>); it is exact for the seconds that are \<open>stampable\<close>, some 292,000 years each way,
  and the theorems about those bound their instants so. The job of \<open>Rollup\<close> keeps its times in seconds: it multiplies
  only what is in that range. Coordinates of the screen are natural numbers; a difference the code does not
  saturate is checked, sums are not (a screen is far smaller than \<open>2 ^ 16\<close>).

  \<^bold>\<open>What is assumed.\<close> A clock after 1970 where the code asks for it (before that the model has the panic); what a
  thread does under one lock is one step, as the mutexes give; iteration of a hash map in the order of first
  insertion, where Rust leaves it open, which ties in a ranking and the fields a group takes from its first member
  depend on; a hyphen for the dash in one error text; output that is not
  closed while a command prints.

  \<^bold>\<open>Not modelled.\<close> The generated kernel bindings (\<open>bindings.rs\<close>; the six fields the program reads are the record
  \<open>sock\<close>). Code of other packages: clap's parsing of the command line, serde's printing of JSON, chrono, prost, aya,
  the engine of the database beyond its statements' meaning, and ratatui (layout and what a widget looks like on
  the terminal; the layout's number of areas is a hypothesis). The system call that reads the peer's
  uid, whose result is an input. The scroll offset of the view's table. The test of a theme's contrast (it uses
  \<open>powf\<close>), tests that need the live \<open>/proc\<close>, a socket or the engine's time zone functions, and the tests of the
  view and its drawing beyond the ones named above.
\<close>

end
